(* ===== verification/Prelude.thy ===== *)
theory Prelude
  imports
    Main
    "HOL-Library.AList"
    "HOL-Library.Char_ord"
    "HOL-Library.List_Lexorder"
    "HOL-Library.Multiset"
begin

text \<open>
  Shared ground of the development: exceptions as values, the collections of
  facts the component proofs use, decimal numerals as JavaScript prints them,
  \<open>padStart\<close>, \<open>join\<close>, and generic lemmas on lists.
\<close>

section \<open>Exceptions as values\<close>

text \<open>
  A JavaScript function that may throw returns a \<open>result\<close>: \<open>Inl\<close> holds the
  exception, \<open>Inr\<close> the value. \<open>TypeError\<close> is raised by the language itself (a
  property read of \<open>undefined\<close>), \<open>SyntaxError\<close> by \<open>JSON.parse\<close>, and \<open>Thrown\<close>
  stands for \<open>throw new Error(...)\<close>. \<open>NoReturn\<close> is no exception: it marks a call that
  loops forever (\<open>BlockFactory.calcValidator\<close>), after which nothing runs either.
\<close>

datatype js_exn = TypeError | SyntaxError | Thrown string | NoReturn

type_synonym 'a result = "js_exn + 'a"

definition bindr :: "'a result \<Rightarrow> ('a \<Rightarrow> 'b result) \<Rightarrow> 'b result" where
  "bindr m f = (case m of Inl e \<Rightarrow> Inl e | Inr x \<Rightarrow> f x)"

named_theorems js_simps \<open>rewrite rules for the modelled JavaScript operations\<close>
named_theorems chain_defs \<open>definitions of the ledger operations\<close>
named_theorems frame_simps \<open>fields an operation leaves unchanged\<close>

lemma bindr_simps [simp, js_simps]:
  "bindr (Inl e) f = Inl e"
  "bindr (Inr x) f = f x"
  by (simp_all add: bindr_def)

lemma bindr_eq_Inr [simp]: "bindr m f = Inr y \<longleftrightarrow> (\<exists>x. m = Inr x \<and> f x = Inr y)"
  by (cases m) simp_all

lemma bindr_eq_Inl: "bindr m f = Inl e \<longleftrightarrow> m = Inl e \<or> (\<exists>x. m = Inr x \<and> f x = Inl e)"
  by (cases m) simp_all

lemma bindr_assoc: "bindr (bindr m f) g = bindr m (\<lambda>x. bindr (f x) g)"
  by (cases m) simp_all

section \<open>Decimal numerals\<close>

text \<open>\<open>String(n)\<close> for an integer: digits without leading zeros, a sign if negative.\<close>

definition digit :: "nat \<Rightarrow> char" where
  "digit d = char_of (48 + d)"

definition undigit :: "char \<Rightarrow> nat" where
  "undigit c = of_char c - 48"

definition is_digit :: "char \<Rightarrow> bool" where
  "is_digit c \<longleftrightarrow> 48 \<le> (of_char c :: nat) \<and> (of_char c :: nat) \<le> 57"

fun dec_of_nat :: "nat \<Rightarrow> string" where
  "dec_of_nat n = (if n < 10 then [digit n] else dec_of_nat (n div 10) @ [digit (n mod 10)])"

declare dec_of_nat.simps [simp del]

definition nat_of_dec :: "string \<Rightarrow> nat" where
  "nat_of_dec s = foldl (\<lambda>a c. 10 * a + undigit c) 0 s"

definition dec_of_int :: "int \<Rightarrow> string" where
  "dec_of_int i = (if i < 0 then CHR ''-'' # dec_of_nat (nat (- i)) else dec_of_nat (nat i))"

lemma of_char_digit: "d < 10 \<Longrightarrow> (of_char (digit d) :: nat) = 48 + d"
  by (simp add: digit_def)

lemma undigit_digit [simp]: "d < 10 \<Longrightarrow> undigit (digit d) = d"
  by (simp add: undigit_def of_char_digit)

lemma is_digit_digit [simp]: "d < 10 \<Longrightarrow> is_digit (digit d)"
  by (simp add: is_digit_def of_char_digit)

lemma is_digit_not [simp]:
  "\<not> is_digit CHR ''-''" "\<not> is_digit CHR '',''" "\<not> is_digit CHR '';''"
  "\<not> is_digit CHR '']''" "\<not> is_digit CHR ''}''" "\<not> is_digit CHR '':''"
  "\<not> is_digit CHR 0x22" "\<not> is_digit CHR ''[''" "\<not> is_digit CHR ''{''"
  "\<not> is_digit CHR ''n''" "\<not> is_digit CHR ''t''" "\<not> is_digit CHR ''f''"
  by (simp_all add: is_digit_def)

lemma is_digit_ws:
  "\<not> is_digit CHR '' ''" "\<not> is_digit CHR 0x09" "\<not> is_digit CHR 0x0A" "\<not> is_digit CHR 0x0D"
  by (simp_all add: is_digit_def)

lemma digits_dec_of_nat: "list_all is_digit (dec_of_nat n)"
proof (induction n rule: dec_of_nat.induct)
  case (1 n)
  then show ?case by (subst dec_of_nat.simps) simp
qed

lemma dec_of_nat_not_Nil [simp]: "dec_of_nat n \<noteq> []"
  by (subst dec_of_nat.simps) simp

lemma nat_of_dec_of_nat [simp]: "nat_of_dec (dec_of_nat n) = n"
proof (induction n rule: dec_of_nat.induct)
  case (1 n)
  then show ?case
    by (subst dec_of_nat.simps) (simp add: nat_of_dec_def)
qed

lemma dec_of_nat_inject [simp]: "dec_of_nat m = dec_of_nat n \<longleftrightarrow> m = n"
  by (metis nat_of_dec_of_nat)

lemma hd_dec_of_nat: "is_digit (hd (dec_of_nat n))"
  using digits_dec_of_nat [of n] by (cases "dec_of_nat n") simp_all

lemma minus_notin_dec_of_nat: "CHR ''-'' \<notin> set (dec_of_nat n)"
  using digits_dec_of_nat [of n] by (auto simp: list_all_iff)

lemma dec_of_int_inject [simp]: "dec_of_int i = dec_of_int j \<longleftrightarrow> i = j"
proof
  assume eq: "dec_of_int i = dec_of_int j"
  have "\<not> is_digit CHR ''-''" by simp
  then have "dec_of_nat n \<noteq> CHR ''-'' # xs" for n xs
    using hd_dec_of_nat [of n] by (metis list.sel(1))
  then show "i = j"
    using eq by (auto simp: dec_of_int_def split: if_splits dest: sym)
qed simp

lemma dec_of_int_not_Nil [simp]: "dec_of_int i \<noteq> []"
  by (simp add: dec_of_int_def)

lemma comma_notin_dec_of_int [simp]: "CHR '','' \<notin> set (dec_of_int i)"
proof -
  have "CHR '','' \<notin> set (dec_of_nat n)" for n
    using digits_dec_of_nat [of n] by (auto simp: list_all_iff)
  then show ?thesis by (simp add: dec_of_int_def)
qed

section \<open>Strings\<close>

text \<open>\<open>s.padStart(n, '0')\<close>, \<open>a.join(sep)\<close> and \<open>s.indexOf(t) > -1\<close>.\<close>

definition padStart :: "nat \<Rightarrow> char \<Rightarrow> string \<Rightarrow> string" where
  "padStart n c s = replicate (n - length s) c @ s"

fun join :: "string \<Rightarrow> string list \<Rightarrow> string" where
  "join sep [] = []"
| "join sep [x] = x"
| "join sep (x # y # zs) = x @ sep @ join sep (y # zs)"

fun is_prefix :: "string \<Rightarrow> string \<Rightarrow> bool" where
  "is_prefix [] t = True"
| "is_prefix (x # xs) [] = False"
| "is_prefix (x # xs) (y # ys) = (x = y \<and> is_prefix xs ys)"

fun includes_str :: "string \<Rightarrow> string \<Rightarrow> bool" where
  "includes_str pat [] = is_prefix pat []"
| "includes_str pat (c # cs) = (is_prefix pat (c # cs) \<or> includes_str pat cs)"

text \<open>\<open>s.trim()\<close> on ASCII text.\<close>

definition is_space :: "char \<Rightarrow> bool" where
  "is_space c \<longleftrightarrow> c = CHR '' '' \<or> 9 \<le> (of_char c :: nat) \<and> of_char c \<le> (13 :: nat)"

definition trim :: "string \<Rightarrow> string" where
  "trim s = rev (dropWhile is_space (rev (dropWhile is_space s)))"

lemma is_prefix_iff: "is_prefix p s \<longleftrightarrow> (\<exists>r. s = p @ r)"
  by (induction p s rule: is_prefix.induct) auto

lemma includes_str_iff: "includes_str p s \<longleftrightarrow> (\<exists>l r. s = l @ p @ r)"
proof (induction p s rule: includes_str.induct)
  case (1 pat)
  then show ?case by (auto simp: is_prefix_iff)
next
  case (2 pat c cs)
  then show ?case
    by (auto simp: is_prefix_iff) (metis append_Cons append_Nil list.exhaust list.inject)+
qed

lemma length_padStart: "length s \<le> n \<Longrightarrow> length (padStart n c s) = n"
  by (simp add: padStart_def)

section \<open>Lists\<close>

lemma append_sep_inject:
  assumes "xs @ c # ys = xs' @ c # ys'" and "c \<notin> set xs" and "c \<notin> set xs'"
  shows "xs = xs' \<and> ys = ys'"
  using assms
proof (induction xs arbitrary: xs')
  case Nil
  then show ?case by (cases xs') auto
next
  case (Cons x xs)
  then show ?case by (cases xs') auto
qed

lemma sum_list_filter_split:
  "sum_list (map f xs) = sum_list (map f (filter P xs)) + sum_list (map f (filter (\<lambda>x. \<not> P x) xs))"
  for f :: "'a \<Rightarrow> int"
  by (induction xs) auto

end
