(* ===== verification/Js_Map.thy ===== *)
theory Js_Map
  imports Prelude
begin

text \<open>
  The \<open>Map\<close> of JavaScript, which iterates in insertion order: \<open>set\<close> on a present
  key replaces the value in its place, \<open>set\<close> on a new key appends, \<open>delete\<close> removes
  the entry. The locale \<open>js_map\<close> is the interface the components rely on; its
  interpretation \<open>jm\<close> gives the laws for the association lists of the model.
\<close>

section \<open>The map operations\<close>

type_synonym ('k, 'v) jsmap = "('k \<times> 'v) list"

definition jm_empty :: "('k, 'v) jsmap" where
  "jm_empty = []"

definition jm_get :: "('k, 'v) jsmap \<Rightarrow> 'k \<Rightarrow> 'v option" where
  "jm_get m k = map_of m k"

definition jm_has :: "('k, 'v) jsmap \<Rightarrow> 'k \<Rightarrow> bool" where
  "jm_has m k \<longleftrightarrow> jm_get m k \<noteq> None"

definition jm_set :: "'k \<Rightarrow> 'v \<Rightarrow> ('k, 'v) jsmap \<Rightarrow> ('k, 'v) jsmap" where
  "jm_set k v m = AList.update k v m"

definition jm_delete :: "'k \<Rightarrow> ('k, 'v) jsmap \<Rightarrow> ('k, 'v) jsmap" where
  "jm_delete k m = filter (\<lambda>e. fst e \<noteq> k) m"

definition jm_keys :: "('k, 'v) jsmap \<Rightarrow> 'k list" where
  "jm_keys m = map fst m"

definition jm_values :: "('k, 'v) jsmap \<Rightarrow> 'v list" where
  "jm_values m = map snd m"

definition jm_size :: "('k, 'v) jsmap \<Rightarrow> nat" where
  "jm_size m = length m"

definition jm_wf :: "('k, 'v) jsmap \<Rightarrow> bool" where
  "jm_wf m \<longleftrightarrow> distinct (map fst m)"

text \<open>\<open>m.get(k) || d\<close> for numbers: a missing entry and a stored 0 both give \<open>d\<close> when \<open>d\<close> is 0.\<close>

definition jm_get_or :: "('k, 'v) jsmap \<Rightarrow> 'k \<Rightarrow> 'v \<Rightarrow> 'v" where
  "jm_get_or m k d = (case jm_get m k of None \<Rightarrow> d | Some v \<Rightarrow> v)"

section \<open>The interface\<close>

locale js_map =
  fixes mempty :: "'m"
    and get :: "'m \<Rightarrow> 'k \<Rightarrow> 'v option"
    and upd :: "'k \<Rightarrow> 'v \<Rightarrow> 'm \<Rightarrow> 'm"
    and del :: "'k \<Rightarrow> 'm \<Rightarrow> 'm"
    and entries :: "'m \<Rightarrow> ('k \<times> 'v) list"
    and wf :: "'m \<Rightarrow> bool"
  assumes wf_empty: "wf mempty"
    and wf_upd: "wf m \<Longrightarrow> wf (upd k v m)"
    and wf_del: "wf m \<Longrightarrow> wf (del k m)"
    and entries_empty: "entries mempty = []"
    and entries_distinct: "wf m \<Longrightarrow> distinct (map fst (entries m))"
    and get_entries: "wf m \<Longrightarrow> get m k = map_of (entries m) k"
    and get_upd: "wf m \<Longrightarrow> get (upd k v m) j = (if j = k then Some v else get m j)"
    and get_del: "wf m \<Longrightarrow> get (del k m) j = (if j = k then None else get m j)"
    and upd_new: "wf m \<Longrightarrow> get m k = None \<Longrightarrow> entries (upd k v m) = entries m @ [(k, v)]"
    and upd_old: "wf m \<Longrightarrow> get m k \<noteq> None \<Longrightarrow> map fst (entries (upd k v m)) = map fst (entries m)"
    and del_entries: "wf m \<Longrightarrow> entries (del k m) = filter (\<lambda>e. fst e \<noteq> k) (entries m)"
begin

definition total :: "('v \<Rightarrow> int) \<Rightarrow> 'm \<Rightarrow> int" where
  "total f m = sum_list (map (\<lambda>e. f (snd e)) (entries m))"

lemma total_empty: "total f mempty = 0"
  by (simp add: total_def entries_empty)

lemma entries_get: "wf m \<Longrightarrow> (k, v) \<in> set (entries m) \<longleftrightarrow> get m k = Some v"
  by (simp add: get_entries entries_distinct)

lemma total_alt:
  assumes "wf m"
  shows "total f m = (\<Sum>k \<in> dom (get m). f (the (get m k)))"
proof -
  have d: "distinct (map fst (entries m))" using assms by (rule entries_distinct)
  have dom: "dom (get m) = fst ` set (entries m)"
    using assms by (simp add: dom_map_of_conv_image_fst [symmetric]) (simp add: get_entries dom_def)
  have "total f m = (\<Sum>e \<in> set (entries m). f (snd e))"
    using d by (simp add: total_def sum_list_distinct_conv_sum_set distinct_map)
  also have "\<dots> = (\<Sum>e \<in> set (entries m). f (the (get m (fst e))))"
    using assms by (intro sum.cong) (auto simp: entries_get)
  also have "\<dots> = (\<Sum>k \<in> dom (get m). f (the (get m k)))"
    using d by (simp add: dom sum.reindex distinct_map)
  finally show ?thesis .
qed

lemma get_map_of: "wf m \<Longrightarrow> get m = map_of (entries m)"
  by (rule ext) (rule get_entries)

lemma finite_dom: "wf m \<Longrightarrow> finite (dom (get m))"
  by (simp add: get_map_of finite_dom_map_of)

lemma total_rest:
  assumes "wf m"
  shows "total f m = (case get m k of None \<Rightarrow> 0 | Some w \<Rightarrow> f w)
    + (\<Sum>j \<in> dom (get m) - {k}. f (the (get m j)))"
proof (cases "get m k")
  case None
  then have "dom (get m) - {k} = dom (get m)" by auto
  then show ?thesis using None assms by (simp add: total_alt)
next
  case (Some w)
  then have "k \<in> dom (get m)" by auto
  then show ?thesis
    using Some sum.remove [OF finite_dom [OF assms], of k "\<lambda>j. f (the (get m j))"] assms
    by (simp add: total_alt)
qed

lemma total_upd:
  assumes "wf m"
  shows "total f (upd k v m) = total f m - (case get m k of None \<Rightarrow> 0 | Some w \<Rightarrow> f w) + f v"
proof -
  have "dom (get (upd k v m)) - {k} = dom (get m) - {k}"
    using assms by (auto simp: dom_def get_upd)
  moreover have "(\<Sum>j \<in> dom (get m) - {k}. f (the (get (upd k v m) j)))
      = (\<Sum>j \<in> dom (get m) - {k}. f (the (get m j)))"
    using assms by (intro sum.cong) (auto simp: get_upd)
  ultimately show ?thesis
    using total_rest [OF assms, of f k] total_rest [OF wf_upd [OF assms], of f k v k] assms
    by (simp add: get_upd)
qed

lemma total_del:
  assumes "wf m"
  shows "total f (del k m) = total f m - (case get m k of None \<Rightarrow> 0 | Some w \<Rightarrow> f w)"
proof -
  have "dom (get (del k m)) - {k} = dom (get m) - {k}"
    using assms by (auto simp: dom_def get_del)
  moreover have "(\<Sum>j \<in> dom (get m) - {k}. f (the (get (del k m) j)))
      = (\<Sum>j \<in> dom (get m) - {k}. f (the (get m j)))"
    using assms by (intro sum.cong) (auto simp: get_del)
  ultimately show ?thesis
    using total_rest [OF assms, of f k] total_rest [OF wf_del [OF assms], of f k k] assms
    by (simp add: get_del)
qed

lemma size_upd:
  assumes "wf m"
  shows "length (entries (upd k v m)) = length (entries m) + (if get m k = None then 1 else 0)"
proof (cases "get m k = None")
  case True
  then show ?thesis using assms by (simp add: upd_new)
next
  case False
  then have "map fst (entries (upd k v m)) = map fst (entries m)"
    using assms by (simp add: upd_old)
  then have "length (map fst (entries (upd k v m))) = length (map fst (entries m))" by simp
  then show ?thesis using False by simp
qed

lemma upd_del_comm_get: "wf m \<Longrightarrow> j \<noteq> k \<Longrightarrow> get (upd k v (del j m)) i = get (del j (upd k v m)) i"
  by (simp add: get_upd get_del wf_del wf_upd)

end

section \<open>The implementation satisfies the interface\<close>

lemma map_fst_update_old: "map_of m k \<noteq> None \<Longrightarrow> map fst (AList.update k v m) = map fst m"
  by (induction m) (auto split: if_splits)

lemma update_new: "map_of m k = None \<Longrightarrow> AList.update k v m = m @ [(k, v)]"
  by (induction m) (auto split: if_splits)

lemma map_of_filter_ne: "map_of (filter (\<lambda>e. fst e \<noteq> k) m) j = (if j = k then None else map_of m j)"
  by (induction m) auto

interpretation jm: js_map jm_empty jm_get jm_set jm_delete "\<lambda>m. m" jm_wf
proof unfold_locales
  show "jm_wf jm_empty" by (simp add: jm_wf_def jm_empty_def)
  show "jm_wf m \<Longrightarrow> jm_wf (jm_set k v m)" for m :: "('a \<times> 'b) list" and k v
    by (simp add: jm_wf_def jm_set_def distinct_update)
  show "jm_wf m \<Longrightarrow> jm_wf (jm_delete k m)" for m :: "('a \<times> 'b) list" and k
    by (simp add: jm_wf_def jm_delete_def distinct_map_filter)
  show "jm_get (jm_delete k m) j = (if j = k then None else jm_get m j)"
    if "jm_wf m" for m :: "('a \<times> 'b) list" and k j
    by (simp add: jm_get_def jm_delete_def map_of_filter_ne)
  show "map fst (jm_set k v m) = map fst m"
    if "jm_wf m" and "jm_get m k \<noteq> None" for m :: "('a \<times> 'b) list" and k v
    using that by (simp add: jm_get_def jm_set_def map_fst_update_old)
qed (auto simp: jm_empty_def jm_wf_def jm_get_def jm_set_def jm_delete_def update_conv update_new)

lemmas jm_defs = jm_empty_def jm_get_def jm_has_def jm_set_def jm_delete_def jm_keys_def
  jm_values_def jm_size_def jm_get_or_def

lemma jm_get_set [simp, js_simps]: "jm_get (jm_set k v m) j = (if j = k then Some v else jm_get m j)"
  by (simp add: jm_get_def jm_set_def update_conv)

lemma jm_get_delete [simp, js_simps]: "jm_get (jm_delete k m) j = (if j = k then None else jm_get m j)"
  by (simp add: jm_get_def jm_delete_def map_of_filter_ne)

lemma jm_get_empty [simp, js_simps]: "jm_get jm_empty k = None"
  by (simp add: jm_defs)

lemma set_jm_setD: "e \<in> set (jm_set k v m) \<Longrightarrow> e = (k, v) \<or> e \<in> set m"
  by (induction m) (auto simp: jm_set_def split: if_splits)

lemma jm_wf_simps [simp, intro]:
  "jm_wf jm_empty"
  "jm_wf m \<Longrightarrow> jm_wf (jm_set k v m)"
  "jm_wf m \<Longrightarrow> jm_wf (jm_delete k m)"
  by (fact jm.wf_empty jm.wf_upd jm.wf_del)+

lemma jm_has_iff [simp]: "jm_has m k \<longleftrightarrow> (\<exists>v. jm_get m k = Some v)"
  by (simp add: jm_has_def)

lemma jm_get_or_set [simp]: "jm_get_or (jm_set k v m) j d = (if j = k then v else jm_get_or m j d)"
  by (simp add: jm_get_or_def)

end
