(* ===== verification/Json.thy ===== *)
theory Json
  imports Prelude
begin

text \<open>
  \<open>JSON.stringify\<close> and \<open>JSON.parse\<close> of the language, on the values the program
  sends, stores and hashes: integers, strings, arrays and objects with ordered keys.
  Numbers with a fraction or an exponent and \<open>\u\<close> escapes above 0xff are not read
  (every number of the schemas is an integer). The main result is the round trip
  \<open>json_parse (stringify v) = Inr v\<close>.
\<close>

section \<open>Values\<close>

datatype json =
    JNull
  | JBool bool
  | JNum int
  | JStr string
  | JArr "json list"
  | JObj "(string \<times> json) list"

section \<open>JSON.stringify\<close>

definition hex_digit :: "nat \<Rightarrow> char" where
  "hex_digit d = (if d < 10 then char_of (48 + d) else char_of (87 + d))"

definition unhex :: "char \<Rightarrow> nat option" where
  "unhex c = (let n = of_char c in
     if 48 \<le> n \<and> n \<le> 57 then Some (n - 48)
     else if 97 \<le> n \<and> n \<le> 102 then Some (n - 87)
     else if 65 \<le> n \<and> n \<le> 70 then Some (n - 55) else None)"

definition esc_char :: "char \<Rightarrow> string" where
  "esc_char c =
     (if c = CHR 0x22 then [CHR 0x5C, CHR 0x22]
      else if c = CHR 0x5C then [CHR 0x5C, CHR 0x5C]
      else if c = CHR 0x08 then [CHR 0x5C, CHR ''b'']
      else if c = CHR 0x09 then [CHR 0x5C, CHR ''t'']
      else if c = CHR 0x0A then [CHR 0x5C, CHR ''n'']
      else if c = CHR 0x0C then [CHR 0x5C, CHR ''f'']
      else if c = CHR 0x0D then [CHR 0x5C, CHR ''r'']
      else if (of_char c :: nat) < 32 then
        [CHR 0x5C, CHR ''u'', CHR ''0'', CHR ''0'',
         hex_digit (of_char c div 16), hex_digit (of_char c mod 16)]
      else [c])"

definition quote :: "string \<Rightarrow> string" where
  "quote s = CHR 0x22 # concat (map esc_char s) @ [CHR 0x22]"

fun stringify :: "json \<Rightarrow> string" where
  "stringify JNull = ''null''"
| "stringify (JBool b) = (if b then ''true'' else ''false'')"
| "stringify (JNum i) = dec_of_int i"
| "stringify (JStr s) = quote s"
| "stringify (JArr xs) = ''['' @ join '','' (map stringify xs) @ '']''"
| "stringify (JObj fs) = ''{'' @ join '','' (map (\<lambda>(k, v). quote k @ '':'' @ stringify v) fs) @ ''}''"

section \<open>JSON.parse\<close>

fun skip_ws :: "string \<Rightarrow> string" where
  "skip_ws [] = []"
| "skip_ws (c # cs) =
     (if c = CHR '' '' \<or> c = CHR 0x09 \<or> c = CHR 0x0A \<or> c = CHR 0x0D then skip_ws cs else c # cs)"

definition unesc :: "char \<Rightarrow> char option" where
  "unesc c =
     (if c = CHR 0x22 then Some (CHR 0x22) else if c = CHR 0x5C then Some (CHR 0x5C)
      else if c = CHR ''/'' then Some (CHR ''/'') else if c = CHR ''b'' then Some (CHR 0x08)
      else if c = CHR ''t'' then Some (CHR 0x09) else if c = CHR ''n'' then Some (CHR 0x0A)
      else if c = CHR ''f'' then Some (CHR 0x0C) else if c = CHR ''r'' then Some (CHR 0x0D)
      else None)"

text \<open>The rest of a string literal, after its opening quote.\<close>

fun parse_chars :: "string \<Rightarrow> (string \<times> string) option" where
  "parse_chars [] = None"
| "parse_chars (c # cs) =
     (if c = CHR 0x22 then Some ([], cs)
      else if c = CHR 0x5C then
        (case cs of
           [] \<Rightarrow> None
         | e # ds \<Rightarrow>
             if e = CHR ''u'' then
               (case ds of
                  h1 # h2 # h3 # h4 # es \<Rightarrow>
                    (case (unhex h1, unhex h2, unhex h3, unhex h4) of
                       (Some 0, Some 0, Some a, Some b) \<Rightarrow>
                         map_option (\<lambda>(s, r). (char_of (16 * a + b) # s, r)) (parse_chars es)
                     | _ \<Rightarrow> None)
                | _ \<Rightarrow> None)
             else
               (case unesc e of
                  None \<Rightarrow> None
                | Some x \<Rightarrow> map_option (\<lambda>(s, r). (x # s, r)) (parse_chars ds)))
      else if (of_char c :: nat) < 32 then None
      else map_option (\<lambda>(s, r). (c # s, r)) (parse_chars cs))"

definition parse_nat :: "string \<Rightarrow> (nat \<times> string) option" where
  "parse_nat s =
     (let ds = takeWhile is_digit s; r = dropWhile is_digit s
      in if ds = [] \<or> (hd ds = CHR ''0'' \<and> ds \<noteq> [CHR ''0'']) then None
         else Some (nat_of_dec ds, r))"

definition strip :: "char \<Rightarrow> string \<Rightarrow> string option" where
  "strip c s = (case s of [] \<Rightarrow> None | x # r \<Rightarrow> if x = c then Some r else None)"

definition parse_int :: "string \<Rightarrow> (int \<times> string) option" where
  "parse_int s =
     (case strip (CHR ''-'') s of
        Some r \<Rightarrow> map_option (\<lambda>(n, t). (- int n, t)) (parse_nat r)
      | None \<Rightarrow> map_option (\<lambda>(n, t). (int n, t)) (parse_nat s))"

text \<open>
  Recursive descent. The fuel bounds the depth of the calls; \<open>json_parse\<close> gives one
  more unit than there are characters, which \<open>parse_stringify\<close> shows to be enough.
\<close>

fun parse_value :: "nat \<Rightarrow> string \<Rightarrow> (json \<times> string) option"
  and parse_elems :: "nat \<Rightarrow> string \<Rightarrow> (json list \<times> string) option"
  and parse_members :: "nat \<Rightarrow> string \<Rightarrow> ((string \<times> json) list \<times> string) option"
where
  "parse_value 0 s = None"
| "parse_value (Suc n) s =
     (case skip_ws s of
        [] \<Rightarrow> None
      | c # r \<Rightarrow>
          if c = CHR 0x22 then map_option (\<lambda>(x, t). (JStr x, t)) (parse_chars r)
          else if c = CHR ''['' then
            (case strip (CHR '']'') (skip_ws r) of
               Some t \<Rightarrow> Some (JArr [], t)
             | None \<Rightarrow> map_option (\<lambda>(xs, u). (JArr xs, u)) (parse_elems n r))
          else if c = CHR ''{'' then
            (case strip (CHR ''}'') (skip_ws r) of
               Some t \<Rightarrow> Some (JObj [], t)
             | None \<Rightarrow> map_option (\<lambda>(fs, u). (JObj fs, u)) (parse_members n r))
          else if is_prefix ''null'' (c # r) then Some (JNull, drop 4 (c # r))
          else if is_prefix ''true'' (c # r) then Some (JBool True, drop 4 (c # r))
          else if is_prefix ''false'' (c # r) then Some (JBool False, drop 5 (c # r))
          else map_option (\<lambda>(i, t). (JNum i, t)) (parse_int (c # r)))"
| "parse_elems 0 s = None"
| "parse_elems (Suc n) s =
     (case parse_value n s of
        None \<Rightarrow> None
      | Some (x, t) \<Rightarrow>
          (case strip (CHR '']'') (skip_ws t) of
             Some u \<Rightarrow> Some ([x], u)
           | None \<Rightarrow>
               (case strip (CHR '','') (skip_ws t) of
                  Some u \<Rightarrow> map_option (\<lambda>(xs, w). (x # xs, w)) (parse_elems n u)
                | None \<Rightarrow> None)))"
| "parse_members 0 s = None"
| "parse_members (Suc n) s =
     (case Option.bind (strip (CHR 0x22) (skip_ws s)) parse_chars of
        None \<Rightarrow> None
      | Some (k, t) \<Rightarrow>
          (case Option.bind (strip (CHR '':'') (skip_ws t)) (parse_value n) of
             None \<Rightarrow> None
           | Some (x, w) \<Rightarrow>
               (case strip (CHR ''}'') (skip_ws w) of
                  Some y \<Rightarrow> Some ([(k, x)], y)
                | None \<Rightarrow>
                    (case strip (CHR '','') (skip_ws w) of
                       Some y \<Rightarrow> map_option (\<lambda>(fs, z). ((k, x) # fs, z)) (parse_members n y)
                     | None \<Rightarrow> None))))"

definition json_parse :: "string \<Rightarrow> json result" where
  "json_parse s =
     (case parse_value (Suc (length s)) s of
        None \<Rightarrow> Inl SyntaxError
      | Some (v, r) \<Rightarrow> if skip_ws r = [] then Inr v else Inl SyntaxError)"

section \<open>The parser reads back what the printer writes\<close>

lemma unhex_hex_digit: "d < 16 \<Longrightarrow> unhex (hex_digit d) = Some d"
  by (auto simp: unhex_def hex_digit_def Let_def)

lemma parse_chars_esc:
  "parse_chars (esc_char c @ t) = map_option (\<lambda>(s, r). (c # s, r)) (parse_chars t)"
proof -
  consider (special) "c \<in> {CHR 0x22, CHR 0x5C, CHR 0x08, CHR 0x09, CHR 0x0A, CHR 0x0C, CHR 0x0D}"
    | (control) "c \<notin> {CHR 0x22, CHR 0x5C, CHR 0x08, CHR 0x09, CHR 0x0A, CHR 0x0C, CHR 0x0D}"
        "(of_char c :: nat) < 32"
    | (plain) "c \<notin> {CHR 0x22, CHR 0x5C, CHR 0x08, CHR 0x09, CHR 0x0A, CHR 0x0C, CHR 0x0D}"
        "\<not> (of_char c :: nat) < 32"
    by blast
  then show ?thesis
  proof cases
    case special
    then show ?thesis by (auto simp: esc_char_def unesc_def)
  next
    case control
    then have esc: "esc_char c = [CHR 0x5C, CHR ''u'', CHR ''0'', CHR ''0'',
        hex_digit (of_char c div 16), hex_digit (of_char c mod 16)]"
      by (simp add: esc_char_def)
    have "unhex (hex_digit (of_char c div 16)) = Some (of_char c div 16)"
      using control(2) by (intro unhex_hex_digit) simp
    moreover have "unhex (hex_digit (of_char c mod 16)) = Some (of_char c mod 16)"
      by (intro unhex_hex_digit) simp
    moreover have "unhex (CHR ''0'') = Some 0" by (simp add: unhex_def)
    ultimately show ?thesis by (simp add: esc)
  next
    case plain
    then show ?thesis by (simp add: esc_char_def)
  qed
qed

lemma parse_chars_quoted: "parse_chars (concat (map esc_char s) @ CHR 0x22 # rest) = Some (s, rest)"
  by (induction s) (simp_all add: parse_chars_esc)

definition ends_number :: "string \<Rightarrow> bool" where
  "ends_number s \<longleftrightarrow> s = [] \<or> \<not> is_digit (hd s)"

lemma hd_dec_of_nat_zero: "hd (dec_of_nat n) = CHR ''0'' \<Longrightarrow> n = 0"
proof (induction n rule: dec_of_nat.induct)
  case (1 n)
  show ?case
  proof (cases "n < 10")
    case True
    then have "digit n = CHR ''0''"
      using "1.prems" by (simp add: dec_of_nat.simps [of n])
    then have "(of_char (digit n) :: nat) = of_char (CHR ''0'')" by (rule arg_cong)
    then show ?thesis using True of_char_digit [of n] by simp
  next
    case False
    then have "hd (dec_of_nat (n div 10)) = CHR ''0''"
      using "1.prems" by (simp add: dec_of_nat.simps [of n])
    then show ?thesis using "1.IH" False by auto
  qed
qed

lemma dec_of_nat_0: "dec_of_nat 0 = ''0''"
  by code_simp

lemma parse_nat_dec: "ends_number rest \<Longrightarrow> parse_nat (dec_of_nat n @ rest) = Some (n, rest)"
proof -
  assume e: "ends_number rest"
  have all: "\<forall>c \<in> set (dec_of_nat n). is_digit c"
    using digits_dec_of_nat [of n] by (simp add: list_all_iff)
  have tw: "takeWhile is_digit (dec_of_nat n @ rest) = dec_of_nat n"
    using all e by (cases rest) (auto simp: ends_number_def takeWhile_append)
  have dw: "dropWhile is_digit (dec_of_nat n @ rest) = rest"
    using all e by (cases rest) (auto simp: ends_number_def dropWhile_append)
  have "hd (dec_of_nat n) = CHR ''0'' \<Longrightarrow> dec_of_nat n = ''0''"
    using hd_dec_of_nat_zero [of n] by (auto simp: dec_of_nat_0)
  then show ?thesis unfolding parse_nat_def tw dw Let_def by simp
qed

lemma parse_int_dec: "ends_number rest \<Longrightarrow> parse_int (dec_of_int i @ rest) = Some (i, rest)"
proof (cases "i < 0")
  case True
  assume "ends_number rest"
  then show ?thesis using True
    by (simp add: parse_int_def dec_of_int_def parse_nat_dec strip_def)
next
  case False
  assume e: "ends_number rest"
  obtain c cs where c: "dec_of_nat (nat i) = c # cs" by (cases "dec_of_nat (nat i)") auto
  then have "c \<noteq> CHR ''-''"
    using hd_dec_of_nat [of "nat i"] by (auto simp: is_digit_def)
  then show ?thesis
    using parse_nat_dec [OF e, of "nat i"] False c
    by (simp add: parse_int_def dec_of_int_def strip_def)
qed

text \<open>A fuel measure: one unit for each call on the way down.\<close>

fun jfuel :: "json \<Rightarrow> nat" where
  "jfuel (JArr xs) = Suc (sum_list (map (\<lambda>x. Suc (jfuel x)) xs))"
| "jfuel (JObj fs) = Suc (sum_list (map (\<lambda>(k, x). Suc (jfuel x)) fs))"
| "jfuel v = 1"

lemma skip_ws_start [simp]:
  "c \<noteq> CHR '' '' \<Longrightarrow> c \<noteq> CHR 0x09 \<Longrightarrow> c \<noteq> CHR 0x0A \<Longrightarrow> c \<noteq> CHR 0x0D \<Longrightarrow> skip_ws (c # cs) = c # cs"
  by simp

lemma strip_Cons [simp]: "strip c (x # r) = (if x = c then Some r else None)"
  by (simp add: strip_def)

lemma ends_number_Cons [simp]: "ends_number (c # s) \<longleftrightarrow> \<not> is_digit c"
  by (simp add: ends_number_def)

definition reads_back :: "json \<Rightarrow> bool" where
  "reads_back v \<longleftrightarrow> (\<forall>n rest. jfuel v \<le> n \<longrightarrow> ends_number rest
     \<longrightarrow> parse_value n (stringify v @ rest) = Some (v, rest))"

text \<open>No value starts with a closing bracket, so \<open>[\<close> and \<open>[]\<close> are told apart.\<close>

lemma skip_ws_digit:
  assumes "is_digit c"
  shows "strip (CHR '']'') (skip_ws (c # s)) = None"
proof -
  have ne: "c \<noteq> d" if "\<not> is_digit d" for d using assms that by blast
  have "skip_ws (c # s) = c # s"
    by (rule skip_ws_start) (rule ne, rule is_digit_ws)+
  moreover have "c \<noteq> CHR '']''" by (rule ne) simp
  ultimately show ?thesis by simp
qed

lemma stringify_start: "strip (CHR '']'') (skip_ws (stringify v @ r)) = None"
proof (cases v)
  case (JNum i)
  obtain c cs where c: "dec_of_nat (nat \<bar>i\<bar>) = c # cs" by (cases "dec_of_nat (nat \<bar>i\<bar>)") auto
  then have "is_digit c" using hd_dec_of_nat [of "nat \<bar>i\<bar>"] by simp
  then show ?thesis using JNum c
    by (cases "i < 0") (simp_all add: dec_of_int_def skip_ws_digit del: skip_ws.simps)
qed (simp_all add: quote_def)

lemma parse_elems_stringify:
  assumes "\<forall>x \<in> set xs. reads_back x" and "xs \<noteq> []"
    and "sum_list (map (\<lambda>x. Suc (jfuel x)) xs) \<le> n"
  shows "parse_elems n (join '','' (map stringify xs) @ CHR '']'' # rest) = Some (xs, rest)"
  using assms
proof (induction xs arbitrary: n)
  case Nil
  then show ?case by simp
next
  case (Cons x xs)
  then obtain m where n: "n = Suc m" by (cases n) auto
  have x: "parse_value m (stringify x @ t) = Some (x, t)" if "ends_number t" for t
    using Cons.prems that n by (auto simp: reads_back_def)
  show ?case
  proof (cases xs)
    case Nil
    then show ?thesis by (simp add: n x)
  next
    case (Cons y ys)
    then have "parse_elems m (join '','' (map stringify xs) @ CHR '']'' # rest) = Some (xs, rest)"
      using Cons.IH Cons.prems n by auto
    then show ?thesis using Cons by (simp add: n x)
  qed
qed

lemma parse_members_stringify:
  assumes "\<forall>(k, x) \<in> set fs. reads_back x" and "fs \<noteq> []"
    and "sum_list (map (\<lambda>(k, x). Suc (jfuel x)) fs) \<le> n"
  shows "parse_members n
      (join '','' (map (\<lambda>(k, v). quote k @ '':'' @ stringify v) fs) @ CHR ''}'' # rest) = Some (fs, rest)"
  using assms
proof (induction fs arbitrary: n)
  case Nil
  then show ?case by simp
next
  case (Cons f fs)
  obtain k x where f: "f = (k, x)" by (cases f) auto
  from Cons.prems obtain m where n: "n = Suc m" by (cases n) (auto simp: f)
  have x: "parse_value m (stringify x @ t) = Some (x, t)" if "ends_number t" for t
    using Cons.prems that n by (auto simp: reads_back_def f)
  have k: "Option.bind (strip (CHR 0x22) (skip_ws (quote k @ t))) parse_chars = Some (k, t)" for t
    by (simp add: quote_def parse_chars_quoted)
  show ?case
  proof (cases fs)
    case Nil
    then show ?thesis by (simp add: n f x k)
  next
    case (Cons y ys)
    then have "parse_members m
        (join '','' (map (\<lambda>(k, v). quote k @ '':'' @ stringify v) fs) @ CHR ''}'' # rest) = Some (fs, rest)"
      using Cons.IH Cons.prems n by (auto simp: f)
    then show ?thesis using Cons by (simp add: n f x k split: prod.split)
  qed
qed

lemma parse_value_int:
  "ends_number rest \<Longrightarrow> parse_value (Suc n) (dec_of_int i @ rest) = Some (JNum i, rest)"
proof -
  assume e: "ends_number rest"
  obtain c cs where c: "dec_of_int i @ rest = c # cs" and d: "is_digit c \<or> c = CHR ''-''"
    using hd_dec_of_nat [of "nat \<bar>i\<bar>"]
    by (cases "dec_of_nat (nat \<bar>i\<bar>)"; cases "i < 0") (auto simp: dec_of_int_def)
  have ne: "c \<noteq> x" if "\<not> is_digit x" and "x \<noteq> CHR ''-''" for x using d that by blast
  have "skip_ws (c # cs) = c # cs"
    by (rule skip_ws_start) (rule ne, rule is_digit_ws, simp)+
  moreover have "c \<noteq> CHR 0x22" "c \<noteq> CHR ''[''" "c \<noteq> CHR ''{''" "CHR ''n'' \<noteq> c" "CHR ''t'' \<noteq> c" "CHR ''f'' \<noteq> c"
    by (rule ne not_sym [OF ne]; simp)+
  ultimately have "parse_value (Suc n) (c # cs) = map_option (\<lambda>(i, t). (JNum i, t)) (parse_int (c # cs))"
    by simp
  then show ?thesis using parse_int_dec [OF e, of i] c by simp
qed

lemma jfuel_pos: "0 < jfuel v"
  by (cases v) simp_all

theorem reads_back: "reads_back v"
proof (induction v)
  case JNull
  then show ?case by (auto simp: reads_back_def gr0_conv_Suc dest!: Suc_le_D)
next
  case (JBool b)
  then show ?case by (auto simp: reads_back_def gr0_conv_Suc dest!: Suc_le_D)
next
  case (JNum i)
  then show ?case by (auto simp: reads_back_def parse_value_int simp del: parse_value.simps dest!: Suc_le_D)
next
  case (JStr s)
  then show ?case by (auto simp: reads_back_def quote_def parse_chars_quoted dest!: Suc_le_D)
next
  case (JArr xs)
  show ?case unfolding reads_back_def
  proof (intro allI impI)
    fix n rest
    assume n: "jfuel (JArr xs) \<le> n"
    then obtain m where m: "n = Suc m" by (cases n) auto
    show "parse_value n (stringify (JArr xs) @ rest) = Some (JArr xs, rest)"
    proof (cases xs)
      case Nil
      then show ?thesis by (simp add: m)
    next
      case (Cons y ys)
      have "parse_elems m (join '','' (map stringify xs) @ CHR '']'' # rest) = Some (xs, rest)"
        using JArr n m Cons by (intro parse_elems_stringify) auto
      moreover have "strip (CHR '']'') (skip_ws (join '','' (map stringify xs) @ CHR '']'' # rest)) = None"
        using Cons stringify_start by (cases ys) simp_all
      ultimately show ?thesis by (simp add: m)
    qed
  qed
next
  case (JObj fs)
  show ?case unfolding reads_back_def
  proof (intro allI impI)
    fix n rest
    assume n: "jfuel (JObj fs) \<le> n"
    then obtain m where m: "n = Suc m" by (cases n) auto
    let ?body = "join '','' (map (\<lambda>(k, v). quote k @ '':'' @ stringify v) fs) @ CHR ''}'' # rest"
    show "parse_value n (stringify (JObj fs) @ rest) = Some (JObj fs, rest)"
    proof (cases fs)
      case Nil
      then show ?thesis by (simp add: m)
    next
      case (Cons y ys)
      have "parse_members m ?body = Some (fs, rest)"
        using JObj n m Cons by (intro parse_members_stringify) fastforce+
      moreover have "strip (CHR ''}'') (skip_ws ?body) = None"
        using Cons by (cases ys) (simp_all add: quote_def split: prod.split)
      ultimately show ?thesis by (simp add: m)
    qed
  qed
qed

lemma length_join: "xs \<noteq> [] \<Longrightarrow> Suc (length (join '','' xs)) = sum_list (map (\<lambda>x. Suc (length x)) xs)"
  by (induction xs rule: induct_list012) auto

lemma jfuel_length: "jfuel v \<le> length (stringify v)"
proof (induction v)
  case (JNum i)
  then show ?case by (simp add: Suc_le_eq)
next
  case (JArr xs)
  show ?case
  proof (cases "xs = []")
    case False
    have "sum_list (map (\<lambda>x. Suc (jfuel x)) xs) \<le> sum_list (map (\<lambda>x. Suc (length (stringify x))) xs)"
      using JArr by (intro sum_list_mono) auto
    then show ?thesis
      using False length_join [of "map stringify xs"] by (simp add: o_def)
  qed simp
next
  case (JObj fs)
  let ?p = "\<lambda>(k, v). quote k @ '':'' @ stringify v"
  show ?case
  proof (cases "fs = []")
    case False
    have "sum_list (map (\<lambda>(k, x). Suc (jfuel x)) fs) \<le> sum_list (map (\<lambda>f. Suc (length (?p f))) fs)"
      using JObj by (intro sum_list_mono) (fastforce intro: le_trans trans_le_add2)
    then show ?thesis
      using False length_join [of "map ?p fs"] by (simp add: o_def)
  qed simp
qed (simp_all add: quote_def)

theorem json_parse_stringify [simp]: "json_parse (stringify v) = Inr v"
proof -
  have "parse_value (Suc (length (stringify v))) (stringify v @ []) = Some (v, [])"
    using reads_back [of v] jfuel_length [of v] unfolding reads_back_def
    by (auto simp: ends_number_def simp del: parse_value.simps)
  then show ?thesis by (simp add: json_parse_def del: parse_value.simps)
qed

lemma stringify_inject [simp]: "stringify v = stringify w \<longleftrightarrow> v = w"
  by (metis json_parse_stringify sum.inject(2))

end
