(* ===== verification/Externals.thy ===== *)
theory Externals
  imports Js_Map Json
begin

text \<open>
  What the program calls and does not contain, as parameters: the cryptographic
  primitives of sodium, the base64url codec, raw deflate, and the Level key-value
  store. A theorem that relies on documented behaviour of one of them names it as a
  hypothesis (\<open>level_ok\<close>, \<open>sign_ok\<close>, ...). \<open>mem_level\<close> is a store in memory with
  that behaviour, for concrete runs. \<open>config\<close> holds the values of \<open>src/config.ts\<close>
  that the modelled code reads.
\<close>

section \<open>Cryptography and codecs\<close>

text \<open>
  Byte buffers and strings are both \<open>string\<close>. A codec or a primitive that throws
  returns \<open>None\<close>.
\<close>

record crypto =
  sha256 :: "string \<Rightarrow> string"
  b64_stringify :: "bool \<Rightarrow> string \<Rightarrow> string" \<comment> \<open>the option \<open>pad\<close>, then the bytes\<close>
  b64_parse :: "bool \<Rightarrow> string \<Rightarrow> string option" \<comment> \<open>the option \<open>loose\<close>, then the text\<close>
  verify_detached :: "string \<Rightarrow> string \<Rightarrow> string \<Rightarrow> bool option" \<comment> \<open>signature, message, public key\<close>
  sign_detached :: "string \<Rightarrow> string \<Rightarrow> string" \<comment> \<open>message, secret key\<close>
  deflate_raw :: "string \<Rightarrow> string"
  inflate_raw :: "string \<Rightarrow> string option"

section \<open>The key-value store\<close>

text \<open>
  \<open>lv_entries\<close> lists the store in key order, the order of \<open>values()\<close> and
  \<open>iterator()\<close>. The range options \<open>gte\<close>, \<open>lte\<close>, \<open>reverse\<close> and \<open>limit\<close> select from it.
\<close>

record 'db level =
  lv_get :: "'db \<Rightarrow> string \<Rightarrow> string option"
  lv_put :: "string \<Rightarrow> string \<Rightarrow> 'db \<Rightarrow> 'db"
  lv_del :: "string \<Rightarrow> 'db \<Rightarrow> 'db"
  lv_clear :: "'db \<Rightarrow> 'db"
  lv_entries :: "'db \<Rightarrow> (string \<times> string) list"

definition lv_values :: "'db level \<Rightarrow> 'db \<Rightarrow> string list" where
  "lv_values L d = map snd (lv_entries L d)"

definition lv_range :: "'db level \<Rightarrow> string \<Rightarrow> string \<Rightarrow> 'db \<Rightarrow> string list" where
  "lv_range L lo hi d = map snd (filter (\<lambda>(k, v). lo \<le> k \<and> k \<le> hi) (lv_entries L d))"

definition lv_reverse_limit :: "'db level \<Rightarrow> nat \<Rightarrow> 'db \<Rightarrow> (string \<times> string) list" where
  "lv_reverse_limit L n d = take n (rev (lv_entries L d))"

definition level_ok :: "'db level \<Rightarrow> bool" where
  "level_ok L \<longleftrightarrow>
     (\<forall>d. sorted_wrt (<) (map fst (lv_entries L d))) \<and>
     (\<forall>d k. lv_get L d k = map_of (lv_entries L d) k) \<and>
     (\<forall>d k v j. lv_get L (lv_put L k v d) j = (if j = k then Some v else lv_get L d j)) \<and>
     (\<forall>d k j. lv_get L (lv_del L k d) j = (if j = k then None else lv_get L d j)) \<and>
     (\<forall>d. lv_entries L (lv_clear L d) = [])"

lemma level_okD:
  assumes "level_ok L"
  shows "sorted_wrt (<) (map fst (lv_entries L d))"
    and "lv_get L d k = map_of (lv_entries L d) k"
    and "lv_get L (lv_put L k v d) j = (if j = k then Some v else lv_get L d j)"
    and "lv_get L (lv_del L k d) j = (if j = k then None else lv_get L d j)"
    and "lv_entries L (lv_clear L d) = []"
  using assms by (auto simp: level_ok_def)

lemma strict_sorted_distinct: "sorted_wrt (<) xs \<Longrightarrow> distinct xs" for xs :: "'a :: linorder list"
  by (simp add: strict_sorted_iff)

lemma level_distinct: "level_ok L \<Longrightarrow> distinct (map fst (lv_entries L d))"
  by (rule strict_sorted_distinct) (rule level_okD)

text \<open>A store in memory: a log of writes, listed in key order.\<close>

fun insert_entry :: "string \<times> string \<Rightarrow> (string \<times> string) list \<Rightarrow> (string \<times> string) list" where
  "insert_entry e [] = [e]"
| "insert_entry e (x # xs) =
     (if fst e = fst x then e # xs else if fst e < fst x then e # x # xs else x # insert_entry e xs)"

definition mem_entries :: "(string \<times> string) list \<Rightarrow> (string \<times> string) list" where
  "mem_entries d = foldr insert_entry d []"

definition mem_level :: "(string \<times> string) list level" where
  "mem_level = \<lparr>lv_get = map_of, lv_put = (\<lambda>k v d. (k, v) # d),
     lv_del = (\<lambda>k. filter (\<lambda>e. fst e \<noteq> k)), lv_clear = (\<lambda>_. []), lv_entries = mem_entries\<rparr>"

lemma keys_insert_entry: "fst ` set (insert_entry e es) = insert (fst e) (fst ` set es)"
  by (induction e es rule: insert_entry.induct) auto

lemma sorted_insert_entry:
  "sorted_wrt (<) (map fst es) \<Longrightarrow> sorted_wrt (<) (map fst (insert_entry e es))"
proof (induction e es rule: insert_entry.induct)
  case (1 e)
  then show ?case by simp
next
  case (2 e x xs)
  have "set (map fst (insert_entry e xs)) = insert (fst e) (set (map fst xs))"
    using keys_insert_entry [of e xs] by simp
  then show ?case using 2 by (auto simp del: set_map intro: less_trans)
qed

lemma map_of_insert_entry:
  "sorted_wrt (<) (map fst es) \<Longrightarrow> map_of (insert_entry e es) = (map_of es)(fst e \<mapsto> snd e)"
proof (induction e es rule: insert_entry.induct)
  case (2 e x xs)
  show ?case
  proof (cases "fst e < fst x")
    case True
    then have "map_of (x # xs) (fst e) = None"
      using "2.prems" by (auto simp: map_of_eq_None_iff)
    then show ?thesis using True by (cases e) auto
  next
    case False
    then show ?thesis using 2 by (cases e; cases x) auto
  qed
qed (simp add: fun_eq_iff)

lemma sorted_mem_entries: "sorted_wrt (<) (map fst (mem_entries d))"
  unfolding mem_entries_def by (induction d) (auto intro: sorted_insert_entry)

lemma map_of_mem_entries: "map_of (mem_entries d) = map_of d"
proof (induction d)
  case Nil
  then show ?case by (simp add: mem_entries_def)
next
  case (Cons e d)
  then show ?case
    using sorted_mem_entries [of d] by (cases e) (simp add: mem_entries_def map_of_insert_entry)
qed

lemma mem_level_ok: "level_ok mem_level"
  unfolding level_ok_def mem_level_def level.simps map_of_mem_entries
  by (simp add: sorted_mem_entries map_of_filter_ne) (simp add: mem_entries_def)

section \<open>Configuration values\<close>

record config =
  is_testnet :: bool
  debug_performance :: bool
  bootstrap_url :: string
  network_p2p_interval_ms :: int
  network_sync_size :: int
  blockchain_max_blocks_in_memory :: int
  api_max_query_size :: int

definition BLOCK_VERSION :: int where "BLOCK_VERSION = 7"
definition STAKE_PING_IDENT :: string where "STAKE_PING_IDENT = ''ping''"
definition STAKE_PING_AMOUNT :: int where "STAKE_PING_AMOUNT = 1"
definition STAKE_PING_SAMPLE_SIZE :: nat where "STAKE_PING_SAMPLE_SIZE = 32"
definition STAKE_VOTE_IDENT :: string where "STAKE_VOTE_IDENT = ''vote''"
definition STAKE_VOTE_MATCH_THRESHOLD :: nat where "STAKE_VOTE_MATCH_THRESHOLD = 3"
definition STAKE_VOTE_AMOUNT :: int where "STAKE_VOTE_AMOUNT = 1"

end
