(* ===== verification/Js_Sort.thy ===== *)
theory Js_Sort
  imports Prelude
begin

text \<open>
  \<open>Array.prototype.sort\<close> with a comparator. The engine inserts each element into the
  sorted part before the first element that the comparator puts after it. The locale
  \<open>comparator\<close> says what a comparator must promise for the result to be sorted;
  the comparators of the program are interpretations of it in their own theories.
\<close>

fun js_insert :: "('a \<Rightarrow> 'a \<Rightarrow> int) \<Rightarrow> 'a \<Rightarrow> 'a list \<Rightarrow> 'a list" where
  "js_insert cmp p [] = [p]"
| "js_insert cmp p (x # xs) = (if cmp p x < 0 then p # x # xs else x # js_insert cmp p xs)"

definition js_sort :: "('a \<Rightarrow> 'a \<Rightarrow> int) \<Rightarrow> 'a list \<Rightarrow> 'a list" where
  "js_sort cmp xs = foldl (\<lambda>acc p. js_insert cmp p acc) [] xs"

lemma mset_js_insert [simp]: "mset (js_insert cmp p xs) = add_mset p (mset xs)"
  by (induction xs) auto

lemma mset_foldl_insert: "mset (foldl (\<lambda>acc p. js_insert cmp p acc) ys xs) = mset ys + mset xs"
  by (induction xs arbitrary: ys) auto

lemma mset_js_sort [simp]: "mset (js_sort cmp xs) = mset xs"
  by (simp add: js_sort_def mset_foldl_insert)

lemma set_js_sort [simp]: "set (js_sort cmp xs) = set xs"
  by (metis mset_js_sort set_mset_mset)

lemma length_js_sort [simp]: "length (js_sort cmp xs) = length xs"
  by (metis mset_js_sort size_mset)

lemma distinct_map_js_sort [simp]: "distinct (map f (js_sort cmp xs)) \<longleftrightarrow> distinct (map f xs)"
  by (metis mset_eq_imp_distinct_iff mset_js_sort mset_map)

lemma js_sort_Nil_iff [simp]: "js_sort cmp xs = [] \<longleftrightarrow> xs = []"
  by (metis length_js_sort length_0_conv)

locale comparator =
  fixes cmp :: "'a \<Rightarrow> 'a \<Rightarrow> int"
    and le :: "'a \<Rightarrow> 'a \<Rightarrow> bool"
  assumes before: "cmp a b < 0 \<Longrightarrow> le a b"
    and after: "\<not> cmp a b < 0 \<Longrightarrow> le b a"
    and trans: "le a b \<Longrightarrow> le b c \<Longrightarrow> le a c"
begin

lemma refl: "le a a"
  using before [of a a] after [of a a] by blast

lemma sorted_js_insert:
  "sorted_wrt le xs \<Longrightarrow> sorted_wrt le (js_insert cmp p xs)"
proof (induction xs)
  case Nil
  then show ?case by simp
next
  case (Cons x xs)
  show ?case
  proof (cases "cmp p x < 0")
    case True
    then have px: "le p x" by (rule before)
    have "\<forall>y \<in> set xs. le p y"
      using Cons.prems px by (auto intro: trans)
    then show ?thesis using True px Cons.prems by simp
  next
    case False
    then have "le x p" by (rule after)
    moreover have "set (js_insert cmp p xs) = insert p (set xs)"
      by (metis mset_js_insert set_mset_add_mset_insert set_mset_mset)
    ultimately show ?thesis using False Cons by simp
  qed
qed

lemma sorted_js_sort: "sorted_wrt le (js_sort cmp xs)"
proof -
  have "sorted_wrt le ys \<Longrightarrow> sorted_wrt le (foldl (\<lambda>acc p. js_insert cmp p acc) ys xs)" for ys
    by (induction xs arbitrary: ys) (auto intro: sorted_js_insert)
  then show ?thesis by (simp add: js_sort_def)
qed

lemma hd_js_sort_le:
  assumes "x \<in> set xs"
  shows "le (hd (js_sort cmp xs)) x"
proof (cases "js_sort cmp xs")
  case Nil
  then show ?thesis using assms by simp
next
  case (Cons y ys)
  then have "set xs = insert y (set ys)" by (metis list.simps(15) set_js_sort)
  then show ?thesis
    using Cons assms sorted_js_sort [of xs] by (auto intro: refl)
qed

text \<open>Where the order tells the elements apart, the result depends only on what is sorted.\<close>

lemma js_sort_unique:
  assumes "mset xs = mset ys" and anti: "\<And>a b. a \<in> set xs \<Longrightarrow> b \<in> set xs \<Longrightarrow> le a b \<Longrightarrow> le b a \<Longrightarrow> a = b"
  shows "js_sort cmp xs = js_sort cmp ys"
proof -
  have "sorted_wrt le zs \<Longrightarrow> sorted_wrt le ws \<Longrightarrow> mset zs = mset ws \<Longrightarrow> set zs \<subseteq> set xs \<Longrightarrow> zs = ws"
    for zs ws
  proof (induction zs arbitrary: ws)
    case Nil
    then show ?case by simp
  next
    case (Cons z zs)
    then obtain w ws' where ws: "ws = w # ws'" by (cases ws) auto
    have sets: "set (z # zs) = set (w # ws')"
      using Cons.prems(3) ws by (metis set_mset_mset)
    have "le z w" using Cons.prems(1) sets by (auto intro: refl)
    moreover have "le w z" using Cons.prems(2) sets ws by (auto intro: refl)
    moreover have "w \<in> set xs" using Cons.prems(4) sets by auto
    ultimately have "z = w" using anti [of z w] Cons.prems(4) by simp
    then show ?case using Cons ws by auto
  qed
  then show ?thesis
    using sorted_js_sort [of xs] sorted_js_sort [of ys] assms(1) by simp
qed

end

end
