(* ===== verification/Util.thy ===== *)
theory Util
  imports Complex_Main Externals Js_Sort
begin

text \<open>
  \<open>src/chain/util.ts\<close>: hashing, signature verification, the Durstenfeld shuffle,
  the quartile coefficient of dispersion, and the two string functions. The lemmas
  show that the shuffle returns a permutation and can return every permutation, that
  the coefficient lies between 0 and 1, and that \<open>stringDiff\<close> is a metric.
\<close>

section \<open>Hash and signature\<close>

definition Util_hash :: "crypto \<Rightarrow> string \<Rightarrow> string" where
  "Util_hash C s = b64_stringify C False (sha256 C s)"

definition verifySignature :: "crypto \<Rightarrow> string \<Rightarrow> string \<Rightarrow> string \<Rightarrow> bool" where
  "verifySignature C publicKey sig data =
     (case b64_parse C True sig of
        None \<Rightarrow> False
      | Some s \<Rightarrow>
          (case b64_parse C True publicKey of
             None \<Rightarrow> False
           | Some pk \<Rightarrow> (case verify_detached C s data pk of None \<Rightarrow> False | Some b \<Rightarrow> b)))"

section \<open>Shuffle\<close>

text \<open>
  \<open>rnd i\<close> is the value \<open>Math.random()\<close> returns in the iteration for index \<open>i\<close>;
  the language promises \<open>0 \<le> rnd i < 1\<close>.
\<close>

definition random_ok :: "(nat \<Rightarrow> rat) \<Rightarrow> bool" where
  "random_ok rnd \<longleftrightarrow> (\<forall>i. 0 \<le> rnd i \<and> rnd i < 1)"

definition pick :: "(nat \<Rightarrow> rat) \<Rightarrow> nat \<Rightarrow> nat" where
  "pick rnd i = nat \<lfloor>rnd i * of_nat (i + 1)\<rfloor>"

definition swap :: "'a list \<Rightarrow> nat \<Rightarrow> nat \<Rightarrow> 'a list" where
  "swap a i j = a[i := a ! j, j := a ! i]"

fun shuffle_loop :: "(nat \<Rightarrow> rat) \<Rightarrow> nat \<Rightarrow> 'a list \<Rightarrow> 'a list" where
  "shuffle_loop rnd 0 a = a"
| "shuffle_loop rnd (Suc i) a = shuffle_loop rnd i (swap a (Suc i) (pick rnd (Suc i)))"

definition shuffleArray :: "(nat \<Rightarrow> rat) \<Rightarrow> 'a list \<Rightarrow> 'a list" where
  "shuffleArray rnd array = shuffle_loop rnd (length array - 1) array"

lemma pick_le: "random_ok rnd \<Longrightarrow> pick rnd i \<le> i"
proof -
  assume "random_ok rnd"
  then have "rnd i * of_nat (i + 1) < of_nat (i + 1)"
    by (simp add: random_ok_def)
  then have "\<lfloor>rnd i * of_nat (i + 1)\<rfloor> < int (i + 1)"
    by (simp add: floor_less_iff)
  then show ?thesis by (simp add: pick_def)
qed

lemma mset_swap: "i < length a \<Longrightarrow> j < length a \<Longrightarrow> mset (swap a i j) = mset a"
  by (simp add: swap_def mset_swap)

lemma length_swap [simp]: "length (swap a i j) = length a"
  by (simp add: swap_def)

lemma nth_swap:
  "i < length a \<Longrightarrow> j < length a \<Longrightarrow>
    swap a i j ! k = (if k = j then a ! i else if k = i then a ! j else a ! k)"
  by (auto simp: swap_def nth_list_update)

lemma mset_shuffle_loop:
  "random_ok rnd \<Longrightarrow> i < length a \<Longrightarrow> mset (shuffle_loop rnd i a) = mset a"
proof (induction i arbitrary: a)
  case 0
  then show ?case by simp
next
  case (Suc i)
  have "pick rnd (Suc i) \<le> Suc i" using Suc.prems(1) by (rule pick_le)
  then show ?case using Suc by (simp add: mset_swap)
qed

lemma mset_shuffleArray: "random_ok rnd \<Longrightarrow> mset (shuffleArray rnd xs) = mset xs"
  by (cases xs) (simp_all add: shuffleArray_def mset_shuffle_loop)

lemma shuffle_loop_beyond:
  "random_ok rnd \<Longrightarrow> i < length a \<Longrightarrow> i < k \<Longrightarrow> k < length a \<Longrightarrow> shuffle_loop rnd i a ! k = a ! k"
proof (induction i arbitrary: a)
  case (Suc i)
  have "pick rnd (Suc i) \<le> Suc i" using Suc.prems(1) by (rule pick_le)
  then show ?case using Suc by (simp add: nth_swap)
qed simp

text \<open>Every arrangement of the first \<open>i + 1\<close> elements is the outcome of some choices.\<close>

definition choices :: "(nat \<Rightarrow> nat) \<Rightarrow> nat \<Rightarrow> rat" where
  "choices J i = of_nat (J i) / of_nat (i + 1)"

lemma pick_choices [simp]: "pick (choices J) i = J i"
proof -
  have "rat_of_nat (J i) / of_nat (i + 1) * of_nat (i + 1) = of_nat (J i)"
    by (simp del: of_nat_add of_nat_Suc)
  then show ?thesis by (simp add: pick_def choices_def del: of_nat_add of_nat_Suc)
qed

lemma random_ok_choices: "(\<forall>i. J i \<le> i) \<Longrightarrow> random_ok (choices J)"
  by (auto simp: random_ok_def choices_def divide_less_eq_1 le_imp_less_Suc
      simp del: of_nat_add of_nat_Suc)

lemma shuffle_loop_cong:
  "(\<And>k. 0 < k \<Longrightarrow> k \<le> i \<Longrightarrow> J k = J' k) \<Longrightarrow> shuffle_loop (choices J) i a = shuffle_loop (choices J') i a"
  by (induction i arbitrary: a) auto

lemma shuffle_loop_onto:
  assumes "mset b = mset a" and "i < length a" and "\<forall>k. i < k \<and> k < length a \<longrightarrow> b ! k = a ! k"
  shows "\<exists>J. (\<forall>k. J k \<le> k) \<and> shuffle_loop (choices J) i a = b"
  using assms
proof (induction i arbitrary: a)
  case 0
  have len: "length b = length a" using 0 by (metis size_mset)
  have "tl b = tl a"
    using 0 len by (intro nth_equalityI) (auto simp: nth_tl)
  moreover have "mset b = mset a" by fact
  moreover have "b \<noteq> []" "a \<noteq> []" using 0 len by auto
  ultimately have "b = a" by (cases a; cases b) auto
  then show ?case by (intro exI [of _ "\<lambda>_. 0"]) simp
next
  case (Suc i)
  have len: "length b = length a" using Suc.prems by (metis size_mset)
  have front: "mset (take (Suc (Suc i)) b) = mset (take (Suc (Suc i)) a)"
  proof -
    have "drop (Suc (Suc i)) b = drop (Suc (Suc i)) a"
      using Suc.prems len by (intro nth_equalityI) auto
    then show ?thesis
      using Suc.prems(1) by (metis add_right_cancel append_take_drop_id mset_append)
  qed
  have "b ! Suc i \<in> set (take (Suc (Suc i)) b)"
    using Suc.prems(2) len by (auto simp: in_set_conv_nth)
  then have "b ! Suc i \<in> set (take (Suc (Suc i)) a)"
    using front by (metis set_mset_mset)
  then obtain j where j: "j \<le> Suc i" "a ! j = b ! Suc i"
    by (auto simp: in_set_conv_nth less_Suc_eq_le)
  let ?a = "swap a (Suc i) j"
  have "mset b = mset ?a" using Suc.prems j by (simp add: mset_swap)
  moreover have "i < length ?a" using Suc.prems by simp
  moreover have "\<forall>k. i < k \<and> k < length ?a \<longrightarrow> b ! k = ?a ! k"
    using Suc.prems j by (auto simp: nth_swap not_less less_Suc_eq_le dest: le_antisym)
  ultimately obtain J where J: "\<forall>k. J k \<le> k" "shuffle_loop (choices J) i ?a = b"
    using Suc.IH by blast
  let ?J = "J(Suc i := j)"
  have "shuffle_loop (choices ?J) i ?a = shuffle_loop (choices J) i ?a"
    by (rule shuffle_loop_cong) simp
  then have "shuffle_loop (choices ?J) (Suc i) a = b" using J by simp
  moreover have "\<forall>k. ?J k \<le> k" using J j by simp
  ultimately show ?case by blast
qed

lemma shuffleArray_onto:
  assumes "mset ys = mset xs"
  shows "\<exists>rnd. random_ok rnd \<and> shuffleArray rnd xs = ys"
proof (cases xs)
  case Nil
  then show ?thesis
    using assms random_ok_choices [of "\<lambda>_. 0"] by (auto simp: shuffleArray_def)
next
  case (Cons x xs')
  then obtain J where "\<forall>k. J k \<le> k" "shuffle_loop (choices J) (length xs - 1) xs = ys"
    using shuffle_loop_onto [OF assms, of "length xs - 1"] by fastforce
  then show ?thesis using random_ok_choices [of J] by (auto simp: shuffleArray_def)
qed

section \<open>Quartile coefficient of dispersion\<close>

text \<open>
  \<open>array.sort((a, b) => a - b)\<close> sorts the caller's array in place, so the sorted array
  is part of the result. \<open>None\<close> as the coefficient is \<open>NaN\<close>, the value of \<open>0 / 0\<close>.
  The quotient is exact; the code compares it with 0.4 and 0.6 only, which rounding a
  quotient of integers below \<open>2 ^ 50\<close> to a double does not change.
\<close>

definition cmp_num :: "int \<Rightarrow> int \<Rightarrow> int" where
  "cmp_num a b = a - b"

interpretation cmp_num: comparator cmp_num "(\<le>)"
  by unfold_locales (auto simp: cmp_num_def)

definition QuartileCoeff :: "int list \<Rightarrow> (rat option \<times> int list) result" where
  "QuartileCoeff array =
     (if length array < 4 then Inl (Thrown ''Invalid Argument'')
      else
        let as = js_sort cmp_num array;
            qi1 = as ! (length array div 4) - as ! 0;
            qi3 = as ! (length array * 3 div 4) - as ! 0
        in Inr (if qi3 + qi1 = 0 then None else Some (of_int (qi3 - qi1) / of_int (qi3 + qi1)), as))"

lemma sorted_js_sort_num: "sorted (js_sort cmp_num xs)"
  using cmp_num.sorted_js_sort [of xs] by simp

lemma js_sort_num_sorted: "sorted xs \<Longrightarrow> js_sort cmp_num xs = xs"
  using cmp_num.sorted_js_sort [of xs]
  by (metis mset_js_sort properties_for_sort sort_key_id_if_sorted)

lemma QuartileCoeff_bounds:
  assumes "QuartileCoeff a = Inr (Some q, as)"
  shows "0 \<le> q \<and> q \<le> 1"
proof -
  let ?s = "js_sort cmp_num a"
  let ?i = "length a div 4" and ?j = "length a * 3 div 4"
  have n: "4 \<le> length a" using assms by (auto simp: QuartileCoeff_def split: if_splits)
  have "?i \<le> ?j" by (intro div_le_mono) simp
  moreover have "?j < length a" using n by linarith
  ultimately have q: "?s ! 0 \<le> ?s ! ?i" "?s ! ?i \<le> ?s ! ?j"
    using sorted_js_sort_num [of a] by (auto intro: sorted_nth_mono)
  have eq: "q = of_int (?s ! ?j - ?s ! ?i) / of_int (?s ! ?j + ?s ! ?i - 2 * ?s ! 0)"
    using assms n by (auto simp: QuartileCoeff_def Let_def algebra_simps split: if_splits)
  show ?thesis
    unfolding eq using q by (intro conjI divide_nonneg_nonneg divide_le_eq_1 [THEN iffD2]) auto
qed

text \<open>Evenly spaced samples, as many as the caller takes, have coefficient one half.\<close>

lemma QuartileCoeff_even_spacing:
  assumes "0 < d" and "0 < m"
  shows "QuartileCoeff (map (\<lambda>i. s + int i * d) [0..<4 * m])
    = Inr (Some (1 / 2), map (\<lambda>i. s + int i * d) [0..<4 * m])"
proof -
  let ?a = "map (\<lambda>i. s + int i * d) [0..<4 * m]"
  have "sorted ?a"
    using assms(1) by (auto simp: sorted_map intro!: sorted_wrt_mono_rel [OF _ sorted_upt] mult_right_mono)
  then have sort: "js_sort cmp_num ?a = ?a" by (rule js_sort_num_sorted)
  have ix: "4 * m div 4 = m" "4 * m * 3 div 4 = 3 * m" by simp_all
  have at: "?a ! m - ?a ! 0 = int m * d" "?a ! (3 * m) - ?a ! 0 = 3 * int m * d"
    using assms(2) by simp_all
  have pos: "0 < int m * d" using assms by simp
  have len: "\<not> 4 * m < 4" using assms(2) by simp
  have nz: "3 * int m * d + int m * d \<noteq> 0" using pos by linarith
  have "rat_of_int (3 * int m * d - int m * d) / rat_of_int (3 * int m * d + int m * d) = 1 / 2"
    using assms by (simp add: field_simps)
  then show ?thesis
    unfolding QuartileCoeff_def sort Let_def length_map length_upt diff_zero ix at
    using len nz by simp
qed

section \<open>Strings\<close>

text \<open>\<open>parseInt(c, 16)\<close> of a character; \<open>NaN\<close> counts as 0 under \<open>^\<close>.\<close>

definition parse_hex :: "char \<Rightarrow> nat" where
  "parse_hex c = (case unhex c of None \<Rightarrow> 0 | Some n \<Rightarrow> n)"

definition xor_hex :: "char \<Rightarrow> char \<Rightarrow> char" where
  "xor_hex a b = hex_digit (Bit_Operations.semiring_bit_operations_class.xor (parse_hex a) (parse_hex b))"

fun xor_loop :: "string \<Rightarrow> string \<Rightarrow> string \<Rightarrow> string" where
  "xor_loop (a # as) (b # bs) r = xor_loop as bs (xor_hex a b # r)"
| "xor_loop as bs r = r"

definition stringXOR :: "string \<Rightarrow> string \<Rightarrow> string result" where
  "stringXOR a b =
     (if a = [] \<or> length a \<noteq> length b then Inl (Thrown ''Invalid string input'')
      else Inr (xor_loop a b []))"

fun diff_loop :: "string \<Rightarrow> string \<Rightarrow> int \<Rightarrow> int" where
  "diff_loop (a # as) (b # bs) r = diff_loop as bs (r + \<bar>of_char a - of_char b\<bar>)"
| "diff_loop as bs r = r"

definition stringDiff :: "string \<Rightarrow> string \<Rightarrow> int result" where
  "stringDiff a b =
     (if a = [] \<or> length a \<noteq> length b then Inl (Thrown ''Invalid string input'')
      else Inr (diff_loop a b 0))"

lemma diff_loop_sum: "diff_loop a b r = r + (\<Sum>(x, y) \<leftarrow> zip a b. \<bar>of_char x - of_char y\<bar>)"
  by (induction a b r rule: diff_loop.induct) auto

lemma diff_loop_zero_iff: "length a = length b \<Longrightarrow> diff_loop a b 0 = 0 \<longleftrightarrow> a = b"
proof (induction a b rule: list_induct2)
  case (Cons x xs y ys)
  have "0 \<le> diff_loop xs ys 0" by (auto simp: diff_loop_sum intro!: sum_list_nonneg)
  then show ?case using Cons
    by (simp add: diff_loop_sum add_nonneg_eq_0_iff)
qed simp

lemma diff_loop_sym: "length a = length b \<Longrightarrow> diff_loop a b 0 = diff_loop b a 0"
  by (induction a b rule: list_induct2) (simp_all add: diff_loop_sum abs_minus_commute)

lemma diff_loop_triangle:
  "length a = length b \<Longrightarrow> length b = length c \<Longrightarrow> diff_loop a c 0 \<le> diff_loop a b 0 + diff_loop b c 0"
  by (induction a b c rule: list_induct3) (simp_all add: diff_loop_sum)

lemma of_char_int_bounds: "0 \<le> (of_char c :: int)" "(of_char c :: int) \<le> 255"
proof -
  have "(of_char c :: int) = int (of_char c)" by (rule of_nat_of_char [symmetric])
  moreover have "(of_char c :: nat) < 256" by simp
  ultimately show "0 \<le> (of_char c :: int)" "(of_char c :: int) \<le> 255" by linarith+
qed

lemma diff_loop_bound: "length a = length b \<Longrightarrow> 0 \<le> diff_loop a b 0 \<and> diff_loop a b 0 \<le> 255 * int (length a)"
proof (induction a b rule: list_induct2)
  case (Cons x xs y ys)
  have "\<bar>of_char x - of_char y :: int\<bar> \<le> 255"
    using of_char_int_bounds [of x] of_char_int_bounds [of y] by linarith
  then show ?case using Cons by (simp add: diff_loop_sum)
qed simp

end
