(* ===== verification/Transactions.thy ===== *)
theory Transactions
  imports Util
begin

text \<open>
  \<open>src/chain/transaction.ts\<close>, \<open>src/chain/block.ts\<close>, the vote of
  \<open>src/net/message/confirm-block.ts\<close> and the signing part of \<open>src/chain/wallet.ts\<close>:
  the data of the chain, its JSON text, and the constructors of \<open>Transaction\<close> and
  \<open>Block\<close>. An object's JSON text lists its keys in the order of the type declarations.
  The lemmas give the round trip of blocks through JSON and show what a block's hash
  input determines.
\<close>

section \<open>Commands, transactions, votes, blocks\<close>

text \<open>
  \<open>seq\<close> is \<open>None\<close> where the object has no such key yet (\<open>Server.proposeModifyStake\<close>
  builds one). \<open>OtherCommand\<close> is an object whose \<open>command\<close> or fields fit no kind.
\<close>

datatype command =
    AddPeer "int option" string string string \<comment> \<open>seq, http, udp, publicKey\<close>
  | RemovePeer "int option" string \<comment> \<open>seq, publicKey\<close>
  | ModifyStake "int option" string string int \<comment> \<open>seq, publicKey, ident, stake\<close>
  | Data "int option" string string \<comment> \<open>seq, ns, d\<close>
  | Decision "int option" string int string \<comment> \<open>seq, ns, h, d\<close>
  | OtherCommand "int option" string \<comment> \<open>seq, command\<close>

record transaction =
  tx_ident :: string
  tx_origin :: string
  tx_commands :: "command list"
  tx_sig :: string

record vote =
  vote_origin :: string
  vote_sig :: string

record block =
  blk_version :: int
  blk_previousHash :: string
  blk_hash :: string
  blk_tx :: "transaction list"
  blk_height :: int
  blk_votes :: "vote list"

fun cmd_seq :: "command \<Rightarrow> int option" where
  "cmd_seq (AddPeer s h u k) = s"
| "cmd_seq (RemovePeer s k) = s"
| "cmd_seq (ModifyStake s k i n) = s"
| "cmd_seq (Data s n d) = s"
| "cmd_seq (Decision s n h d) = s"
| "cmd_seq (OtherCommand s c) = s"

fun set_seq :: "int \<Rightarrow> command \<Rightarrow> command" where
  "set_seq i (AddPeer s h u k) = AddPeer (Some i) h u k"
| "set_seq i (RemovePeer s k) = RemovePeer (Some i) k"
| "set_seq i (ModifyStake s k j n) = ModifyStake (Some i) k j n"
| "set_seq i (Data s n d) = Data (Some i) n d"
| "set_seq i (Decision s n h d) = Decision (Some i) n h d"
| "set_seq i (OtherCommand s c) = OtherCommand (Some i) c"

lemma cmd_seq_set_seq [simp]: "cmd_seq (set_seq i c) = Some i"
  by (cases c) simp_all

section \<open>JSON text\<close>

definition seq_field :: "int option \<Rightarrow> (string \<times> json) list" where
  "seq_field s = (case s of None \<Rightarrow> [] | Some i \<Rightarrow> [(''seq'', JNum i)])"

fun json_of_command :: "command \<Rightarrow> json" where
  "json_of_command (AddPeer s h u k) = JObj (seq_field s @
     [(''command'', JStr ''addPeer''), (''http'', JStr h), (''udp'', JStr u), (''publicKey'', JStr k)])"
| "json_of_command (RemovePeer s k) = JObj (seq_field s @
     [(''command'', JStr ''removePeer''), (''publicKey'', JStr k)])"
| "json_of_command (ModifyStake s k i n) = JObj (seq_field s @
     [(''command'', JStr ''modifyStake''), (''publicKey'', JStr k), (''ident'', JStr i), (''stake'', JNum n)])"
| "json_of_command (Data s n d) = JObj (seq_field s @
     [(''command'', JStr ''data''), (''ns'', JStr n), (''d'', JStr d)])"
| "json_of_command (Decision s n h d) = JObj (seq_field s @
     [(''command'', JStr ''decision''), (''ns'', JStr n), (''h'', JNum h), (''d'', JStr d)])"
| "json_of_command (OtherCommand s c) = JObj (seq_field s @ [(''command'', JStr c)])"

definition json_of_commands :: "command list \<Rightarrow> json" where
  "json_of_commands cs = JArr (map json_of_command cs)"

definition json_of_transaction :: "transaction \<Rightarrow> json" where
  "json_of_transaction t = JObj [(''ident'', JStr (tx_ident t)), (''origin'', JStr (tx_origin t)),
     (''commands'', json_of_commands (tx_commands t)), (''sig'', JStr (tx_sig t))]"

definition json_of_txs :: "transaction list \<Rightarrow> json" where
  "json_of_txs ts = JArr (map json_of_transaction ts)"

definition json_of_vote :: "vote \<Rightarrow> json" where
  "json_of_vote v = JObj [(''origin'', JStr (vote_origin v)), (''sig'', JStr (vote_sig v))]"

definition json_of_block :: "block \<Rightarrow> json" where
  "json_of_block b = JObj [(''version'', JNum (blk_version b)),
     (''previousHash'', JStr (blk_previousHash b)), (''hash'', JStr (blk_hash b)),
     (''tx'', json_of_txs (blk_tx b)), (''height'', JNum (blk_height b)),
     (''votes'', JArr (map json_of_vote (blk_votes b)))]"

text \<open>Reading back. Of a repeated key the last value counts.\<close>

fun field :: "string \<Rightarrow> json \<Rightarrow> json option" where
  "field k (JObj fs) = map_of (rev fs) k"
| "field k _ = None"

fun as_str :: "json \<Rightarrow> string option" where
  "as_str (JStr s) = Some s" | "as_str _ = None"

fun as_int :: "json \<Rightarrow> int option" where
  "as_int (JNum i) = Some i" | "as_int _ = None"

fun as_list :: "(json \<Rightarrow> 'a option) \<Rightarrow> json \<Rightarrow> 'a list option" where
  "as_list f (JArr xs) = those (map f xs)" | "as_list f _ = None"

definition str_field :: "string \<Rightarrow> json \<Rightarrow> string option" where
  "str_field k j = Option.bind (field k j) as_str"

definition int_field :: "string \<Rightarrow> json \<Rightarrow> int option" where
  "int_field k j = Option.bind (field k j) as_int"

definition command_name :: "json \<Rightarrow> string" where
  "command_name j = (case str_field ''command'' j of None \<Rightarrow> [] | Some c \<Rightarrow> c)"

definition command_of_json :: "json \<Rightarrow> command option" where
  "command_of_json j =
     (let s = int_field ''seq'' j; c = command_name j; k = str_field ''publicKey'' j;
          n = str_field ''ns'' j; d = str_field ''d'' j
      in case j of
           JObj _ \<Rightarrow> Some
             (if c = ''addPeer'' then
                (case (str_field ''http'' j, str_field ''udp'' j, k) of
                   (Some h, Some u, Some k) \<Rightarrow> AddPeer s h u k | _ \<Rightarrow> OtherCommand s c)
              else if c = ''removePeer'' then
                (case k of Some k \<Rightarrow> RemovePeer s k | _ \<Rightarrow> OtherCommand s c)
              else if c = ''modifyStake'' then
                (case (k, str_field ''ident'' j, int_field ''stake'' j) of
                   (Some k, Some i, Some m) \<Rightarrow> ModifyStake s k i m | _ \<Rightarrow> OtherCommand s c)
              else if c = ''data'' then
                (case (n, d) of (Some n, Some d) \<Rightarrow> Data s n d | _ \<Rightarrow> OtherCommand s c)
              else if c = ''decision'' then
                (case (n, int_field ''h'' j, d) of
                   (Some n, Some h, Some d) \<Rightarrow> Decision s n h d | _ \<Rightarrow> OtherCommand s c)
              else OtherCommand s c)
         | _ \<Rightarrow> None)"

definition transaction_of_json :: "json \<Rightarrow> transaction option" where
  "transaction_of_json j =
     (case (str_field ''ident'' j, str_field ''origin'' j,
            Option.bind (field ''commands'' j) (as_list command_of_json), str_field ''sig'' j) of
        (Some i, Some r, Some cs, Some s) \<Rightarrow>
          Some \<lparr>tx_ident = i, tx_origin = r, tx_commands = cs, tx_sig = s\<rparr>
      | _ \<Rightarrow> None)"

definition vote_of_json :: "json \<Rightarrow> vote option" where
  "vote_of_json j =
     (case (str_field ''origin'' j, str_field ''sig'' j) of
        (Some r, Some s) \<Rightarrow> Some \<lparr>vote_origin = r, vote_sig = s\<rparr> | _ \<Rightarrow> None)"

definition block_of_json :: "json \<Rightarrow> block option" where
  "block_of_json j =
     (case (int_field ''version'' j, str_field ''previousHash'' j, str_field ''hash'' j,
            Option.bind (field ''tx'' j) (as_list transaction_of_json), int_field ''height'' j,
            Option.bind (field ''votes'' j) (as_list vote_of_json)) of
        (Some v, Some p, Some h, Some ts, Some n, Some vs) \<Rightarrow>
          Some \<lparr>blk_version = v, blk_previousHash = p, blk_hash = h, blk_tx = ts,
                blk_height = n, blk_votes = vs\<rparr>
      | _ \<Rightarrow> None)"

lemma those_map_Some: "(\<And>x. x \<in> set xs \<Longrightarrow> f (g x) = Some x) \<Longrightarrow> those (map f (map g xs)) = Some xs"
  by (induction xs) simp_all

lemmas field_defs = str_field_def int_field_def command_name_def seq_field_def

lemma command_of_json_of [simp]: "command_of_json (json_of_command c) = Some c"
proof (cases c)
  case (OtherCommand s n)
  then show ?thesis
    by (cases s) (simp_all add: command_of_json_def field_defs Let_def)
qed (auto simp: command_of_json_def field_defs Let_def split: option.splits)

lemma transaction_of_json_of [simp]: "transaction_of_json (json_of_transaction t) = Some t"
  by (simp add: transaction_of_json_def json_of_transaction_def json_of_commands_def field_defs
      those_map_Some del: map_map)

lemma vote_of_json_of [simp]: "vote_of_json (json_of_vote v) = Some v"
  by (simp add: vote_of_json_def json_of_vote_def field_defs)

lemma block_of_json_of [simp]: "block_of_json (json_of_block b) = Some b"
  by (simp add: block_of_json_def json_of_block_def json_of_txs_def field_defs
      those_map_Some del: map_map)

lemma json_of_command_inject [simp]: "json_of_command c = json_of_command c' \<longleftrightarrow> c = c'"
  by (metis command_of_json_of option.inject)

lemma json_of_transaction_inject [simp]: "json_of_transaction t = json_of_transaction t' \<longleftrightarrow> t = t'"
  by (metis transaction_of_json_of option.inject)

lemma json_of_txs_inject [simp]: "json_of_txs ts = json_of_txs ts' \<longleftrightarrow> ts = ts'"
  by (simp add: json_of_txs_def inj_map_eq_map inj_on_def)

lemma json_of_commands_inject [simp]: "json_of_commands cs = json_of_commands cs' \<longleftrightarrow> cs = cs'"
  by (simp add: json_of_commands_def inj_map_eq_map inj_on_def)

text \<open>The text a block is stored as, and reading it back.\<close>

definition block_text :: "block \<Rightarrow> string" where
  "block_text b = stringify (json_of_block b)"

definition block_of_text :: "string \<Rightarrow> block result" where
  "block_of_text s =
     bindr (json_parse s) (\<lambda>j. case block_of_json j of None \<Rightarrow> Inl TypeError | Some b \<Rightarrow> Inr b)"

lemma block_of_text_of [simp]: "block_of_text (block_text b) = Inr b"
  by (simp add: block_of_text_def block_text_def)

section \<open>Wallet, transactions and blocks made by this node\<close>

record wallet =
  wallet_public :: string \<comment> \<open>the raw public key\<close>
  wallet_secret :: string \<comment> \<open>the raw secret key\<close>

definition getPublicKey :: "crypto \<Rightarrow> wallet \<Rightarrow> string" where
  "getPublicKey C w = b64_stringify C False (wallet_public w)"

definition wallet_sign :: "crypto \<Rightarrow> wallet \<Rightarrow> string \<Rightarrow> string" where
  "wallet_sign C w data = b64_stringify C False (sign_detached C data (wallet_secret w))"

text \<open>What sodium and the codec promise of a key pair: signatures verify.\<close>

definition sign_ok :: "crypto \<Rightarrow> wallet \<Rightarrow> bool" where
  "sign_ok C w \<longleftrightarrow>
     b64_parse C True (getPublicKey C w) = Some (wallet_public w) \<and>
     (\<forall>d. b64_parse C True (wallet_sign C w d) = Some (sign_detached C d (wallet_secret w)) \<and>
          verify_detached C (sign_detached C d (wallet_secret w)) d (wallet_public w) = Some True)"

lemma verify_own: "sign_ok C w \<Longrightarrow> verifySignature C (getPublicKey C w) (wallet_sign C w d) d"
  by (simp add: sign_ok_def verifySignature_def)

definition signed_data :: "int \<Rightarrow> command list \<Rightarrow> string" where
  "signed_data height commands = dec_of_int height @ stringify (json_of_commands commands)"

definition Transaction_make :: "crypto \<Rightarrow> wallet \<Rightarrow> int \<Rightarrow> string \<Rightarrow> command list \<Rightarrow> transaction" where
  "Transaction_make C w height ident commands =
     \<lparr>tx_ident = ident, tx_origin = getPublicKey C w, tx_commands = commands,
      tx_sig = wallet_sign C w (signed_data height commands)\<rparr>"

definition block_hash_input :: "int \<Rightarrow> string \<Rightarrow> transaction list \<Rightarrow> int \<Rightarrow> string" where
  "block_hash_input version previousHash tx height =
     join '','' [dec_of_int version, previousHash, stringify (json_of_txs tx), dec_of_int height]"

definition Block_make :: "crypto \<Rightarrow> block \<Rightarrow> transaction list \<Rightarrow> block" where
  "Block_make C previousBlock tx =
     (let height = blk_height previousBlock + 1
      in \<lparr>blk_version = BLOCK_VERSION, blk_previousHash = blk_hash previousBlock,
          blk_hash = Util_hash C (block_hash_input BLOCK_VERSION (blk_hash previousBlock) tx height),
          blk_tx = tx, blk_height = height, blk_votes = []\<rparr>)"

text \<open>
  The four parts of the hash input can be told apart, although the JSON text of the
  transactions holds commas itself: the first two parts and the last hold none.
\<close>

lemma append_sep_last_inject:
  assumes "xs @ c # ys = xs' @ c # ys'" and "c \<notin> set ys" and "c \<notin> set ys'"
  shows "xs = xs' \<and> ys = ys'"
proof -
  have "rev ys @ c # rev xs = rev ys' @ c # rev xs'"
    using arg_cong [OF assms(1), of rev] by simp
  then show ?thesis using append_sep_inject [of "rev ys" c "rev xs" "rev ys'" "rev xs'"] assms(2,3)
    by simp
qed

lemma block_hash_input_inject:
  assumes "block_hash_input v p ts h = block_hash_input v' p' ts' h'"
    and "CHR '','' \<notin> set p" and "CHR '','' \<notin> set p'"
  shows "v = v' \<and> p = p' \<and> ts = ts' \<and> h = h'"
proof -
  let ?t = "stringify (json_of_txs ts)" and ?t' = "stringify (json_of_txs ts')"
  have "dec_of_int v @ CHR '','' # p @ CHR '','' # ?t @ CHR '','' # dec_of_int h
      = dec_of_int v' @ CHR '','' # p' @ CHR '','' # ?t' @ CHR '','' # dec_of_int h'"
    using assms(1) by (simp add: block_hash_input_def)
  from append_sep_inject [OF this] have v: "v = v'"
    and "p @ CHR '','' # ?t @ CHR '','' # dec_of_int h = p' @ CHR '','' # ?t' @ CHR '','' # dec_of_int h'"
    by simp_all
  from append_sep_inject [OF this(2) assms(2,3)] have p: "p = p'"
    and "?t @ CHR '','' # dec_of_int h = ?t' @ CHR '','' # dec_of_int h'"
    by simp_all
  from append_sep_last_inject [OF this(2)] show ?thesis using v p by simp
qed

end
