(* ===== verification/Js_Number.thy ===== *)
theory Js_Number
  imports Complex_Main Prelude
begin

text \<open>
  Numbers as JavaScript has them where a text from outside becomes one: \<open>Number(s)\<close>,
  comparison, \<open>Math.floor\<close>, and the test for truth. A finite number is an exact rational:
  the rounding to a double is left out, the overflow to \<open>Infinity\<close> is not. Also
  \<open>path.join\<close> and \<open>path.dirname\<close> of the POSIX \<open>path\<close> module.
\<close>

section \<open>Numbers\<close>

datatype jsnum = NaN | NegInf | PosInf | Fin rat

fun num_le :: "jsnum \<Rightarrow> jsnum \<Rightarrow> bool" where
  "num_le NaN y = False"
| "num_le x NaN = False"
| "num_le NegInf y = True"
| "num_le x NegInf = False"
| "num_le x PosInf = True"
| "num_le PosInf y = False"
| "num_le (Fin p) (Fin q) = (p \<le> q)"

definition num_less :: "jsnum \<Rightarrow> jsnum \<Rightarrow> bool" where
  "num_less x y \<longleftrightarrow> num_le x y \<and> \<not> num_le y x"

abbreviation num :: "int \<Rightarrow> jsnum" where
  "num i \<equiv> Fin (of_int i)"

fun num_floor :: "jsnum \<Rightarrow> jsnum" where
  "num_floor (Fin q) = num \<lfloor>q\<rfloor>"
| "num_floor x = x"

fun num_truthy :: "jsnum \<Rightarrow> bool" where
  "num_truthy NaN = False"
| "num_truthy (Fin q) = (q \<noteq> 0)"
| "num_truthy x = True"

definition num_or :: "jsnum \<Rightarrow> jsnum \<Rightarrow> jsnum" where \<comment> \<open>\<open>x || y\<close>\<close>
  "num_or x y = (if num_truthy x then x else y)"

text \<open>The integer part of a finite number.\<close>

fun num_int :: "jsnum \<Rightarrow> int" where
  "num_int (Fin q) = \<lfloor>q\<rfloor>"
| "num_int x = 0"

fun num_add :: "jsnum \<Rightarrow> jsnum \<Rightarrow> jsnum" where
  "num_add NaN y = NaN"
| "num_add x NaN = NaN"
| "num_add (Fin p) (Fin q) = Fin (p + q)"
| "num_add PosInf NegInf = NaN"
| "num_add NegInf PosInf = NaN"
| "num_add (Fin p) y = y"
| "num_add x y = x"

text \<open>\<open>String(n)\<close>; of a number that is no integer the integer part is printed.\<close>

fun num_str :: "jsnum \<Rightarrow> string" where
  "num_str NaN = ''NaN''"
| "num_str PosInf = ''Infinity''"
| "num_str NegInf = ''-Infinity''"
| "num_str (Fin q) = dec_of_int \<lfloor>q\<rfloor>"

section \<open>Number of a text\<close>

definition radix_digit :: "char \<Rightarrow> nat option" where
  "radix_digit c =
     (let n = of_char c :: nat
      in if 48 \<le> n \<and> n \<le> 57 then Some (n - 48)
         else if 97 \<le> n \<and> n \<le> 102 then Some (n - 87)
         else if 65 \<le> n \<and> n \<le> 70 then Some (n - 55) else None)"

fun radix_nat :: "nat \<Rightarrow> nat \<Rightarrow> string \<Rightarrow> nat option" where
  "radix_nat b a [] = Some a"
| "radix_nat b a (c # s) =
     (case radix_digit c of None \<Rightarrow> None | Some d \<Rightarrow> if d < b then radix_nat b (b * a + d) s else None)"

definition to_double :: "rat \<Rightarrow> jsnum" where
  "to_double q = (if 2 ^ 1024 - 2 ^ 970 \<le> q then PosInf else if q \<le> - (2 ^ 1024 - 2 ^ 970) then NegInf else Fin q)"

fun num_neg :: "jsnum \<Rightarrow> jsnum" where
  "num_neg PosInf = NegInf"
| "num_neg NegInf = PosInf"
| "num_neg (Fin q) = Fin (- q)"
| "num_neg NaN = NaN"

definition exponent_of :: "string \<Rightarrow> int option" where
  "exponent_of s =
     (case s of
        [] \<Rightarrow> Some 0
      | c # e \<Rightarrow>
          if c \<noteq> CHR ''e'' \<and> c \<noteq> CHR ''E'' then None
          else
            let neg = e \<noteq> [] \<and> hd e = CHR ''-'';
                e = (if e \<noteq> [] \<and> (hd e = CHR ''-'' \<or> hd e = CHR ''+'') then tl e else e)
            in if e = [] \<or> \<not> list_all is_digit e then None
               else Some (if neg then - int (nat_of_dec e) else int (nat_of_dec e)))"

definition unsigned_decimal :: "string \<Rightarrow> jsnum" where
  "unsigned_decimal s =
     (if s = ''Infinity'' then PosInf
      else
        let ip = takeWhile is_digit s; r = dropWhile is_digit s;
            dot = r \<noteq> [] \<and> hd r = CHR ''.'';
            fp = (if dot then takeWhile is_digit (tl r) else []);
            r = (if dot then dropWhile is_digit (tl r) else r)
        in if ip = [] \<and> fp = [] then NaN
           else case exponent_of r of
                  None \<Rightarrow> NaN
                | Some e \<Rightarrow>
                    let m = of_nat (nat_of_dec (ip @ fp)) / 10 ^ length fp
                    in to_double (if 0 \<le> e then m * 10 ^ nat e else m / 10 ^ nat (- e)))"

fun radix_of :: "string \<Rightarrow> nat" where
  "radix_of (z # x # d # ds) =
     (if z \<noteq> CHR ''0'' then 0
      else if x = CHR ''x'' \<or> x = CHR ''X'' then 16
      else if x = CHR ''o'' \<or> x = CHR ''O'' then 8
      else if x = CHR ''b'' \<or> x = CHR ''B'' then 2 else 0)"
| "radix_of s = 0"

definition Number_of :: "string \<Rightarrow> jsnum" where
  "Number_of s =
     (let t = trim s; b = radix_of t
      in if t = [] then Fin 0
         else if b \<noteq> 0 then (case radix_nat b 0 (drop 2 t) of None \<Rightarrow> NaN | Some n \<Rightarrow> to_double (of_nat n))
         else if hd t = CHR ''-'' then num_neg (unsigned_decimal (tl t))
         else if hd t = CHR ''+'' then unsigned_decimal (tl t)
         else unsigned_decimal t)"

text \<open>\<open>Number(s || d)\<close> for an optional text and a number \<open>d\<close>.\<close>

definition Number_or :: "string option \<Rightarrow> int \<Rightarrow> jsnum" where
  "Number_or s d = (case s of None \<Rightarrow> num d | Some t \<Rightarrow> if t = [] then num d else Number_of t)"

lemma num_le_Fin [simp]: "num_le (num i) (num j) \<longleftrightarrow> i \<le> j"
  by simp

lemma num_less_Fin [simp]: "num_less (num i) (num j) \<longleftrightarrow> i < j"
  by (auto simp: num_less_def)

section \<open>Numbers of decimal texts\<close>

lemma is_digit_not_space: "is_digit c \<Longrightarrow> \<not> is_space c"
  by (auto simp: is_digit_def is_space_def)

lemma takeWhile_digits: "list_all is_digit s \<Longrightarrow> takeWhile is_digit s = s \<and> dropWhile is_digit s = []"
  by (induction s) auto

lemma unsigned_decimal_digits:
  assumes "list_all is_digit s" and "s \<noteq> []"
  shows "unsigned_decimal s = to_double (of_nat (nat_of_dec s))"
proof -
  have "s \<noteq> ''Infinity''" using assms(1) by (auto simp: is_digit_def)
  moreover have tw: "takeWhile is_digit s = s" "dropWhile is_digit s = []"
    using takeWhile_digits [OF assms(1)] by simp_all
  ultimately show ?thesis using assms(2)
    unfolding unsigned_decimal_def tw by (simp add: exponent_of_def Let_def)
qed

lemma trim_no_space:
  assumes "\<forall>c \<in> set s. \<not> is_space c"
  shows "trim s = s"
proof -
  have "dropWhile is_space t = t" if "set t = set s" for t
    using assms that by (cases t) auto
  then show ?thesis by (simp add: trim_def)
qed

text \<open>\<open>Number(String(n))\<close> is \<open>n\<close>, below the range where doubles overflow.\<close>

lemma Number_of_nat:
  assumes "(of_nat n :: rat) < 2 ^ 1024 - 2 ^ 970"
  shows "Number_of (dec_of_nat n) = num (int n)"
proof -
  let ?s = "dec_of_nat n"
  have d: "list_all is_digit ?s" by (rule digits_dec_of_nat)
  then have t: "trim ?s = ?s"
    by (intro trim_no_space) (auto simp: list_all_iff dest: is_digit_not_space)
  have u: "unsigned_decimal ?s = num (int n)"
    using unsigned_decimal_digits [OF d] assms by (simp add: to_double_def not_le)
  have no: "c \<noteq> CHR ''x'' \<and> c \<noteq> CHR ''X'' \<and> c \<noteq> CHR ''o'' \<and> c \<noteq> CHR ''O'' \<and> c \<noteq> CHR ''b'' \<and> c \<noteq> CHR ''B''
      \<and> c \<noteq> CHR ''-'' \<and> c \<noteq> CHR ''+''" if "c \<in> set ?s" for c
    using d that by (auto simp: list_all_iff is_digit_def)
  have "hd ?s \<in> set ?s" by simp
  moreover have "radix_of ?s = 0" using no by (cases ?s rule: radix_of.cases) auto
  ultimately show ?thesis using no [of "hd ?s"] u by (simp add: Number_of_def t Let_def)
qed

section \<open>Paths\<close>

fun norm_segments :: "bool \<Rightarrow> string list \<Rightarrow> string list \<Rightarrow> string list" where
  "norm_segments rooted acc [] = rev acc"
| "norm_segments rooted acc (s # ss) =
     (if s = [] \<or> s = ''.'' then norm_segments rooted acc ss
      else if s = ''..'' then
        (if acc \<noteq> [] \<and> hd acc \<noteq> ''..'' then norm_segments rooted (tl acc) ss
         else if rooted then norm_segments rooted acc ss
         else norm_segments rooted (s # acc) ss)
      else norm_segments rooted (s # acc) ss)"

fun segments :: "string \<Rightarrow> string \<Rightarrow> string list" where
  "segments acc [] = [rev acc]"
| "segments acc (c # s) = (if c = CHR ''/'' then rev acc # segments [] s else segments (c # acc) s)"

definition path_normalize :: "string \<Rightarrow> string" where
  "path_normalize p =
     (if p = [] then ''.''
      else
        let rooted = hd p = CHR ''/'';
            q = join ''/'' (norm_segments rooted [] (segments [] p));
            q = (if q = [] \<and> \<not> rooted then ''.'' else q);
            q = (if q \<noteq> [] \<and> last p = CHR ''/'' then q @ ''/'' else q)
        in if rooted then CHR ''/'' # q else q)"

definition path_join :: "string list \<Rightarrow> string" where
  "path_join ps = path_normalize (join ''/'' (filter (\<lambda>p. p \<noteq> []) ps))"

definition path_dirname :: "string \<Rightarrow> string" where
  "path_dirname p =
     (let strip = \<lambda>s. dropWhile (\<lambda>c. c = CHR ''/'') s;
          r = strip (rev p);
          d = rev (strip (dropWhile (\<lambda>c. c \<noteq> CHR ''/'') r))
      in if p = [] then ''.''
         else if d \<noteq> [] then d
         else if hd p = CHR ''/'' then ''/'' else ''.'')"

text \<open>Joining a directory and a plain file name keeps the name at the end.\<close>

definition plain_name :: "string \<Rightarrow> bool" where
  "plain_name f \<longleftrightarrow> f \<noteq> [] \<and> f \<noteq> ''.'' \<and> f \<noteq> ''..'' \<and> CHR ''/'' \<notin> set f"

lemma segments_append: "segments acc (p @ CHR ''/'' # f) = segments acc p @ segments [] f"
  by (induction acc p rule: segments.induct) simp_all

lemma segments_plain: "CHR ''/'' \<notin> set f \<Longrightarrow> segments acc f = [rev acc @ f]"
  by (induction f arbitrary: acc) auto

lemma norm_segments_snoc: "plain_name f \<Longrightarrow> norm_segments r acc (ss @ [f]) = norm_segments r acc ss @ [f]"
  by (induction r acc ss rule: norm_segments.induct) (auto simp: plain_name_def)

lemma join_snoc: "join sep (xs @ [f]) = (if xs = [] then f else join sep xs @ sep @ f)"
  by (induction sep xs rule: join.induct) simp_all

lemma path_join_name:
  assumes "plain_name f" and "plain_name g"
  shows "path_join [p, f] = path_join [p, g] \<longleftrightarrow> f = g"
proof -
  have e: "\<exists>d. \<forall>h. plain_name h \<longrightarrow> path_join [p, h] = d @ h"
  proof (cases "p = []")
    case True
    have "path_join [p, h] = h" if "plain_name h" for h
    proof -
      have "h \<noteq> []" "CHR ''/'' \<notin> set h" using that by (simp_all add: plain_name_def)
      moreover from this have "hd h \<noteq> CHR ''/''" "last h \<noteq> CHR ''/''" using hd_in_set last_in_set by metis+
      ultimately show ?thesis using True norm_segments_snoc [OF that, of False "[]" "[]"]
        by (simp add: path_join_def path_normalize_def Let_def segments_plain)
    qed
    then show ?thesis by (intro exI [of _ "[]"]) simp
  next
    case False
    let ?r = "hd p = CHR ''/''"
    obtain xs where xs: "norm_segments ?r [] (segments [] p) = xs" by simp
    let ?d = "(if ?r then ''/'' else []) @ (if xs = [] then [] else join ''/'' xs @ ''/'')"
    have "path_join [p, h] = ?d @ h" if "plain_name h" for h
    proof -
      have h: "h \<noteq> []" "CHR ''/'' \<notin> set h" using that by (simp_all add: plain_name_def)
      then have l: "last h \<noteq> CHR ''/''" using last_in_set by metis
      have n: "norm_segments ?r [] (segments [] (p @ CHR ''/'' # h)) = xs @ [h]"
        using norm_segments_snoc [OF that, of ?r "[]" "segments [] p"] h xs
        by (simp add: segments_append segments_plain)
      have "path_join [p, h] = path_normalize (p @ CHR ''/'' # h)" using h False by (simp add: path_join_def)
      moreover have "hd (p @ CHR ''/'' # h) = hd p" using False by simp
      ultimately show ?thesis using h l
        unfolding path_normalize_def Let_def by (simp only: n) (simp add: join_snoc)
    qed
    then show ?thesis by (intro exI [of _ ?d]) simp
  qed
  then obtain d where "\<forall>h. plain_name h \<longrightarrow> path_join [p, h] = d @ h" by blast
  then show ?thesis using assms by simp
qed

text \<open>\<open>/suffix$/.test(s)\<close>\<close>

definition ends_with :: "string \<Rightarrow> string \<Rightarrow> bool" where
  "ends_with suffix s \<longleftrightarrow> is_prefix (rev suffix) (rev s)"

end
