(* ===== verification/Wallet_Files.thy ===== *)
theory Wallet_Files
  imports Transactions Js_Number
begin

text \<open>
  The process around the node, as far as the start of a node uses it: files, environment
  variables, random draws; and the part of \<open>src/chain/wallet.ts\<close> that keeps the keys and
  the API token in files. The lemmas show that a wallet keeps its keys over restarts.
\<close>

section \<open>Files, environment, random values\<close>

text \<open>
  \<open>draws\<close> counts the random values taken so far; the parameters of \<open>platform\<close> say what the
  \<open>n\<close>-th one is. \<open>pf_pkg\<close> is the path of a packaged executable. Writing a file does not fail.
\<close>

record world =
  files :: "string \<Rightarrow> string option"
  dirs :: "string \<Rightarrow> bool"
  environ :: "string \<Rightarrow> string option"
  draws :: nat

record platform =
  pf_toB32 :: "string \<Rightarrow> string"
  pf_nanoid :: "nat \<Rightarrow> nat \<Rightarrow> string" \<comment> \<open>length, draw\<close>
  pf_keypair :: "nat \<Rightarrow> wallet"
  pf_destination :: "nat \<Rightarrow> string \<times> string \<times> string" \<comment> \<open>address, public, private\<close>
  pf_dirname :: string
  pf_pkg :: "string option"
  pf_package_version :: string

definition existsSync :: "string \<Rightarrow> world \<Rightarrow> bool" where
  "existsSync p w \<longleftrightarrow> dirs w p \<or> files w p \<noteq> None"

definition readFileSync :: "string \<Rightarrow> world \<Rightarrow> string result" where
  "readFileSync p w = (case files w p of None \<Rightarrow> Inl (Thrown ''ENOENT'') | Some t \<Rightarrow> Inr t)"

definition writeFileSync :: "string \<Rightarrow> string \<Rightarrow> world \<Rightarrow> world" where
  "writeFileSync p t w = w\<lparr>files := (files w)(p \<mapsto> t)\<rparr>"

definition draw :: "world \<Rightarrow> nat \<times> world" where
  "draw w = (draws w, w\<lparr>draws := draws w + 1\<rparr>)"

lemma files_write [simp]: "files (writeFileSync p t w) q = (if q = p then Some t else files w q)"
  by (simp add: writeFileSync_def)

lemma read_write [simp]: "readFileSync p (writeFileSync q t w) = (if p = q then Inr t else readFileSync p w)"
  by (simp add: readFileSync_def)

section \<open>The wallet\<close>

definition NAME_HEADER_TOKEN_API :: string where
  "NAME_HEADER_TOKEN_API = ''diva-token-api''"

definition DEFAULT_LENGTH_TOKEN_API :: nat where
  "DEFAULT_LENGTH_TOKEN_API = 32"

record wallet_object =
  wo_path_keys :: string
  wo_http :: string
  wo_ident :: string
  wo_keys :: wallet
  wo_tokenAPI :: string

text \<open>\<open>Buffer.alloc(n)\<close> and \<open>buffer.fill(value)\<close> for a buffer of \<open>n\<close> bytes.\<close>

definition buffer_alloc :: "nat \<Rightarrow> string" where
  "buffer_alloc n = replicate n (CHR 0x00)"

definition buffer_fill :: "nat \<Rightarrow> string \<Rightarrow> string" where
  "buffer_fill n v = (if v = [] then buffer_alloc n else take n (concat (replicate n v)))"

definition PUBLICKEYBYTES :: nat where "PUBLICKEYBYTES = 32"
definition SECRETKEYBYTES :: nat where "SECRETKEYBYTES = 64"

text \<open>\<open>createTokenAPI\<close>; the timer that calls it again every few minutes is another call.\<close>

definition createTokenAPI :: "platform \<Rightarrow> wallet_object \<times> world \<Rightarrow> (wallet_object \<times> world) result" where
  "createTokenAPI P s =
     (case s of (o1, w) \<Rightarrow>
        let p = path_join [wo_path_keys o1, pf_toB32 P (wo_http o1) @ ''.token''];
            (n, w) = draw w;
            w = writeFileSync p (pf_nanoid P DEFAULT_LENGTH_TOKEN_API n) w
        in bindr (readFileSync p w) (\<lambda>t. Inr (o1\<lparr>wo_tokenAPI := t\<rparr>, w)))"

definition Wallet_make :: "platform \<Rightarrow> string \<Rightarrow> string \<Rightarrow> world \<Rightarrow> (wallet_object \<times> world) result" where
  "Wallet_make P path_keys http w =
     createTokenAPI P
       (\<lparr>wo_path_keys = path_keys, wo_http = http, wo_ident = [],
         wo_keys = \<lparr>wallet_public = buffer_alloc PUBLICKEYBYTES, wallet_secret = buffer_alloc SECRETKEYBYTES\<rparr>,
         wo_tokenAPI = []\<rparr>, w)"

definition Wallet_open :: "platform \<Rightarrow> wallet_object \<times> world \<Rightarrow> (wallet_object \<times> world) result" where
  "Wallet_open P s =
     (case s of (o1, w) \<Rightarrow>
        let o1 = o1\<lparr>wo_ident := pf_toB32 P (wo_http o1) @ ''.wallet''\<rparr>;
            pathPublic = path_join [wo_path_keys o1, wo_ident o1 @ ''.public''];
            pathSecret = path_join [wo_path_keys o1, wo_ident o1 @ ''.private'']
        in if existsSync pathPublic w \<and> existsSync pathSecret w then
             bindr (readFileSync pathPublic w) (\<lambda>pk.
               bindr (readFileSync pathSecret w) (\<lambda>sk.
                 Inr (o1\<lparr>wo_keys := \<lparr>wallet_public = buffer_fill PUBLICKEYBYTES pk,
                                      wallet_secret = buffer_fill SECRETKEYBYTES sk\<rparr>\<rparr>, w)))
           else
             let (n, w) = draw w;
                 k = pf_keypair P n;
                 w = writeFileSync pathPublic (wallet_public k) w;
                 w = writeFileSync pathSecret (wallet_secret k) w
             in Inr (o1\<lparr>wo_keys := k\<rparr>, w))"

text \<open>\<open>getPublicKey\<close> opens the wallet first, if it is not open yet.\<close>

definition Wallet_getPublicKey :: "platform \<Rightarrow> crypto \<Rightarrow> wallet_object \<times> world \<Rightarrow> (string \<times> wallet_object \<times> world) result" where
  "Wallet_getPublicKey P C s =
     bindr (if wo_ident (fst s) = [] then Wallet_open P s else Inr s)
       (\<lambda>(o1, w). Inr (getPublicKey C (wo_keys o1), o1, w))"

section \<open>Lemmas\<close>

text \<open>What sodium promises about key pairs.\<close>

definition keypair_ok :: "platform \<Rightarrow> bool" where
  "keypair_ok P \<longleftrightarrow> (\<forall>n. length (wallet_public (pf_keypair P n)) = PUBLICKEYBYTES \<and>
     length (wallet_secret (pf_keypair P n)) = SECRETKEYBYTES)"

lemma buffer_fill_exact: "length v = n \<Longrightarrow> buffer_fill n v = v"
proof -
  assume n: "length v = n"
  show ?thesis
  proof (cases n)
    case 0
    then show ?thesis using n by (simp add: buffer_fill_def buffer_alloc_def)
  next
    case (Suc k)
    then have "concat (replicate n v) = v @ concat (replicate k v)" by simp
    then show ?thesis using n Suc by (auto simp: buffer_fill_def)
  qed
qed

lemma length_buffer_fill: "length (buffer_fill n v) = n"
proof (cases v)
  case (Cons c cs)
  have "n \<le> length (concat (replicate n v))" by (simp add: length_concat sum_list_replicate Cons)
  then show ?thesis by (simp add: buffer_fill_def Cons)
qed (simp add: buffer_fill_def buffer_alloc_def)

lemma createTokenAPI_eq:
  "createTokenAPI P (o1, w) =
     Inr (o1\<lparr>wo_tokenAPI := pf_nanoid P DEFAULT_LENGTH_TOKEN_API (draws w)\<rparr>,
          writeFileSync (path_join [wo_path_keys o1, pf_toB32 P (wo_http o1) @ ''.token''])
            (pf_nanoid P DEFAULT_LENGTH_TOKEN_API (draws w)) (w\<lparr>draws := draws w + 1\<rparr>))"
  by (simp add: createTokenAPI_def draw_def Let_def)

lemma Wallet_names:
  assumes "plain_name b"
  shows "plain_name (b @ ''.token'')" "plain_name ((b @ ''.wallet'') @ ''.public'')"
    "plain_name ((b @ ''.wallet'') @ ''.private'')"
  using assms by (auto simp: plain_name_def append_eq_Cons_conv)

lemma Wallet_open_Inr:
  assumes "\<not> dirs w (path_join [wo_path_keys o1, (pf_toB32 P (wo_http o1) @ ''.wallet'') @ ''.public''])"
    and "\<not> dirs w (path_join [wo_path_keys o1, (pf_toB32 P (wo_http o1) @ ''.wallet'') @ ''.private''])"
  shows "\<exists>o2 w2. Wallet_open P (o1, w) = Inr (o2, w2)"
  using assms by (fastforce simp: Wallet_open_def Let_def existsSync_def readFileSync_def draw_def)

section \<open>Property\<close>

text \<open>A node keeps its identity: a wallet that is made and opened on the files an earlier wallet left behind,
  with the same configuration, has the keys of the earlier one and draws no new pair, although the API token in
  between is a new one.\<close>

theorem wallet_keeps_keys:
  assumes k: "keypair_ok P" and b: "plain_name (pf_toB32 P http)"
    and m1: "Wallet_make P dir http w = Inr (o1, w1)" and open1: "Wallet_open P (o1, w1) = Inr (o2, w2)"
    and m2: "Wallet_make P dir http w2 = Inr (o3, w3)"
  shows "\<exists>o4. Wallet_open P (o3, w3) = Inr (o4, w3) \<and> wo_keys o4 = wo_keys o2 \<and>
    wo_tokenAPI o4 = pf_nanoid P DEFAULT_LENGTH_TOKEN_API (draws w2)"
proof -
  let ?b = "pf_toB32 P http"
  let ?t = "path_join [dir, ?b @ ''.token'']" and ?pp = "path_join [dir, (?b @ ''.wallet'') @ ''.public'']"
    and ?ps = "path_join [dir, (?b @ ''.wallet'') @ ''.private'']"
  have ne: "?t \<noteq> ?pp" "?t \<noteq> ?ps" "?pp \<noteq> ?ps"
    using Wallet_names [OF b] by (simp_all only: path_join_name) simp_all
  have o: "wo_path_keys o1 = dir" "wo_http o1 = http" "wo_path_keys o3 = dir" "wo_http o3 = http"
    "wo_tokenAPI o3 = pf_nanoid P DEFAULT_LENGTH_TOKEN_API (draws w2)"
    "files w3 = (files w2)(?t \<mapsto> pf_nanoid P DEFAULT_LENGTH_TOKEN_API (draws w2))"
    using m1 m2 by (auto simp: Wallet_make_def createTokenAPI_eq writeFileSync_def)
  have keep: "files w3 ?pp = files w2 ?pp" "files w3 ?ps = files w2 ?ps" using ne by (simp_all add: o)
  have l: "length (wallet_public (pf_keypair P n)) = PUBLICKEYBYTES"
    "length (wallet_secret (pf_keypair P n)) = SECRETKEYBYTES" for n
    using k by (simp_all add: keypair_ok_def)
  have "\<exists>pk sk. files w2 ?pp = Some pk \<and> files w2 ?ps = Some sk \<and>
    wo_keys o2 = \<lparr>wallet_public = buffer_fill PUBLICKEYBYTES pk, wallet_secret = buffer_fill SECRETKEYBYTES sk\<rparr>"
  proof (cases "existsSync ?pp w1 \<and> existsSync ?ps w1")
    case True
    then show ?thesis using open1 o(1,2)
      by (auto simp: Wallet_open_def Let_def readFileSync_def split: option.splits)
  next
    case False
    then have "wo_keys o2 = pf_keypair P (draws w1)"
      "files w2 ?pp = Some (wallet_public (pf_keypair P (draws w1)))"
      "files w2 ?ps = Some (wallet_secret (pf_keypair P (draws w1)))"
      using open1 o(1,2) ne(3) by (auto simp: Wallet_open_def Let_def draw_def)
    then show ?thesis using l by (auto simp: buffer_fill_exact)
  qed
  then obtain pk sk where f: "files w2 ?pp = Some pk" "files w2 ?ps = Some sk"
    and o2: "wo_keys o2 = \<lparr>wallet_public = buffer_fill PUBLICKEYBYTES pk, wallet_secret = buffer_fill SECRETKEYBYTES sk\<rparr>"
    by blast
  show ?thesis
    using f keep o o2 by (simp add: Wallet_open_def Let_def existsSync_def readFileSync_def)
qed

text \<open>A platform for concrete runs.\<close>

definition demo_platform :: platform where
  "demo_platform =
     \<lparr>pf_toB32 = (\<lambda>s. CHR ''b'' # s), pf_nanoid = (\<lambda>l n. padStart l (CHR ''0'') (dec_of_nat n)),
      pf_keypair = (\<lambda>n. \<lparr>wallet_public = replicate 32 (digit (n mod 10)), wallet_secret = replicate 64 (CHR ''s'')\<rparr>),
      pf_destination = (\<lambda>n. (''address'' @ dec_of_nat n, ''public'' @ dec_of_nat n, ''private'' @ dec_of_nat n)),
      pf_dirname = ''/app/dist'', pf_pkg = None, pf_package_version = ''1.0''\<rparr>"

definition demo_world :: world where
  "demo_world = \<lparr>files = (\<lambda>p. if p = ''/app/genesis/block.v7.json'' then Some ''{}'' else None),
     dirs = (\<lambda>p. p \<in> {''/app/keys/'', ''/app/genesis/'', ''/app/blockstore/'', ''/app/state/''}),
     environ = (\<lambda>k. None), draws = 0\<rparr>"

theorem wallet_keeps_keys_witness:
  "\<exists>o1 w1 o2 w2 o3 w3 o4. Wallet_make demo_platform ''/app/keys/'' ''http'' demo_world = Inr (o1, w1) \<and>
     Wallet_open demo_platform (o1, w1) = Inr (o2, w2) \<and> Wallet_make demo_platform ''/app/keys/'' ''http'' w2 = Inr (o3, w3) \<and>
     Wallet_open demo_platform (o3, w3) = Inr (o4, w3) \<and> wo_keys o4 = wo_keys o2"
proof -
  have P: "keypair_ok demo_platform" "plain_name (pf_toB32 demo_platform ''http'')"
    by (simp_all add: keypair_ok_def demo_platform_def plain_name_def PUBLICKEYBYTES_def SECRETKEYBYTES_def)
  obtain o1 w1 where a: "Wallet_make demo_platform ''/app/keys/'' ''http'' demo_world = Inr (o1, w1)"
    by (simp add: Wallet_make_def createTokenAPI_eq)
  then have e: "wo_path_keys o1 = ''/app/keys/''" "dirs w1 = dirs demo_world" "wo_http o1 = ''http''"
    by (auto simp: Wallet_make_def createTokenAPI_eq writeFileSync_def)
  have "\<not> dirs demo_world (path_join [''/app/keys/'', (pf_toB32 demo_platform ''http'' @ ''.wallet'') @ ''.public''])"
    "\<not> dirs demo_world (path_join [''/app/keys/'', (pf_toB32 demo_platform ''http'' @ ''.wallet'') @ ''.private''])"
    by code_simp+
  then obtain o2 w2 where b: "Wallet_open demo_platform (o1, w1) = Inr (o2, w2)"
    using Wallet_open_Inr [of w1 o1 demo_platform] e by auto
  obtain o3 w3 where c: "Wallet_make demo_platform ''/app/keys/'' ''http'' w2 = Inr (o3, w3)"
    by (simp add: Wallet_make_def createTokenAPI_eq)
  show ?thesis using wallet_keeps_keys [OF P a b c] a b c by blast
qed

end
