(* ===== verification/Config_Make.thy ===== *)
theory Config_Make
  imports Wallet_Files
begin

text \<open>
  \<open>src/config.ts\<close>: how a configuration is made from the arguments, the environment
  variables and the defaults. Of an argument or a variable that is a text, \<open>[]\<close> stands for
  a missing one (the code treats both alike); of a number, \<open>NaN\<close> does. The lemmas give the
  bounds of the values.
\<close>

section \<open>Constants\<close>

definition DEFAULT_NAME_GENESIS_BLOCK :: string where
  "DEFAULT_NAME_GENESIS_BLOCK = ''block.v'' @ dec_of_int BLOCK_VERSION"
definition MAX_NETWORK_SIZE :: int where "MAX_NETWORK_SIZE = 16"
definition DEFAULT_IP :: string where "DEFAULT_IP = ''127.0.0.1''"
definition DEFAULT_PORT :: int where "DEFAULT_PORT = 17468"
definition DEFAULT_BLOCK_FEED_PORT :: int where "DEFAULT_BLOCK_FEED_PORT = DEFAULT_PORT + 1"
definition DEFAULT_I2P_SOCKS_PORT :: int where "DEFAULT_I2P_SOCKS_PORT = 4445"
definition DEFAULT_I2P_SAM_TCP_PORT :: int where "DEFAULT_I2P_SAM_TCP_PORT = 7656"
definition DEFAULT_I2P_SAM_UDP_PORT :: int where "DEFAULT_I2P_SAM_UDP_PORT = 7655"
definition DEFAULT_I2P_SAM_FORWARD_HTTP_PORT :: int where "DEFAULT_I2P_SAM_FORWARD_HTTP_PORT = DEFAULT_PORT"
definition DEFAULT_I2P_SAM_LISTEN_UDP_PORT :: int where "DEFAULT_I2P_SAM_LISTEN_UDP_PORT = DEFAULT_PORT + 2"
definition DEFAULT_I2P_SAM_FORWARD_UDP_PORT :: int where
  "DEFAULT_I2P_SAM_FORWARD_UDP_PORT = DEFAULT_I2P_SAM_LISTEN_UDP_PORT"
definition DEFAULT_NETWORK_TIMEOUT_MS :: int where "DEFAULT_NETWORK_TIMEOUT_MS = 10000"
definition MIN_NETWORK_TIMEOUT_MS :: int where "MIN_NETWORK_TIMEOUT_MS = 1000"
definition MAX_NETWORK_TIMEOUT_MS :: int where "MAX_NETWORK_TIMEOUT_MS = 60000"
definition MIN_NETWORK_P2P_INTERVAL_MS :: int where "MIN_NETWORK_P2P_INTERVAL_MS = 10000"
definition MAX_NETWORK_P2P_INTERVAL_MS :: int where "MAX_NETWORK_P2P_INTERVAL_MS = 30000"
definition MIN_NETWORK_SYNC_SIZE :: int where "MIN_NETWORK_SYNC_SIZE = 10"
definition MAX_NETWORK_SYNC_SIZE :: int where "MAX_NETWORK_SYNC_SIZE = 100"
definition MIN_BLOCKCHAIN_MAX_BLOCKS_IN_MEMORY :: int where "MIN_BLOCKCHAIN_MAX_BLOCKS_IN_MEMORY = 100"
definition MAX_BLOCKCHAIN_MAX_BLOCKS_IN_MEMORY :: int where "MAX_BLOCKCHAIN_MAX_BLOCKS_IN_MEMORY = 1000"
definition MIN_API_MAX_QUERY_SIZE :: int where "MIN_API_MAX_QUERY_SIZE = 10"
definition MAX_API_MAX_QUERY_SIZE :: int where "MAX_API_MAX_QUERY_SIZE = 100"

lemmas config_constants = DEFAULT_PORT_def DEFAULT_BLOCK_FEED_PORT_def DEFAULT_I2P_SOCKS_PORT_def
  DEFAULT_I2P_SAM_TCP_PORT_def DEFAULT_I2P_SAM_UDP_PORT_def DEFAULT_I2P_SAM_FORWARD_HTTP_PORT_def
  DEFAULT_I2P_SAM_LISTEN_UDP_PORT_def DEFAULT_I2P_SAM_FORWARD_UDP_PORT_def
  DEFAULT_NETWORK_TIMEOUT_MS_def MIN_NETWORK_TIMEOUT_MS_def MAX_NETWORK_TIMEOUT_MS_def
  MIN_NETWORK_P2P_INTERVAL_MS_def MAX_NETWORK_P2P_INTERVAL_MS_def MIN_NETWORK_SYNC_SIZE_def
  MAX_NETWORK_SYNC_SIZE_def MIN_BLOCKCHAIN_MAX_BLOCKS_IN_MEMORY_def MAX_BLOCKCHAIN_MAX_BLOCKS_IN_MEMORY_def
  MIN_API_MAX_QUERY_SIZE_def MAX_API_MAX_QUERY_SIZE_def

section \<open>Arguments and result\<close>

record configuration =
  a_no_bootstrapping :: jsnum
  a_bootstrap :: string
  a_ip :: string
  a_port :: jsnum
  a_port_block_feed :: jsnum
  a_path_app :: string
  a_path_genesis :: string
  a_path_blockstore :: string
  a_path_state :: string
  a_path_keys :: string
  a_i2p_socks_host :: string
  a_i2p_socks_port :: jsnum
  a_i2p_sam_http_host :: string
  a_i2p_sam_http_port_tcp :: jsnum
  a_i2p_sam_udp_host :: string
  a_i2p_sam_udp_port_tcp :: jsnum
  a_i2p_sam_udp_port_udp :: jsnum
  a_i2p_sam_forward_http_host :: string
  a_i2p_sam_forward_http_port :: jsnum
  a_i2p_sam_listen_udp_host :: string
  a_i2p_sam_listen_udp_port :: jsnum
  a_i2p_sam_forward_udp_host :: string
  a_i2p_sam_forward_udp_port :: jsnum
  a_http :: string
  a_udp :: string
  a_network_timeout_ms :: jsnum
  a_network_p2p_interval_ms :: jsnum
  a_network_sync_size :: jsnum
  a_blockchain_max_blocks_in_memory :: jsnum
  a_api_max_query_size :: jsnum

definition no_configuration :: configuration where
  "no_configuration = \<lparr>a_no_bootstrapping = NaN, a_bootstrap = [], a_ip = [], a_port = NaN,
     a_port_block_feed = NaN, a_path_app = [], a_path_genesis = [], a_path_blockstore = [],
     a_path_state = [], a_path_keys = [], a_i2p_socks_host = [], a_i2p_socks_port = NaN,
     a_i2p_sam_http_host = [], a_i2p_sam_http_port_tcp = NaN, a_i2p_sam_udp_host = [],
     a_i2p_sam_udp_port_tcp = NaN, a_i2p_sam_udp_port_udp = NaN, a_i2p_sam_forward_http_host = [],
     a_i2p_sam_forward_http_port = NaN, a_i2p_sam_listen_udp_host = [], a_i2p_sam_listen_udp_port = NaN,
     a_i2p_sam_forward_udp_host = [], a_i2p_sam_forward_udp_port = NaN, a_http = [], a_udp = [],
     a_network_timeout_ms = NaN, a_network_p2p_interval_ms = NaN, a_network_sync_size = NaN,
     a_blockchain_max_blocks_in_memory = NaN, a_api_max_query_size = NaN\<rparr>"

text \<open>The rest of a made configuration, beside the fields in \<open>config\<close>.\<close>

record full_config = config +
  f_VERSION :: string
  f_ip :: string
  f_port :: int
  f_port_block_feed :: int
  f_path_app :: string
  f_path_genesis :: string
  f_path_blockstore :: string
  f_path_state :: string
  f_path_keys :: string
  f_http :: string
  f_udp :: string
  f_i2p_socks_host :: string
  f_i2p_socks_port :: int
  f_i2p_sam_http_host :: string
  f_i2p_sam_http_port_tcp :: int
  f_i2p_sam_udp_host :: string
  f_i2p_sam_udp_port_tcp :: int
  f_i2p_sam_udp_port_udp :: int
  f_i2p_sam_forward_http_host :: string
  f_i2p_sam_forward_http_port :: int
  f_i2p_sam_listen_udp_host :: string
  f_i2p_sam_listen_udp_port :: int
  f_i2p_sam_forward_udp_host :: string
  f_i2p_sam_forward_udp_port :: int
  f_i2p_public_key_http :: string
  f_i2p_private_key_http :: string
  f_i2p_public_key_udp :: string
  f_i2p_private_key_udp :: string
  f_network_timeout_ms :: int
  f_block_retry_timeout_ms :: int

section \<open>Values\<close>

definition config_tf :: "string \<Rightarrow> bool" where
  "config_tf s \<longleftrightarrow> num_less (num 0) (if s = [] then NaN else Number_of s)"

definition config_b :: "jsnum \<Rightarrow> int \<Rightarrow> int \<Rightarrow> int" where
  "config_b n mn mx =
     (if num_le (num mn) n \<and> num_le n (num mx) then num_int n else if num_less (num mx) n then mx else mn)"

definition config_port :: "jsnum \<Rightarrow> int" where
  "config_port n = (if num_truthy n then config_b n 1025 65535 else 0)"

definition env_str :: "world \<Rightarrow> string \<Rightarrow> string" where
  "env_str w k = (case environ w k of None \<Rightarrow> [] | Some s \<Rightarrow> s)"

text \<open>\<open>c || process.env.K || d\<close> for texts and for numbers.\<close>

definition str_or :: "string \<Rightarrow> string \<Rightarrow> string" where
  "str_or a b = (if a \<noteq> [] then a else b)"

definition pick_num :: "jsnum \<Rightarrow> string \<Rightarrow> jsnum \<Rightarrow> jsnum" where
  "pick_num c e d = (if num_truthy c then c else if e \<noteq> [] then Number_of e else d)"

definition port_or :: "jsnum \<Rightarrow> int \<Rightarrow> int" where \<comment> \<open>\<open>Config.port(n) || d\<close>\<close>
  "port_or n d = (if config_port n \<noteq> 0 then config_port n else d)"

definition existing_or :: "string \<Rightarrow> string \<Rightarrow> world \<Rightarrow> string" where
  "existing_or c d w = (if c = [] \<or> \<not> existsSync c w then d else c)"

definition must_exist :: "string \<Rightarrow> string \<Rightarrow> world \<Rightarrow> string result" where
  "must_exist message p w = (if existsSync p w then Inr p else Inl (Thrown (message @ p)))"

section \<open>Destinations\<close>

definition createI2PDestination :: "platform \<Rightarrow> string \<Rightarrow> world \<Rightarrow> ((string \<times> string) \<times> world) result" where
  "createI2PDestination P path_keys w =
     (case draw w of (n, w) \<Rightarrow>
        case pf_destination P n of (address, pub, priv) \<Rightarrow>
          let p = path_join [path_keys, address]
          in if existsSync (p @ ''.public'') w \<or> existsSync (p @ ''.private'') w
             then Inl (Thrown (''Address already exists: '' @ p))
             else Inr ((pub, priv), writeFileSync (p @ ''.private'') priv (writeFileSync (p @ ''.public'') pub w)))"

definition load_destination :: "platform \<Rightarrow> string \<Rightarrow> string \<Rightarrow> world \<Rightarrow> ((string \<times> string) \<times> world) result" where
  "load_destination P path_keys addr w =
     (if addr \<noteq> [] then
        let b32 = (if ends_with ''.b32.i2p'' addr then addr else pf_toB32 P addr @ ''.b32.i2p'');
            p = path_join [path_keys, b32]
        in bindr (readFileSync (p @ ''.public'') w) (\<lambda>pub.
             bindr (readFileSync (p @ ''.private'') w) (\<lambda>priv. Inr ((pub, priv), w)))
      else createI2PDestination P path_keys w)"

definition config_version :: "platform \<Rightarrow> string \<Rightarrow> world \<Rightarrow> string result" where
  "config_version P path_app w =
     (case readFileSync (path_join [pf_dirname P, ''version'']) w of
        Inr t \<Rightarrow> Inr t
      | Inl e \<Rightarrow>
          let p = path_join [path_app, ''package.json'']
          in if existsSync p w then Inr (pf_package_version P) else Inl (Thrown (''File not found: '' @ p)))"

section \<open>The configuration\<close>

text \<open>
  \<open>Config.make\<close> from the packaged-binary check on; \<open>c\<close> is the argument, \<open>is_test\<close> the
  value read at its start.
\<close>

definition Config_make_rest ::
    "platform \<Rightarrow> bool \<Rightarrow> configuration \<Rightarrow> world \<Rightarrow> (full_config \<times> world) result" where
  "Config_make_rest P is_test c w =
     (let env = env_str w;
          a_app = (case pf_pkg P of None \<Rightarrow> a_path_app c | Some d \<Rightarrow> path_dirname d);
          path_app = existing_or a_app (path_join [pf_dirname P, ''/../'']) w;
          bootstrap = (if num_less (num 0) (pick_num (a_no_bootstrapping c) (env ''NO_BOOTSTRAPPING'') (num 0))
                       then [] else str_or (a_bootstrap c) (env ''BOOTSTRAP''))
      in bindr (config_version P path_app w) (\<lambda>version.
         let ip = str_or (a_ip c) (str_or (env ''IP'') DEFAULT_IP);
             port = config_port (pick_num (a_port c) (env ''PORT'') (num DEFAULT_PORT));
             port_feed = config_port (pick_num (a_port_block_feed c) (env ''BLOCK_FEED_PORT'') (num DEFAULT_BLOCK_FEED_PORT))
         in bindr (must_exist ''Path to the keys storage not found: ''
                    (existing_or (a_path_keys c) (path_join [path_app, ''keys/'']) w) w) (\<lambda>path_keys.
         let http = str_or (a_http c) (env ''HTTP'');
             udp = str_or (a_udp c) (env ''UDP'');
             socks_host = str_or (a_i2p_socks_host c) (str_or (env ''I2P_SOCKS_HOST'') ip);
             socks_port = port_or (pick_num (a_i2p_socks_port c) (env ''I2P_SOCKS_PORT'') NaN) DEFAULT_I2P_SOCKS_PORT;
             sam_http_host = str_or (a_i2p_sam_http_host c) (str_or (env ''I2P_SAM_HTTP_HOST'') ip);
             sam_http_tcp = port_or (pick_num (a_i2p_sam_http_port_tcp c) (env ''I2P_SAM_HTTP_PORT_TCP'') NaN) DEFAULT_I2P_SAM_TCP_PORT;
             sam_udp_host = str_or (a_i2p_sam_udp_host c) (str_or (env ''I2P_SAM_UDP_HOST'') ip);
             sam_udp_tcp = port_or (pick_num (a_i2p_sam_udp_port_tcp c) (env ''I2P_SAM_UDP_PORT_TCP'') NaN) DEFAULT_I2P_SAM_TCP_PORT;
             sam_udp_udp = port_or (pick_num (a_i2p_sam_udp_port_udp c) (env ''I2P_SAM_UDP_PORT_UDP'') NaN) DEFAULT_I2P_SAM_UDP_PORT;
             fwd_http_host = str_or (a_i2p_sam_forward_http_host c) (str_or (env ''I2P_SAM_FORWARD_HTTP_HOST'') ip);
             fwd_http_port = port_or (pick_num (a_i2p_sam_forward_http_port c) (env ''I2P_SAM_FORWARD_HTTP_PORT'') NaN) DEFAULT_I2P_SAM_FORWARD_HTTP_PORT;
             listen_host = str_or (a_i2p_sam_listen_udp_host c) (str_or (env ''I2P_SAM_LISTEN_UDP_HOST'') ip);
             listen_port = port_or (pick_num (a_i2p_sam_listen_udp_port c) (env ''I2P_SAM_LISTEN_UDP_PORT'') NaN) DEFAULT_I2P_SAM_LISTEN_UDP_PORT;
             fwd_udp_host = str_or (a_i2p_sam_forward_udp_host c) (str_or (env ''I2P_SAM_FORWARD_UDP_HOST'') ip);
             fwd_udp_port = port_or (pick_num (a_i2p_sam_forward_udp_port c) (env ''I2P_SAM_FORWARD_UDP_PORT'') NaN) DEFAULT_I2P_SAM_FORWARD_UDP_PORT
         in bindr (load_destination P path_keys http w) (\<lambda>((pub_http, priv_http), w).
            bindr (load_destination P path_keys udp w) (\<lambda>((pub_udp, priv_udp), w).
            let genesis = existing_or (a_path_genesis c) (path_join [path_app, ''genesis/'']) w;
                genesis = (if ends_with ''.json'' genesis then genesis
                           else genesis @ DEFAULT_NAME_GENESIS_BLOCK @ ''.json'')
            in bindr (must_exist ''Path to genesis block not found: '' genesis w) (\<lambda>path_genesis.
               bindr (must_exist ''Path to the blockstore database not found: ''
                        (existing_or (a_path_blockstore c) (path_join [path_app, ''blockstore/'']) w) w) (\<lambda>path_blockstore.
               bindr (must_exist ''Path to the state database not found: ''
                        (existing_or (a_path_state c) (path_join [path_app, ''state/'']) w) w) (\<lambda>path_state.
               Inr (\<lparr>is_testnet = is_test, debug_performance = config_tf (env ''DEBUG_PERFORMANCE''),
                 bootstrap_url = bootstrap,
                 network_p2p_interval_ms = config_b (pick_num (a_network_p2p_interval_ms c) (env ''NETWORK_P2P_INTERVAL_MS'') NaN)
                   MIN_NETWORK_P2P_INTERVAL_MS MAX_NETWORK_P2P_INTERVAL_MS,
                 network_sync_size = config_b (pick_num (a_network_sync_size c) (env ''NETWORK_SYNC_SIZE'') NaN)
                   MIN_NETWORK_SYNC_SIZE MAX_NETWORK_SYNC_SIZE,
                 blockchain_max_blocks_in_memory = config_b
                   (pick_num (a_blockchain_max_blocks_in_memory c) (env ''BLOCKCHAIN_MAX_BLOCKS_IN_MEMORY'')
                     (num MAX_BLOCKCHAIN_MAX_BLOCKS_IN_MEMORY))
                   MIN_BLOCKCHAIN_MAX_BLOCKS_IN_MEMORY MAX_BLOCKCHAIN_MAX_BLOCKS_IN_MEMORY,
                 api_max_query_size = config_b
                   (pick_num (a_api_max_query_size c) (env ''API_MAX_QUERY_SIZE'') (num MAX_API_MAX_QUERY_SIZE))
                   MIN_API_MAX_QUERY_SIZE MAX_API_MAX_QUERY_SIZE,
                 f_VERSION = version, f_ip = ip, f_port = port, f_port_block_feed = port_feed,
                 f_path_app = path_app, f_path_genesis = path_genesis, f_path_blockstore = path_blockstore,
                 f_path_state = path_state, f_path_keys = path_keys, f_http = pub_http, f_udp = pub_udp,
                 f_i2p_socks_host = socks_host, f_i2p_socks_port = socks_port,
                 f_i2p_sam_http_host = sam_http_host, f_i2p_sam_http_port_tcp = sam_http_tcp,
                 f_i2p_sam_udp_host = sam_udp_host, f_i2p_sam_udp_port_tcp = sam_udp_tcp,
                 f_i2p_sam_udp_port_udp = sam_udp_udp,
                 f_i2p_sam_forward_http_host = fwd_http_host, f_i2p_sam_forward_http_port = fwd_http_port,
                 f_i2p_sam_listen_udp_host = listen_host, f_i2p_sam_listen_udp_port = listen_port,
                 f_i2p_sam_forward_udp_host = fwd_udp_host, f_i2p_sam_forward_udp_port = fwd_udp_port,
                 f_i2p_public_key_http = pub_http, f_i2p_private_key_http = priv_http,
                 f_i2p_public_key_udp = pub_udp, f_i2p_private_key_udp = priv_udp,
                 f_network_timeout_ms = config_b
                   (pick_num (a_network_timeout_ms c) (env ''NETWORK_TIMEOUT_MS'') (num DEFAULT_NETWORK_TIMEOUT_MS))
                   MIN_NETWORK_TIMEOUT_MS MAX_NETWORK_TIMEOUT_MS,
                 f_block_retry_timeout_ms = 0\<rparr>, w)))))))))"

section \<open>Bounds\<close>

lemma config_b_bounds: "mn \<le> mx \<Longrightarrow> mn \<le> config_b n mn mx \<and> config_b n mn mx \<le> mx"
proof (cases n)
  case (Fin q)
  assume m: "mn \<le> mx"
  show ?thesis
  proof (cases "of_int mn \<le> q \<and> q \<le> of_int mx")
    case True
    then have "mn \<le> \<lfloor>q\<rfloor>" by (simp add: le_floor_iff)
    moreover have "\<lfloor>q\<rfloor> \<le> mx" using floor_mono [of q "of_int mx"] True by simp
    ultimately show ?thesis using True by (simp add: Fin config_b_def)
  next
    case False
    then show ?thesis using m by (auto simp: Fin config_b_def)
  qed
qed (simp_all add: config_b_def num_less_def)

lemma config_b_exact: "mn \<le> i \<Longrightarrow> i \<le> mx \<Longrightarrow> config_b (num i) mn mx = i"
  by (simp add: config_b_def)

lemma config_port_bounds: "config_port n = 0 \<or> 1025 \<le> config_port n \<and> config_port n \<le> 65535"
  using config_b_bounds [of 1025 65535 n] by (simp add: config_port_def)

lemma port_or_bounds: "1025 \<le> d \<Longrightarrow> d \<le> 65535 \<Longrightarrow> 1025 \<le> port_or n d \<and> port_or n d \<le> 65535"
  using config_port_bounds [of n] by (auto simp: port_or_def)

text \<open>Of a made configuration: where each value comes from.\<close>

lemma Config_make_rest_fields:
  assumes "Config_make_rest P t c w = Inr (cfg, w')"
  shows "\<exists>a1 a2 a3 a4 a5 p1 p2 p3 p4 p5 p6 p7 p8 p9.
    network_p2p_interval_ms cfg = config_b a1 MIN_NETWORK_P2P_INTERVAL_MS MAX_NETWORK_P2P_INTERVAL_MS \<and>
    network_sync_size cfg = config_b a2 MIN_NETWORK_SYNC_SIZE MAX_NETWORK_SYNC_SIZE \<and>
    blockchain_max_blocks_in_memory cfg = config_b a3 MIN_BLOCKCHAIN_MAX_BLOCKS_IN_MEMORY MAX_BLOCKCHAIN_MAX_BLOCKS_IN_MEMORY \<and>
    api_max_query_size cfg = config_b a4 MIN_API_MAX_QUERY_SIZE MAX_API_MAX_QUERY_SIZE \<and>
    f_network_timeout_ms cfg = config_b a5 MIN_NETWORK_TIMEOUT_MS MAX_NETWORK_TIMEOUT_MS \<and>
    f_port cfg = config_port p1 \<and> f_port_block_feed cfg = config_port p2 \<and>
    f_i2p_socks_port cfg = port_or p3 DEFAULT_I2P_SOCKS_PORT \<and>
    f_i2p_sam_http_port_tcp cfg = port_or p4 DEFAULT_I2P_SAM_TCP_PORT \<and>
    f_i2p_sam_udp_port_tcp cfg = port_or p5 DEFAULT_I2P_SAM_TCP_PORT \<and>
    f_i2p_sam_udp_port_udp cfg = port_or p6 DEFAULT_I2P_SAM_UDP_PORT \<and>
    f_i2p_sam_forward_http_port cfg = port_or p7 DEFAULT_I2P_SAM_FORWARD_HTTP_PORT \<and>
    f_i2p_sam_listen_udp_port cfg = port_or p8 DEFAULT_I2P_SAM_LISTEN_UDP_PORT \<and>
    f_i2p_sam_forward_udp_port cfg = port_or p9 DEFAULT_I2P_SAM_FORWARD_UDP_PORT"
  using assms unfolding Config_make_rest_def Let_def
  apply (clarsimp simp: split_def simp del: split_paired_Ex)
  apply (intro exI conjI; rule refl)
  done

section \<open>Property\<close>

text \<open>Whatever the arguments and the environment say, a configuration that \<open>Config.make\<close> returns is in bounds:
  interval, synchronisation size, cache size, query size and timeout lie between their declared minima and maxima
  (so the cache and the answers hold at least one block), every SAM and SOCKS port is a port above 1024, and the two
  ports of the server are such ports or 0.\<close>

theorem config_in_bounds:
  assumes "Config_make_rest P t c w = Inr (cfg, w')"
  shows "10000 \<le> network_p2p_interval_ms cfg \<and> network_p2p_interval_ms cfg \<le> 30000 \<and>
    10 \<le> network_sync_size cfg \<and> network_sync_size cfg \<le> 100 \<and>
    100 \<le> blockchain_max_blocks_in_memory cfg \<and> blockchain_max_blocks_in_memory cfg \<le> 1000 \<and>
    10 \<le> api_max_query_size cfg \<and> api_max_query_size cfg \<le> 100 \<and>
    1000 \<le> f_network_timeout_ms cfg \<and> f_network_timeout_ms cfg \<le> 60000 \<and>
    (\<forall>p \<in> {f_i2p_socks_port cfg, f_i2p_sam_http_port_tcp cfg, f_i2p_sam_udp_port_tcp cfg, f_i2p_sam_udp_port_udp cfg,
       f_i2p_sam_forward_http_port cfg, f_i2p_sam_listen_udp_port cfg, f_i2p_sam_forward_udp_port cfg}. 1025 \<le> p \<and> p \<le> 65535) \<and>
    (\<forall>p \<in> {f_port cfg, f_port_block_feed cfg}. p = 0 \<or> 1025 \<le> p \<and> p \<le> 65535)"
proof -
  have p: "1025 \<le> port_or n d \<and> port_or n d \<le> 65535" if "d \<in> {4445, 7655, 7656, 17468, 17470}" for n d
    by (rule port_or_bounds) (use that in auto)
  note b = config_b_bounds [of 10000 30000] config_b_bounds [of 10 100] config_b_bounds [of 100 1000]
    config_b_bounds [of 1000 60000]
  show ?thesis
    using Config_make_rest_fields [OF assms] b p config_port_bounds
    by (elim exE conjE) (simp add: config_constants)
qed

text \<open>A world in which the version file and the key files of both destinations exist.\<close>

definition demo_args :: configuration where
  "demo_args = no_configuration\<lparr>a_port := num 80, a_i2p_socks_port := num 99999, a_api_max_query_size := Fin (25 / 2),
     a_network_sync_size := PosInf\<rparr>"

definition demo_version_world :: world where
  "demo_version_world = writeFileSync ''/app/dist/version'' ''1.0'' demo_world"

lemma demo_config_runs:
  "case Config_make_rest demo_platform True demo_args demo_version_world of
     Inl e \<Rightarrow> False
   | Inr (cfg, w) \<Rightarrow> f_port cfg = 1025 \<and> f_i2p_socks_port cfg = 65535 \<and> api_max_query_size cfg = 12 \<and> network_sync_size cfg = 100"
  by code_simp

theorem config_in_bounds_witness:
  "\<exists>cfg w. Config_make_rest demo_platform True demo_args demo_version_world = Inr (cfg, w) \<and> f_port cfg = 1025 \<and>
     f_network_timeout_ms cfg \<le> 60000"
proof -
  obtain cfg w where r: "Config_make_rest demo_platform True demo_args demo_version_world = Inr (cfg, w)" "f_port cfg = 1025"
    using demo_config_runs by (auto split: sum.splits prod.splits)
  from config_in_bounds [OF r(1)] show ?thesis using r by blast
qed

end
