(* ===== verification/Schemas.thy ===== *)
theory Schemas
  imports Transactions
begin

text \<open>
  The JSON schemas of \<open>src/schema/block/v7\<close> as predicates on the typed values: string
  patterns, lengths, numeric ranges, array sizes and \<open>uniqueItems\<close>. The types already
  say which properties an object has (\<open>required\<close>, \<open>additionalProperties: false\<close>).
\<close>

section \<open>String patterns\<close>

definition char_in :: "char \<Rightarrow> char \<Rightarrow> char \<Rightarrow> bool" where
  "char_in a b c \<longleftrightarrow> (of_char a :: nat) \<le> of_char c \<and> (of_char c :: nat) \<le> of_char b"

definition is_alpha_dash :: "char \<Rightarrow> bool" where \<comment> \<open>[A-Za-z_-]\<close>
  "is_alpha_dash c \<longleftrightarrow>
     char_in (CHR ''A'') (CHR ''Z'') c \<or> char_in (CHR ''a'') (CHR ''z'') c \<or> c = CHR ''_'' \<or> c = CHR ''-''"

definition is_b64url :: "char \<Rightarrow> bool" where \<comment> \<open>[A-Za-z0-9_-]\<close>
  "is_b64url c \<longleftrightarrow> is_alpha_dash c \<or> is_digit c"

definition pattern_b64 :: "nat \<Rightarrow> nat \<Rightarrow> string \<Rightarrow> bool" where \<comment> \<open>^[A-Za-z0-9_-]{lo,hi}$\<close>
  "pattern_b64 lo hi s \<longleftrightarrow> lo \<le> length s \<and> length s \<le> hi \<and> list_all is_b64url s"

fun split_on :: "char \<Rightarrow> string \<Rightarrow> string list" where
  "split_on c [] = [[]]"
| "split_on c (x # xs) =
     (if x = c then [] # split_on c xs
      else case split_on c xs of [] \<Rightarrow> [[x]] | y # ys \<Rightarrow> (x # y) # ys)"

definition pattern_ns :: "string \<Rightarrow> bool" where
    \<comment> \<open>^([A-Za-z_-]{4,15}:){1,4}[A-Za-z0-9_-]{1,64}$\<close>
  "pattern_ns s \<longleftrightarrow>
     (let parts = split_on (CHR '':'') s; front = butlast parts
      in 1 \<le> length front \<and> length front \<le> 4 \<and>
         list_all (\<lambda>p. 4 \<le> length p \<and> length p \<le> 15 \<and> list_all is_alpha_dash p) front \<and>
         pattern_b64 1 64 (last parts))"

abbreviation pattern_key :: "string \<Rightarrow> bool" where "pattern_key \<equiv> pattern_b64 43 43"
abbreviation pattern_sig :: "string \<Rightarrow> bool" where "pattern_sig \<equiv> pattern_b64 86 86"
abbreviation pattern_ident :: "string \<Rightarrow> bool" where "pattern_ident \<equiv> pattern_b64 1 32"

section \<open>Commands, transactions, votes, blocks\<close>

definition schema_seq :: "int option \<Rightarrow> bool" where
  "schema_seq s \<longleftrightarrow> (case s of None \<Rightarrow> False | Some i \<Rightarrow> 1 \<le> i)"

definition schema_add_peer :: "int option \<Rightarrow> string \<Rightarrow> string \<Rightarrow> string \<Rightarrow> bool" where
  "schema_add_peer s h u k \<longleftrightarrow> schema_seq s \<and> 1 \<le> length h \<and> length h \<le> 1024 \<and>
     1 \<le> length u \<and> length u \<le> 1024 \<and> pattern_key k"

definition schema_remove_peer :: "int option \<Rightarrow> string \<Rightarrow> bool" where
  "schema_remove_peer s k \<longleftrightarrow> schema_seq s \<and> pattern_key k"

definition schema_modify_stake :: "int option \<Rightarrow> string \<Rightarrow> string \<Rightarrow> int \<Rightarrow> bool" where
  "schema_modify_stake s k i n \<longleftrightarrow>
     schema_seq s \<and> pattern_key k \<and> pattern_ident i \<and> - 1000 \<le> n \<and> n \<le> 1000"

definition schema_data :: "int option \<Rightarrow> string \<Rightarrow> string \<Rightarrow> bool" where
  "schema_data s n d \<longleftrightarrow> schema_seq s \<and> pattern_ns n \<and> length d \<le> 8192"

definition schema_decision :: "int option \<Rightarrow> string \<Rightarrow> int \<Rightarrow> string \<Rightarrow> bool" where
  "schema_decision s n h d \<longleftrightarrow> schema_seq s \<and> pattern_ns n \<and> 2 \<le> h \<and> length d \<le> 8192"

fun schema_command :: "command \<Rightarrow> bool" where
  "schema_command (AddPeer s h u k) = schema_add_peer s h u k"
| "schema_command (RemovePeer s k) = schema_remove_peer s k"
| "schema_command (ModifyStake s k i n) = schema_modify_stake s k i n"
| "schema_command (Data s n d) = schema_data s n d"
| "schema_command (Decision s n h d) = schema_decision s n h d"
| "schema_command (OtherCommand s c) = False"

definition schema_tx :: "transaction \<Rightarrow> bool" where
  "schema_tx t \<longleftrightarrow> pattern_ident (tx_ident t) \<and> pattern_key (tx_origin t) \<and>
     1 \<le> length (tx_commands t) \<and> length (tx_commands t) \<le> 16 \<and> distinct (tx_commands t) \<and>
     list_all schema_command (tx_commands t) \<and> pattern_sig (tx_sig t)"

definition schema_vote :: "vote \<Rightarrow> bool" where
  "schema_vote v \<longleftrightarrow> pattern_key (vote_origin v) \<and> pattern_sig (vote_sig v)"

definition schema_votes :: "vote list \<Rightarrow> bool" where
  "schema_votes vs \<longleftrightarrow> 1 \<le> length vs \<and> length vs \<le> 16 \<and> distinct vs \<and> list_all schema_vote vs"

definition schema_block :: "block \<Rightarrow> bool" where
  "schema_block b \<longleftrightarrow> blk_version b = 7 \<and> pattern_key (blk_previousHash b) \<and> pattern_key (blk_hash b) \<and>
     1 \<le> length (blk_tx b) \<and> length (blk_tx b) \<le> 16 \<and> distinct (blk_tx b) \<and> list_all schema_tx (blk_tx b) \<and>
     1 \<le> blk_height b \<and> schema_votes (blk_votes b)"

lemma is_b64url_no_sep [simp]:
  "\<not> is_b64url CHR '',''" "\<not> is_b64url CHR '':''" "\<not> is_b64url CHR '';''"
  by (simp_all add: is_b64url_def is_alpha_dash_def char_in_def)

lemma pattern_b64_notin: "pattern_b64 lo hi s \<Longrightarrow> \<not> is_b64url c \<Longrightarrow> c \<notin> set s"
  by (auto simp: pattern_b64_def list_all_iff)

end
