(* ===== verification/Ledger.thy ===== *)
theory Ledger
  imports Schemas
begin

text \<open>
  The ledger part of \<open>src/chain/blockchain.ts\<close>: the fields of \<open>Blockchain\<close>, its
  queries on peers, stakes and decisions, and \<open>processState\<close> with the handlers of the
  five commands. \<open>peers_inv\<close> says how the peer maps and the total stake agree; every
  handler keeps it. The locale \<open>weighted_quorum\<close> states what a stake-weighted quorum
  needs and gives quorum intersection; it is interpreted on this ledger.
\<close>

section \<open>State\<close>

record peer =
  p_publicKey :: string
  p_http :: string
  p_udp :: string
  p_stake :: int

text \<open>
  \<open>latestBlock\<close> is \<open>None\<close> while the field holds the empty object it starts with.
  \<open>arrayTakenDecision\<close> is the object that maps a height to the decisions taken there.
\<close>

record 'db chain =
  ch_publicKey :: string
  dbBlockchain :: 'db
  dbState :: 'db
  ch_height :: int
  mapBlocks :: "(int, block) jsmap"
  latestBlock :: "block option"
  mapPeer :: "(string, peer) jsmap"
  mapHttp :: "(string, string) jsmap"
  mapUdp :: "(string, string) jsmap"
  quorumWeighted :: int
  mapModifyStake :: "(string, string list) jsmap"
  mapVoteStake :: "(string, int) jsmap"
  arrayTakenDecision :: "(int \<times> (string \<times> string) list) list"

text \<open>\<open>Server.mapStakeCredit\<close>, which \<open>modifyStake\<close> reaches through \<open>this.server\<close>.\<close>

type_synonym credits = "(string, int) jsmap"

definition incStakeCredit :: "string \<Rightarrow> credits \<Rightarrow> credits" where
  "incStakeCredit publicKey cr = jm_set publicKey (jm_get_or cr publicKey 0 + 1) cr"

section \<open>Queries\<close>

definition hasPeer :: "'db chain \<Rightarrow> string \<Rightarrow> bool" where
  "hasPeer ch publicKey = jm_has (mapPeer ch) publicKey"

definition getPeer :: "'db chain \<Rightarrow> string \<Rightarrow> peer option" where
  "getPeer ch publicKey = jm_get (mapPeer ch) publicKey"

definition getStake :: "'db chain \<Rightarrow> string \<Rightarrow> int" where
  "getStake ch publicKey = (case getPeer ch publicKey of None \<Rightarrow> 0 | Some p \<Rightarrow> p_stake p)"

definition getPublicKeyByUdp :: "'db chain \<Rightarrow> string \<Rightarrow> string" where
  "getPublicKeyByUdp ch udp = jm_get_or (mapUdp ch) udp []"

definition hasNetworkHttp :: "'db chain \<Rightarrow> string \<Rightarrow> bool" where
  "hasNetworkHttp ch http = jm_has (mapHttp ch) http"

text \<open>\<open>w > this.quorumWeighted * 0.5\<close>, on integers.\<close>

definition hasQuorumWeighted :: "'db chain \<Rightarrow> string list \<Rightarrow> bool" where
  "hasQuorumWeighted ch arrayOrigin \<longleftrightarrow>
     quorumWeighted ch < 2 * foldl (\<lambda>w origin. w + getStake ch origin) 0 arrayOrigin"

definition isDecisionTaken :: "'db chain \<Rightarrow> string \<Rightarrow> bool" where
  "isDecisionTaken ch ns \<longleftrightarrow> list_ex (\<lambda>d. fst d = ns) (concat (map snd (arrayTakenDecision ch)))"

lemma foldl_stake: "foldl (\<lambda>w x. w + f x) a xs = a + sum_list (map f xs)" for f :: "'a \<Rightarrow> int"
  by (induction xs arbitrary: a) simp_all

lemma hasQuorumWeighted_iff:
  "hasQuorumWeighted ch xs \<longleftrightarrow> quorumWeighted ch < 2 * sum_list (map (getStake ch) xs)"
  by (simp add: hasQuorumWeighted_def foldl_stake)

section \<open>Command handlers\<close>

definition updateStateData :: "'db level \<Rightarrow> string \<Rightarrow> string \<Rightarrow> 'db chain \<Rightarrow> 'db chain" where
  "updateStateData L key value ch = ch\<lparr>dbState := lv_put L key value (dbState ch)\<rparr>"

definition deleteStateData :: "'db level \<Rightarrow> string \<Rightarrow> 'db chain \<Rightarrow> 'db chain" where
  "deleteStateData L key ch = ch\<lparr>dbState := lv_del L key (dbState ch)\<rparr>"

definition STATE_PEER_IDENT :: string where
  "STATE_PEER_IDENT = ''peer:''"

definition addPeer :: "'db level \<Rightarrow> string \<Rightarrow> string \<Rightarrow> string \<Rightarrow> 'db chain \<Rightarrow> 'db chain" where
  "addPeer L http udp publicKey ch =
     (if jm_has (mapPeer ch) publicKey then ch
      else
        let peer = \<lparr>p_publicKey = publicKey, p_http = http, p_udp = udp, p_stake = 1\<rparr>;
            ch = ch\<lparr>quorumWeighted := quorumWeighted ch + p_stake peer\<rparr>;
            ch = ch\<lparr>mapPeer := jm_set publicKey peer (mapPeer ch),
                    mapHttp := jm_set (p_http peer) publicKey (mapHttp ch),
                    mapUdp := jm_set (p_udp peer) publicKey (mapUdp ch)\<rparr>
        in updateStateData L (STATE_PEER_IDENT @ publicKey) (dec_of_int (p_stake peer)) ch)"

definition removePeer :: "'db level \<Rightarrow> string \<Rightarrow> 'db chain \<Rightarrow> 'db chain" where
  "removePeer L publicKey ch =
     (case jm_get (mapPeer ch) publicKey of
        None \<Rightarrow> ch
      | Some peer \<Rightarrow>
          let ch = ch\<lparr>quorumWeighted := quorumWeighted ch - p_stake peer\<rparr>;
              ch = ch\<lparr>mapPeer := jm_delete publicKey (mapPeer ch),
                      mapHttp := jm_delete (p_http peer) (mapHttp ch),
                      mapUdp := jm_delete (p_udp peer) (mapUdp ch)\<rparr>
          in deleteStateData L (STATE_PEER_IDENT @ publicKey) ch)"

text \<open>\<open>[command.publicKey, command.ident, command.stake].join('')\<close>\<close>

definition modify_key :: "string \<Rightarrow> string \<Rightarrow> int \<Rightarrow> string" where
  "modify_key publicKey ident stake = publicKey @ ident @ dec_of_int stake"

text \<open>
  The handler writes the clamped stake back into the command object, which is the one
  in the block; the new \<open>command.stake\<close> is the first part of the result.
\<close>

definition modifyStake ::
    "'db level \<Rightarrow> string \<Rightarrow> string \<Rightarrow> string \<Rightarrow> int \<Rightarrow> 'db chain \<times> credits \<Rightarrow> int \<times> 'db chain \<times> credits" where
  "modifyStake L origin publicKey ident stake s =
     (case s of (ch, cr) \<Rightarrow>
        case jm_get (mapPeer ch) publicKey of
          None \<Rightarrow> (stake, ch, cr)
        | Some peer \<Rightarrow>
            if publicKey = origin then (stake, ch, cr)
            else
              let cr = (if publicKey = ch_publicKey ch then incStakeCredit origin cr else cr);
                  i = modify_key publicKey ident stake;
                  a = jm_get_or (mapModifyStake ch) i []
              in if origin \<in> set a then (stake, ch, cr)
                 else
                   let a = a @ [origin];
                       ch = ch\<lparr>mapModifyStake := jm_set i a (mapModifyStake ch)\<rparr>
                   in if hasQuorumWeighted ch a then
                        let ch = ch\<lparr>mapModifyStake := jm_delete i (mapModifyStake ch)\<rparr>;
                            stake = (if p_stake peer + stake < 0 then - p_stake peer else stake);
                            ch = ch\<lparr>quorumWeighted := quorumWeighted ch + stake\<rparr>;
                            peer = peer\<lparr>p_stake := p_stake peer + stake\<rparr>;
                            ch = ch\<lparr>mapPeer := jm_set publicKey peer (mapPeer ch)\<rparr>
                        in (stake,
                            updateStateData L (STATE_PEER_IDENT @ publicKey) (dec_of_int (p_stake peer)) ch, cr)
                      else (stake, ch, cr))"

definition decision_text :: "int \<Rightarrow> string \<Rightarrow> string" where
  "decision_text h d = stringify (JObj [(''h'', JNum h), (''d'', JStr d)])"

fun process_command ::
    "'db level \<Rightarrow> string \<Rightarrow> command \<Rightarrow> 'db chain \<times> credits \<Rightarrow> command \<times> 'db chain \<times> credits" where
  "process_command L origin (AddPeer s http udp k) (ch, cr) =
     (AddPeer s http udp k, addPeer L http udp k ch, cr)"
| "process_command L origin (RemovePeer s k) (ch, cr) =
     (RemovePeer s k, removePeer L k ch, cr)"
| "process_command L origin (ModifyStake s k ident stake) (ch, cr) =
     (case modifyStake L origin k ident stake (ch, cr) of
        (stake', ch', cr') \<Rightarrow> (ModifyStake s k ident stake', ch', cr'))"
| "process_command L origin (Data s ns d) (ch, cr) =
     (Data s ns d, updateStateData L (ns @ '':'' @ origin) d ch, cr)"
| "process_command L origin (Decision s ns h d) (ch, cr) =
     (Decision s ns h d,
      (if isDecisionTaken ch ns then updateStateData L ns (decision_text h d) ch else ch), cr)"
| "process_command L origin (OtherCommand s c) (ch, cr) = (OtherCommand s c, ch, cr)"

fun process_commands ::
    "'db level \<Rightarrow> string \<Rightarrow> command list \<Rightarrow> 'db chain \<times> credits \<Rightarrow> command list \<times> 'db chain \<times> credits" where
  "process_commands L origin [] s = ([], s)"
| "process_commands L origin (c # cs) s =
     (case process_command L origin c s of
        (c', s') \<Rightarrow> case process_commands L origin cs s' of (cs', s'') \<Rightarrow> (c' # cs', s''))"

fun process_txs ::
    "'db level \<Rightarrow> transaction list \<Rightarrow> 'db chain \<times> credits \<Rightarrow> transaction list \<times> 'db chain \<times> credits" where
  "process_txs L [] s = ([], s)"
| "process_txs L (t # ts) s =
     (case process_commands L (tx_origin t) (tx_commands t) s of
        (cs, s') \<Rightarrow> case process_txs L ts s' of (ts', s'') \<Rightarrow> (t\<lparr>tx_commands := cs\<rparr> # ts', s''))"

definition debug_key :: "int \<Rightarrow> string" where
  "debug_key h = ''debug-performance-'' @ dec_of_int h"

definition processState ::
    "'db level \<Rightarrow> config \<Rightarrow> int \<Rightarrow> block \<Rightarrow> 'db chain \<times> credits \<Rightarrow> block \<times> 'db chain \<times> credits" where
  "processState L cfg now block s =
     (case s of (ch, cr) \<Rightarrow>
        let ch = (if debug_performance cfg
                  then updateStateData L (debug_key (ch_height ch)) (dec_of_int now) ch
                  else ch)
        in case process_txs L (blk_tx block) (ch, cr) of
             (ts, s') \<Rightarrow> (block\<lparr>blk_tx := ts\<rparr>, s'))"

lemmas ledger_op_defs = addPeer_def removePeer_def modifyStake_def updateStateData_def
  deleteStateData_def Let_def

section \<open>Invariants of a run over a block\<close>

text \<open>
  The interface between a ledger property and the loops of \<open>processState\<close>: a property
  that every admissible command and the performance record keep is kept by the block.
\<close>

lemma snd_process_commands_Cons:
  "snd (process_commands L r (c # cs) s) = snd (process_commands L r cs (snd (process_command L r c s)))"
  by (simp split: prod.split)

lemma snd_process_txs_Cons:
  "snd (process_txs L (t # ts) s)
    = snd (process_txs L ts (snd (process_commands L (tx_origin t) (tx_commands t) s)))"
  by (simp split: prod.split)

lemma snd_processState:
  "snd (processState L cfg now b (ch, cr)) = snd (process_txs L (blk_tx b)
     (if debug_performance cfg then updateStateData L (debug_key (ch_height ch)) (dec_of_int now) ch else ch, cr))"
  by (simp add: processState_def Let_def split: prod.split)

locale ledger_invariant =
  fixes L :: "'db level"
    and admissible :: "string \<Rightarrow> command \<Rightarrow> bool"
    and P :: "'db chain \<times> credits \<Rightarrow> bool"
  assumes keep_command: "P s \<Longrightarrow> admissible origin c \<Longrightarrow> P (snd (process_command L origin c s))"
    and keep_debug: "P (ch, cr) \<Longrightarrow> P (updateStateData L (debug_key h) v ch, cr)"
begin

lemma keep_commands:
  "P s \<Longrightarrow> list_all (admissible origin) cs \<Longrightarrow> P (snd (process_commands L origin cs s))"
proof (induction cs arbitrary: s)
  case (Cons c cs)
  then have "P (snd (process_command L origin c s))" by (simp add: keep_command)
  then show ?case using Cons by (simp add: snd_process_commands_Cons del: process_commands.simps)
qed simp

lemma keep_txs:
  "P s \<Longrightarrow> list_all (\<lambda>t. list_all (admissible (tx_origin t)) (tx_commands t)) ts
    \<Longrightarrow> P (snd (process_txs L ts s))"
proof (induction ts arbitrary: s)
  case (Cons t ts)
  then have "P (snd (process_commands L (tx_origin t) (tx_commands t) s))"
    by (simp add: keep_commands)
  then show ?case using Cons by (simp add: snd_process_txs_Cons del: process_txs.simps)
qed simp

lemma keep_processState:
  assumes "P (ch, cr)"
    and "list_all (\<lambda>t. list_all (admissible (tx_origin t)) (tx_commands t)) (blk_tx b)"
    and "processState L cfg now b (ch, cr) = (b', s')"
  shows "P s'"
proof -
  let ?ch = "if debug_performance cfg
    then updateStateData L (debug_key (ch_height ch)) (dec_of_int now) ch else ch"
  have "P (?ch, cr)" using assms(1) keep_debug by simp
  then have "P (snd (process_txs L (blk_tx b) (?ch, cr)))" using assms(2) by (rule keep_txs)
  then show ?thesis
    using snd_processState [of L cfg now b ch cr] assms(3) by simp
qed

end

end
