(* ===== verification/Ledger_Inv.thy ===== *)
theory Ledger_Inv
  imports Ledger
begin

text \<open>
  The invariant of the peer maps, one preservation lemma per command handler, the
  weighted-quorum interface and its interpretation, and the facts about stake votes.
\<close>

section \<open>The invariant of the peer maps\<close>

text \<open>
  \<open>stake_inv d\<close>: the total stake is the sum over the peers, off by \<open>d\<close> (0 in normal
  operation; \<open>reset\<close> makes it something else, see \<open>Chain\<close>). \<open>net_inv\<close>: the two
  address maps point to peers that have that address.
\<close>

definition stake_inv :: "int \<Rightarrow> 'db chain \<Rightarrow> bool" where
  "stake_inv d ch \<longleftrightarrow>
     jm_wf (mapPeer ch) \<and>
     (\<forall>k p. jm_get (mapPeer ch) k = Some p \<longrightarrow> p_publicKey p = k \<and> 0 \<le> p_stake p) \<and>
     quorumWeighted ch = d + jm.total p_stake (mapPeer ch)"

definition net_inv :: "'db chain \<Rightarrow> bool" where
  "net_inv ch \<longleftrightarrow>
     (\<forall>u k. jm_get (mapUdp ch) u = Some k \<longrightarrow> (\<exists>p. jm_get (mapPeer ch) k = Some p \<and> p_udp p = u)) \<and>
     (\<forall>h k. jm_get (mapHttp ch) h = Some k \<longrightarrow> (\<exists>p. jm_get (mapPeer ch) k = Some p \<and> p_http p = h))"

definition peers_inv :: "'db chain \<Rightarrow> bool" where
  "peers_inv ch \<longleftrightarrow> stake_inv 0 ch \<and> net_inv ch"

lemma stake_invD:
  assumes "stake_inv d ch"
  shows "jm_wf (mapPeer ch)"
    and "jm_get (mapPeer ch) k = Some p \<Longrightarrow> p_publicKey p = k"
    and "jm_get (mapPeer ch) k = Some p \<Longrightarrow> 0 \<le> p_stake p"
    and "quorumWeighted ch = d + jm.total p_stake (mapPeer ch)"
  using assms by (auto simp: stake_inv_def)

lemma inv_frame [simp]:
  "stake_inv d (updateStateData L k v ch) \<longleftrightarrow> stake_inv d ch"
  "stake_inv d (deleteStateData L k ch) \<longleftrightarrow> stake_inv d ch"
  "stake_inv d (ch\<lparr>mapModifyStake := m\<rparr>) \<longleftrightarrow> stake_inv d ch"
  "net_inv (updateStateData L k v ch) \<longleftrightarrow> net_inv ch"
  "net_inv (deleteStateData L k ch) \<longleftrightarrow> net_inv ch"
  "net_inv (ch\<lparr>mapModifyStake := m\<rparr>) \<longleftrightarrow> net_inv ch"
  by (simp_all add: stake_inv_def net_inv_def updateStateData_def deleteStateData_def)

lemma addPeer_stake:
  assumes "stake_inv d ch"
  shows "stake_inv d (addPeer L http udp k ch)"
proof (cases "jm_get (mapPeer ch) k")
  case None
  then show ?thesis
    using assms jm.total_upd [OF stake_invD(1) [OF assms], of p_stake k]
    by (simp add: addPeer_def Let_def stake_inv_def updateStateData_def)
next
  case (Some p)
  then show ?thesis using assms by (simp add: addPeer_def)
qed

lemma addPeer_net: "net_inv ch \<Longrightarrow> net_inv (addPeer L http udp k ch)"
  by (force simp: addPeer_def Let_def net_inv_def updateStateData_def)

lemma removePeer_stake:
  assumes "stake_inv d ch"
  shows "stake_inv d (removePeer L k ch)"
proof (cases "jm_get (mapPeer ch) k")
  case None
  then show ?thesis using assms by (simp add: removePeer_def)
next
  case (Some p)
  then show ?thesis
    using assms jm.total_del [OF stake_invD(1) [OF assms], of p_stake k]
    by (simp add: removePeer_def Let_def stake_inv_def deleteStateData_def)
qed

lemma removePeer_net: "net_inv ch \<Longrightarrow> net_inv (removePeer L k ch)"
  by (force simp: removePeer_def Let_def net_inv_def deleteStateData_def split: option.split)

text \<open>A stake change that leaves the stake at 0 or above, with the total moved alike.\<close>

lemma set_stake_inv:
  assumes inv: "stake_inv d ch" and p: "jm_get (mapPeer ch) k = Some p" and s: "0 \<le> p_stake p + s"
  shows "stake_inv d (ch\<lparr>quorumWeighted := quorumWeighted ch + s,
    mapPeer := jm_set k (p\<lparr>p_stake := p_stake p + s\<rparr>) (mapPeer ch)\<rparr>)"
  using assms jm.total_upd [OF stake_invD(1) [OF inv], of p_stake k]
  by (fastforce simp: stake_inv_def)

text \<open>What a stake vote does, case by case.\<close>

definition clamp_stake :: "peer \<Rightarrow> int \<Rightarrow> int" where
  "clamp_stake p n = (if p_stake p + n < 0 then - p_stake p else n)"

lemma modifyStake_cases:
  assumes "modifyStake L r k i n (ch, cr) = (n', ch', cr')"
  obtains (ignored) "n' = n" "ch' = ch"
    | (recorded) "n' = n" "ch' = ch\<lparr>mapModifyStake := jm_set (modify_key k i n)
          (jm_get_or (mapModifyStake ch) (modify_key k i n) [] @ [r]) (mapModifyStake ch)\<rparr>"
    | (applied) p m where "jm_get (mapPeer ch) k = Some p" "r \<noteq> k" "n' = clamp_stake p n"
        "r \<notin> set (jm_get_or (mapModifyStake ch) (modify_key k i n) [])"
        "hasQuorumWeighted ch (jm_get_or (mapModifyStake ch) (modify_key k i n) [] @ [r])"
        "m = jm_delete (modify_key k i n) (jm_set (modify_key k i n)
          (jm_get_or (mapModifyStake ch) (modify_key k i n) [] @ [r]) (mapModifyStake ch))"
        "ch' = updateStateData L (STATE_PEER_IDENT @ k) (dec_of_int (p_stake p + clamp_stake p n))
          (ch\<lparr>mapModifyStake := m, quorumWeighted := quorumWeighted ch + clamp_stake p n,
             mapPeer := jm_set k (p\<lparr>p_stake := p_stake p + clamp_stake p n\<rparr>) (mapPeer ch)\<rparr>)"
proof (cases "jm_get (mapPeer ch) k")
  case None
  then show ?thesis using assms ignored by (simp add: modifyStake_def)
next
  case (Some p)
  let ?i = "modify_key k i n"
  let ?a = "jm_get_or (mapModifyStake ch) ?i []"
  have q: "hasQuorumWeighted (ch\<lparr>mapModifyStake := m\<rparr>) a = hasQuorumWeighted ch a" for m a
    by (simp add: hasQuorumWeighted_def getStake_def getPeer_def)
  consider "k = r \<or> r \<in> set ?a" | "k \<noteq> r" "r \<notin> set ?a" "\<not> hasQuorumWeighted ch (?a @ [r])"
    | "k \<noteq> r" "r \<notin> set ?a" "hasQuorumWeighted ch (?a @ [r])"
    by blast
  then show ?thesis
  proof cases
    case 1
    then show ?thesis using assms Some by (intro ignored) (auto simp: modifyStake_def Let_def split: if_splits)
  next
    case 2
    then show ?thesis using assms Some
      by (intro recorded) (auto simp: modifyStake_def Let_def q)
  next
    case 3
    let ?m = "jm_delete ?i (jm_set ?i (?a @ [r]) (mapModifyStake ch))"
    have "modifyStake L r k i n (ch, cr) = (clamp_stake p n,
        updateStateData L (STATE_PEER_IDENT @ k) (dec_of_int (p_stake p + clamp_stake p n))
          (ch\<lparr>mapModifyStake := ?m, quorumWeighted := quorumWeighted ch + clamp_stake p n,
             mapPeer := jm_set k (p\<lparr>p_stake := p_stake p + clamp_stake p n\<rparr>) (mapPeer ch)\<rparr>),
        if k = ch_publicKey ch then incStakeCredit r cr else cr)"
      using 3 Some unfolding modifyStake_def Let_def clamp_stake_def by (simp add: q)
    then show ?thesis
      using applied [OF Some _ _ _ _ refl] 3 assms by simp
  qed
qed

lemma modifyStake_stake:
  assumes "stake_inv d ch" and "modifyStake L r k i n (ch, cr) = (n', ch', cr')"
  shows "stake_inv d ch'"
  using assms(2)
proof (cases rule: modifyStake_cases)
  case (applied p m)
  have "stake_inv d (ch\<lparr>mapModifyStake := m\<rparr>)" using assms(1) by simp
  moreover have "0 \<le> p_stake p + clamp_stake p n" by (simp add: clamp_stake_def)
  ultimately show ?thesis
    using set_stake_inv [of d "ch\<lparr>mapModifyStake := m\<rparr>" k p "clamp_stake p n"] applied by simp
qed (use assms in simp_all)

lemma modifyStake_net:
  assumes "net_inv ch" and "modifyStake L r k i n (ch, cr) = (n', ch', cr')"
  shows "net_inv ch'"
  using assms(2)
proof (cases rule: modifyStake_cases)
  case (applied p m)
  then show ?thesis using assms(1) by (fastforce simp: net_inv_def updateStateData_def)
qed (use assms in simp_all)

lemma process_command_stake:
  assumes "stake_inv d ch" and "process_command L r c (ch, cr) = (c', ch', cr')"
  shows "stake_inv d ch'"
proof (cases c)
  case (ModifyStake s k i n)
  then show ?thesis using assms by (auto split: prod.splits dest: modifyStake_stake)
qed (use assms in \<open>auto intro: addPeer_stake removePeer_stake split: if_splits\<close>)

lemma process_command_net:
  assumes "net_inv ch" and "process_command L r c (ch, cr) = (c', ch', cr')"
  shows "net_inv ch'"
proof (cases c)
  case (ModifyStake s k i n)
  then show ?thesis using assms by (auto split: prod.splits dest: modifyStake_net)
qed (use assms in \<open>auto intro: addPeer_net removePeer_net split: if_splits\<close>)

interpretation inv_stake: ledger_invariant L "\<lambda>_ _. True" "\<lambda>s. stake_inv d (fst s)"
  for L :: "'db level" and d
proof unfold_locales
  show "stake_inv d (fst (snd (process_command L r c s)))" if "stake_inv d (fst s)" for s r c
    using that process_command_stake [of d "fst s" L r c "snd s"]
    by (cases "process_command L r c s") auto
qed simp

interpretation inv_net: ledger_invariant L "\<lambda>_ _. True" "\<lambda>s. net_inv (fst s)" for L :: "'db level"
proof unfold_locales
  show "net_inv (fst (snd (process_command L r c s)))" if "net_inv (fst s)" for s r c
    using that process_command_net [of "fst s" L r c "snd s"]
    by (cases "process_command L r c s") auto
qed simp

lemma processState_stake:
  "stake_inv d ch \<Longrightarrow> processState L cfg now b (ch, cr) = (b', ch', cr') \<Longrightarrow> stake_inv d ch'"
  using inv_stake.keep_processState [of d ch cr b L cfg now b' "(ch', cr')"] by (simp add: list_all_iff)

lemma processState_net:
  "net_inv ch \<Longrightarrow> processState L cfg now b (ch, cr) = (b', ch', cr') \<Longrightarrow> net_inv ch'"
  using inv_net.keep_processState [of ch cr b L cfg now b' "(ch', cr')"] by (simp add: list_all_iff)

section \<open>Weighted quorums\<close>

locale weighted_quorum =
  fixes members :: "'s \<Rightarrow> 'p set"
    and weight :: "'s \<Rightarrow> 'p \<Rightarrow> int"
    and total :: "'s \<Rightarrow> int"
    and ok :: "'s \<Rightarrow> bool"
  assumes finite_members: "ok s \<Longrightarrow> finite (members s)"
    and weight_nonneg: "ok s \<Longrightarrow> 0 \<le> weight s p"
    and weight_outside: "ok s \<Longrightarrow> p \<notin> members s \<Longrightarrow> weight s p = 0"
    and total_weight: "ok s \<Longrightarrow> total s = (\<Sum>p \<in> members s. weight s p)"
begin

definition quorum :: "'s \<Rightarrow> 'p list \<Rightarrow> bool" where
  "quorum s xs \<longleftrightarrow> total s < 2 * sum_list (map (weight s) xs)"

lemma weight_of_set:
  assumes "ok s" and "distinct xs"
  shows "sum_list (map (weight s) xs) = (\<Sum>p \<in> set xs \<inter> members s. weight s p)"
proof -
  have "sum_list (map (weight s) xs) = (\<Sum>p \<in> set xs. weight s p)"
    using assms(2) by (simp add: sum_list_distinct_conv_sum_set)
  also have "\<dots> = (\<Sum>p \<in> set xs \<inter> members s. weight s p)"
    using assms(1) by (intro sum.mono_neutral_right) (auto simp: weight_outside)
  finally show ?thesis .
qed

lemma total_nonneg: "ok s \<Longrightarrow> 0 \<le> total s"
  by (simp add: total_weight weight_nonneg sum_nonneg)

text \<open>Two quorums without repetitions share a member that holds weight.\<close>

lemma quorums_meet:
  assumes ok: "ok s" and d: "distinct xs" "distinct ys" and q: "quorum s xs" "quorum s ys"
  shows "\<exists>p. p \<in> set xs \<and> p \<in> set ys \<and> 0 < weight s p"
proof (rule ccontr)
  assume "\<not> ?thesis"
  then have none: "weight s p = 0" if "p \<in> set xs" "p \<in> set ys" for p
    using that weight_nonneg [OF ok, of p] by force
  let ?X = "set xs \<inter> members s" and ?Y = "set ys \<inter> members s"
  have fin: "finite ?X" "finite ?Y" using finite_members [OF ok] by auto
  have "sum (weight s) ?X + sum (weight s) ?Y = sum (weight s) (?X \<union> ?Y) + sum (weight s) (?X \<inter> ?Y)"
    using fin by (simp add: sum.union_inter)
  moreover have "sum (weight s) (?X \<inter> ?Y) = 0" using none by (intro sum.neutral) auto
  moreover have "sum (weight s) (?X \<union> ?Y) \<le> total s"
    unfolding total_weight [OF ok] using finite_members [OF ok]
    by (intro sum_mono2) (auto simp: weight_nonneg [OF ok])
  moreover have "total s < 2 * sum (weight s) ?X" "total s < 2 * sum (weight s) ?Y"
    using q d ok by (simp_all add: quorum_def weight_of_set)
  ultimately show False by linarith
qed

lemma quorum_mono:
  assumes "ok s" and "distinct xs" and "distinct ys" and "set xs \<subseteq> set ys" and "quorum s xs"
  shows "quorum s ys"
proof -
  have "sum_list (map (weight s) xs) \<le> sum_list (map (weight s) ys)"
    using assms finite_members [OF assms(1)]
    by (simp add: weight_of_set) (rule sum_mono2, auto simp: weight_nonneg)
  then show ?thesis using assms(5) by (simp add: quorum_def)
qed

lemma quorum_weight: "ok s \<Longrightarrow> quorum s xs \<Longrightarrow> 0 < sum_list (map (weight s) xs)"
  using total_nonneg [of s] by (simp add: quorum_def)

lemma members_quorum:
  assumes "ok s" and "distinct xs" and "members s \<subseteq> set xs" and "0 < total s"
  shows "quorum s xs"
proof -
  have "set xs \<inter> members s = members s" using assms(3) by auto
  then show ?thesis using assms by (simp add: quorum_def weight_of_set total_weight)
qed

end

lemma getStake_get: "getStake ch k = (case jm_get (mapPeer ch) k of None \<Rightarrow> 0 | Some p \<Rightarrow> p_stake p)"
  by (simp add: getStake_def getPeer_def)

interpretation wq: weighted_quorum "\<lambda>ch. dom (jm_get (mapPeer ch))" getStake quorumWeighted "stake_inv 0"
proof unfold_locales
  fix ch :: "'a chain" and k
  assume inv: "stake_inv 0 ch"
  show "finite (dom (jm_get (mapPeer ch)))"
    using inv by (intro jm.finite_dom stake_invD)
  show "0 \<le> getStake ch k"
    using inv by (auto simp: getStake_get stake_inv_def split: option.split)
  show "k \<notin> dom (jm_get (mapPeer ch)) \<Longrightarrow> getStake ch k = 0"
    by (auto simp: getStake_get dom_def)
  have "quorumWeighted ch = (\<Sum>k \<in> dom (jm_get (mapPeer ch)). p_stake (the (jm_get (mapPeer ch) k)))"
    using inv by (simp add: stake_invD(4) jm.total_alt stake_invD(1))
  also have "\<dots> = (\<Sum>k \<in> dom (jm_get (mapPeer ch)). getStake ch k)"
    by (intro sum.cong) (auto simp: getStake_get)
  finally show "quorumWeighted ch = (\<Sum>k \<in> dom (jm_get (mapPeer ch)). getStake ch k)" .
qed

lemma hasQuorumWeighted_quorum: "hasQuorumWeighted ch xs \<longleftrightarrow> wq.quorum ch xs"
  by (simp add: hasQuorumWeighted_iff wq.quorum_def)

section \<open>What a block leaves alone\<close>

definition same_frame :: "'db chain \<Rightarrow> 'db chain \<Rightarrow> bool" where
  "same_frame ch ch' \<longleftrightarrow>
     ch_publicKey ch' = ch_publicKey ch \<and> dbBlockchain ch' = dbBlockchain ch \<and>
     ch_height ch' = ch_height ch \<and> mapBlocks ch' = mapBlocks ch \<and>
     latestBlock ch' = latestBlock ch \<and> mapVoteStake ch' = mapVoteStake ch \<and>
     arrayTakenDecision ch' = arrayTakenDecision ch"

lemma same_frame_refl [simp]: "same_frame ch ch"
  by (simp add: same_frame_def)

lemma modifyStake_frame:
  assumes "modifyStake L r k i n (ch, cr) = (n', ch', cr')"
  shows "same_frame ch ch'"
  using assms by (cases rule: modifyStake_cases) (simp_all add: same_frame_def updateStateData_def)

lemma process_command_frame:
  "process_command L r c (ch, cr) = (c', ch', cr') \<Longrightarrow> same_frame ch ch'"
proof (cases c)
  case (ModifyStake s k i n)
  assume "process_command L r c (ch, cr) = (c', ch', cr')"
  then show ?thesis using ModifyStake by (auto split: prod.splits dest: modifyStake_frame)
qed (auto simp: addPeer_def removePeer_def updateStateData_def deleteStateData_def same_frame_def Let_def
  split: option.splits if_splits)

interpretation inv_frame: ledger_invariant L "\<lambda>_ _. True" "\<lambda>s. same_frame ch0 (fst s)"
  for L :: "'db level" and ch0
proof unfold_locales
  show "same_frame ch0 (fst (snd (process_command L origin c s)))" if "same_frame ch0 (fst s)" for s origin c
    using that process_command_frame [of L origin c "fst s" "snd s"]
    by (cases "process_command L origin c s") (auto simp: same_frame_def)
qed (simp add: same_frame_def updateStateData_def)

lemma processState_frame:
  "processState L cfg now b (ch, cr) = (b', ch', cr') \<Longrightarrow> same_frame ch ch'"
  using inv_frame.keep_processState [of ch ch cr b L cfg now b' "(ch', cr')"] by (simp add: list_all_iff)

lemma processState_block:
  assumes "processState L cfg now b s = (b', s')"
  shows "blk_height b' = blk_height b" "blk_hash b' = blk_hash b"
    "blk_previousHash b' = blk_previousHash b" "blk_votes b' = blk_votes b" "blk_version b' = blk_version b"
  using assms by (auto simp: processState_def Let_def split: prod.splits)

section \<open>The state database shows the peers\<close>

definition state_mirror :: "'db level \<Rightarrow> 'db chain \<Rightarrow> bool" where
  "state_mirror L ch \<longleftrightarrow> arrayTakenDecision ch = [] \<and>
     (\<forall>k. CHR '':'' \<notin> set k \<longrightarrow>
        lv_get L (dbState ch) (STATE_PEER_IDENT @ k)
          = map_option (\<lambda>p. dec_of_int (p_stake p)) (jm_get (mapPeer ch) k))"

lemma split_on_no_sep: "c \<notin> set s \<Longrightarrow> split_on c s = [s]"
  by (induction s) auto

lemma pattern_ns_colon: "pattern_ns s \<Longrightarrow> CHR '':'' \<in> set s"
  by (rule ccontr) (simp add: pattern_ns_def Let_def split_on_no_sep)

text \<open>A data record cannot take the key of a peer: its key holds two colons.\<close>

lemma data_key_not_peer_key:
  assumes "pattern_ns ns" and "CHR '':'' \<notin> set k"
  shows "ns @ '':'' @ origin \<noteq> STATE_PEER_IDENT @ k"
proof
  assume "ns @ '':'' @ origin = STATE_PEER_IDENT @ k"
  then have "count_list (ns @ '':'' @ origin) (CHR '':'') = count_list (STATE_PEER_IDENT @ k) (CHR '':'')"
    by simp
  moreover have "1 \<le> count_list ns (CHR '':'')"
    using pattern_ns_colon [OF assms(1)] by (simp add: Suc_le_eq count_list_0_iff flip: neq0_conv)
  moreover have "count_list k (CHR '':'') = 0" using assms(2) by (simp add: count_list_0_iff)
  ultimately show False by (simp add: STATE_PEER_IDENT_def)
qed

lemma debug_key_not_peer_key [simp]: "debug_key h \<noteq> STATE_PEER_IDENT @ k"
  by (simp add: debug_key_def STATE_PEER_IDENT_def)

lemma modifyStake_mirror:
  assumes "level_ok L" and "state_mirror L ch" and "modifyStake L r k i n (ch, cr) = (n', ch', cr')"
  shows "state_mirror L ch'"
  using assms(3)
proof (cases rule: modifyStake_cases)
  case (applied p m)
  then show ?thesis
    using assms by (auto simp: state_mirror_def updateStateData_def level_okD(3) [OF assms(1)])
qed (use assms in \<open>simp_all add: state_mirror_def\<close>)

lemma process_command_mirror:
  assumes L: "level_ok L" and "state_mirror L ch" and "schema_command c"
    and "process_command L r c (ch, cr) = (c', ch', cr')"
  shows "state_mirror L ch'"
proof (cases c)
  case (ModifyStake s k i n)
  then show ?thesis using assms by (auto split: prod.splits dest: modifyStake_mirror)
next
  case (Data s ns d)
  then have "pattern_ns ns" using assms(3) by (simp add: schema_data_def)
  from data_key_not_peer_key [OF this] show ?thesis
    using Data assms by (force simp: updateStateData_def state_mirror_def level_okD(3) [OF L])
next
  case (Decision s ns h d)
  then show ?thesis using assms
    by (auto simp: state_mirror_def isDecisionTaken_def split: if_splits)
qed (use assms in \<open>auto simp: addPeer_def removePeer_def updateStateData_def deleteStateData_def
  state_mirror_def Let_def level_okD(3,4) [OF L] split: option.splits if_splits\<close>)

text \<open>The law about the store is a premise of the property, so that the locale has one parameter less.\<close>

interpretation inv_mirror: ledger_invariant L "\<lambda>_ c. schema_command c"
    "\<lambda>s. level_ok L \<and> state_mirror L (fst s)" for L :: "'db level"
proof unfold_locales
  show "level_ok L \<and> state_mirror L (fst (snd (process_command L origin c s)))"
    if "level_ok L \<and> state_mirror L (fst s)" and "schema_command c" for s origin c
    using that process_command_mirror [of L "fst s" c origin "snd s"]
    by (cases "process_command L origin c s") auto
  show "level_ok L \<and> state_mirror L (fst (updateStateData L (debug_key h) v ch, cr))"
    if "level_ok L \<and> state_mirror L (fst (ch, cr))" for ch cr h v
    using that by (auto simp: state_mirror_def updateStateData_def level_okD(3) not_sym [OF debug_key_not_peer_key])
qed

lemma processState_mirror:
  assumes "level_ok L" and "state_mirror L ch" and "list_all schema_tx (blk_tx b)"
    and "processState L cfg now b (ch, cr) = (b', ch', cr')"
  shows "state_mirror L ch'"
  using assms inv_mirror.keep_processState [of L ch cr b cfg now b' "(ch', cr')"]
  by (simp add: list_all_iff schema_tx_def)

section \<open>Stake votes\<close>

text \<open>No origin is counted twice for one proposal.\<close>

definition votes_inv :: "'db chain \<Rightarrow> bool" where
  "votes_inv ch \<longleftrightarrow> (\<forall>i a. jm_get (mapModifyStake ch) i = Some a \<longrightarrow> distinct a)"

lemma modifyStake_votes:
  "votes_inv ch \<Longrightarrow> modifyStake L r k i n (ch, cr) = (n', ch', cr') \<Longrightarrow> votes_inv ch'"
  by (auto simp: modifyStake_def updateStateData_def votes_inv_def jm_get_or_def Let_def
      split: option.splits if_splits)

text \<open>The stake of a peer changes only when a quorum of distinct origins asked for it.\<close>

lemma modifyStake_needs_quorum:
  assumes "votes_inv ch" and "modifyStake L r k i n (ch, cr) = (n', ch', cr')"
    and "getStake ch' j \<noteq> getStake ch j"
  shows "\<exists>a. distinct a \<and> r \<in> set a \<and> hasQuorumWeighted ch a \<and> j = k \<and> r \<noteq> k"
  using assms(2)
proof (cases rule: modifyStake_cases)
  case (applied p m)
  let ?a = "jm_get_or (mapModifyStake ch) (modify_key k i n) [] @ [r]"
  have "distinct ?a"
    using assms(1) applied(4) by (auto simp: votes_inv_def jm_get_or_def split: option.splits)
  moreover have "j = k"
    using assms(3) applied by (auto simp: getStake_get updateStateData_def split: if_splits)
  ultimately show ?thesis using applied by (intro exI [of _ ?a]) simp
qed (use assms(3) in \<open>simp_all add: getStake_def getPeer_def\<close>)

interpretation inv_votes: ledger_invariant L "\<lambda>_ _. True" "\<lambda>s. votes_inv (fst s)" for L :: "'db level"
proof unfold_locales
  fix s :: "'db chain \<times> credits" and origin c
  assume v: "votes_inv (fst s)"
  show "votes_inv (fst (snd (process_command L origin c s)))"
  proof (cases c)
    case (ModifyStake q k i n)
    then show ?thesis
      using v modifyStake_votes [of "fst s" L origin k i n "snd s"] by (cases s) (auto split: prod.splits)
  qed (cases s; use v in \<open>auto simp: addPeer_def removePeer_def updateStateData_def deleteStateData_def
    votes_inv_def Let_def split: option.splits\<close>)+
qed (simp add: votes_inv_def updateStateData_def)

text \<open>
  The key of a proposal is a plain concatenation. It tells proposals apart only where
  the identifier does not end in a digit or a minus sign.
\<close>

definition ident_closed :: "string \<Rightarrow> bool" where
  "ident_closed i \<longleftrightarrow> i \<noteq> [] \<and> \<not> is_digit (last i) \<and> last i \<noteq> CHR ''-''"

lemma dec_of_int_chars: "c \<in> set (dec_of_int n) \<Longrightarrow> is_digit c \<or> c = CHR ''-''"
  using digits_dec_of_nat by (auto simp: dec_of_int_def list_all_iff split: if_splits)

lemma modify_key_inject:
  assumes "modify_key k i n = modify_key k' i' n'" and "length k = length k'"
    and "ident_closed i" and "ident_closed i'"
  shows "k = k' \<and> i = i' \<and> n = n'"
proof -
  let ?num = "\<lambda>c. is_digit c \<or> c = CHR ''-''"
  have k: "k = k'" and rest: "i @ dec_of_int n = i' @ dec_of_int n'"
    using assms(1,2) by (simp_all add: modify_key_def)
  have tail: "takeWhile ?num (rev (j @ dec_of_int m)) = rev (dec_of_int m)" if "ident_closed j" for j m
  proof -
    have "takeWhile ?num (rev (dec_of_int m) @ rev j) = rev (dec_of_int m) @ takeWhile ?num (rev j)"
      using dec_of_int_chars by (intro takeWhile_append2) auto
    moreover have "takeWhile ?num (rev j) = []"
      using that by (cases j rule: rev_cases) (auto simp: ident_closed_def)
    ultimately show ?thesis by simp
  qed
  have "rev (dec_of_int n) = rev (dec_of_int n')"
    using tail [OF assms(3), of n] tail [OF assms(4), of n'] rest by simp
  then have "n = n'" by simp
  then show ?thesis using k rest by simp
qed

end
