(* ===== verification/Validation.thy ===== *)
theory Validation
  imports Ledger_Inv
begin

text \<open>
  \<open>validateTx\<close> and \<open>validateBlock\<close> of \<open>src/net/validation.ts\<close>. The loops with their
  early returns are recursive functions; \<open>validateBlock_iff\<close> says what they decide.
  The lemmas bind a signature to height and commands, and derive what two blocks that
  pass against the same ledger must share.
\<close>

section \<open>Transactions\<close>

definition command_allowed :: "'db chain \<Rightarrow> int \<Rightarrow> transaction \<Rightarrow> command \<Rightarrow> bool" where
  "command_allowed ch height tx c =
     (case c of
        AddPeer s h u k \<Rightarrow> True
      | ModifyStake s k i n \<Rightarrow> True
      | Data s n d \<Rightarrow> True
      | RemovePeer s k \<Rightarrow> tx_origin tx = k
      | Decision s n h d \<Rightarrow> height \<le> h \<and> \<not> isDecisionTaken ch n
      | OtherCommand s x \<Rightarrow> False)"

definition validateTx :: "crypto \<Rightarrow> 'db chain \<Rightarrow> int \<Rightarrow> transaction \<Rightarrow> bool" where
  "validateTx C ch height tx \<longleftrightarrow>
     schema_tx tx \<and>
     0 < height \<and>
     verifySignature C (tx_origin tx) (tx_sig tx) (signed_data height (tx_commands tx)) \<and>
     length (filter (command_allowed ch height tx) (tx_commands tx)) = length (tx_commands tx)"

lemma validateTx_iff:
  "validateTx C ch height tx \<longleftrightarrow> schema_tx tx \<and> 0 < height \<and>
     verifySignature C (tx_origin tx) (tx_sig tx) (signed_data height (tx_commands tx)) \<and>
     (\<forall>c \<in> set (tx_commands tx). command_allowed ch height tx c)"
proof -
  have "length (filter P xs) = length xs \<longleftrightarrow> (\<forall>x \<in> set xs. P x)" for P :: "command \<Rightarrow> bool" and xs
    by (metis filter_id_conv length_filter_less nat_less_le)
  then show ?thesis by (simp add: validateTx_def)
qed

section \<open>Blocks\<close>

fun check_txs :: "crypto \<Rightarrow> 'db chain \<Rightarrow> int \<Rightarrow> string list \<Rightarrow> transaction list \<Rightarrow> bool" where
  "check_txs C ch height seen [] = True"
| "check_txs C ch height seen (t # ts) =
     (if tx_origin t \<in> set seen then False
      else if \<not> validateTx C ch height t then False
      else check_txs C ch height (seen @ [tx_origin t]) ts)"

fun check_votes :: "crypto \<Rightarrow> string \<Rightarrow> string list \<Rightarrow> vote list \<Rightarrow> bool" where
  "check_votes C hash seen [] = True"
| "check_votes C hash seen (v # vs) =
     (if vote_origin v \<in> set seen then False
      else if \<not> verifySignature C (vote_origin v) (vote_sig v) hash then False
      else check_votes C hash (seen @ [vote_origin v]) vs)"

definition validateBlock :: "crypto \<Rightarrow> 'db chain \<Rightarrow> block \<Rightarrow> bool \<Rightarrow> bool" where
  "validateBlock C ch b doVoteValidation =
     (if blk_tx b = [] then False
      else if Util_hash C (block_hash_input (blk_version b) (blk_previousHash b) (blk_tx b) (blk_height b))
                \<noteq> blk_hash b then False
      else if \<not> check_txs C ch (blk_height b) [] (blk_tx b) then False
      else if doVoteValidation then
        (if \<not> check_votes C (blk_hash b) [] (blk_votes b) then False
         else if \<not> hasQuorumWeighted ch (map vote_origin (blk_votes b)) then False
         else True)
      else True)"

lemma check_txs_iff:
  "check_txs C ch height seen ts \<longleftrightarrow>
     distinct (map tx_origin ts) \<and> set seen \<inter> tx_origin ` set ts = {} \<and>
     (\<forall>t \<in> set ts. validateTx C ch height t)"
  by (induction C ch height seen ts rule: check_txs.induct) auto

lemma check_votes_iff:
  "check_votes C hash seen vs \<longleftrightarrow>
     distinct (map vote_origin vs) \<and> set seen \<inter> vote_origin ` set vs = {} \<and>
     (\<forall>v \<in> set vs. verifySignature C (vote_origin v) (vote_sig v) hash)"
  by (induction C hash seen vs rule: check_votes.induct) auto

definition block_hash_ok :: "crypto \<Rightarrow> block \<Rightarrow> bool" where
  "block_hash_ok C b \<longleftrightarrow>
     blk_hash b = Util_hash C (block_hash_input (blk_version b) (blk_previousHash b) (blk_tx b) (blk_height b))"

definition votes_ok :: "crypto \<Rightarrow> 'db chain \<Rightarrow> block \<Rightarrow> bool" where
  "votes_ok C ch b \<longleftrightarrow> distinct (map vote_origin (blk_votes b)) \<and>
     (\<forall>v \<in> set (blk_votes b). verifySignature C (vote_origin v) (vote_sig v) (blk_hash b)) \<and>
     hasQuorumWeighted ch (map vote_origin (blk_votes b))"

lemma validateBlock_iff:
  "validateBlock C ch b doVotes \<longleftrightarrow>
     blk_tx b \<noteq> [] \<and> block_hash_ok C b \<and> distinct (map tx_origin (blk_tx b)) \<and>
     (\<forall>t \<in> set (blk_tx b). validateTx C ch (blk_height b) t) \<and>
     (doVotes \<longrightarrow> votes_ok C ch b)"
  by (auto simp: validateBlock_def check_txs_iff check_votes_iff block_hash_ok_def votes_ok_def)

lemma validateBlock_schema: "validateBlock C ch b d \<Longrightarrow> list_all schema_tx (blk_tx b)"
  by (simp add: validateBlock_iff validateTx_def list_all_iff)

text \<open>Validation reads the peers and the decisions only.\<close>

lemma validateTx_cong:
  "arrayTakenDecision ch' = arrayTakenDecision ch \<Longrightarrow> validateTx C ch' h t = validateTx C ch h t"
proof -
  assume "arrayTakenDecision ch' = arrayTakenDecision ch"
  then have "command_allowed ch' h t = command_allowed ch h t"
    by (intro ext) (simp add: command_allowed_def isDecisionTaken_def split: command.split)
  then show ?thesis by (simp add: validateTx_def)
qed

section \<open>What a signature covers\<close>

lemma stringify_commands_start: "\<exists>s. stringify (json_of_commands cs) = CHR ''['' # s"
  by (simp add: json_of_commands_def)

lemma signed_data_inject:
  assumes "signed_data h cs = signed_data h' cs'"
  shows "h = h' \<and> cs = cs'"
proof -
  obtain s s' where s: "stringify (json_of_commands cs) = CHR ''['' # s"
    "stringify (json_of_commands cs') = CHR ''['' # s'"
    using stringify_commands_start by metis
  have "CHR ''['' \<notin> set (dec_of_int i)" for i
    using dec_of_int_chars [of "CHR ''[''" i] by auto
  then have "dec_of_int h = dec_of_int h'" "s = s'"
    using assms append_sep_inject [of "dec_of_int h" "CHR ''[''" s "dec_of_int h'" s']
    by (auto simp: signed_data_def s)
  then have "h = h'" "stringify (json_of_commands cs) = stringify (json_of_commands cs')"
    using s by simp_all
  then show ?thesis by simp
qed

section \<open>Two valid blocks share a staked voter\<close>

lemma valid_blocks_share_voter:
  assumes "stake_inv 0 ch" and "votes_ok C ch b1" and "votes_ok C ch b2"
  shows "\<exists>v1 v2. v1 \<in> set (blk_votes b1) \<and> v2 \<in> set (blk_votes b2) \<and>
    vote_origin v1 = vote_origin v2 \<and> 0 < getStake ch (vote_origin v1) \<and>
    verifySignature C (vote_origin v1) (vote_sig v1) (blk_hash b1) \<and>
    verifySignature C (vote_origin v2) (vote_sig v2) (blk_hash b2)"
proof -
  obtain k where "k \<in> set (map vote_origin (blk_votes b1))" "k \<in> set (map vote_origin (blk_votes b2))"
    and pos: "0 < getStake ch k"
    using wq.quorums_meet [OF assms(1), of "map vote_origin (blk_votes b1)" "map vote_origin (blk_votes b2)"]
      assms(2,3) by (auto simp: votes_ok_def hasQuorumWeighted_quorum)
  then obtain v1 v2 where "v1 \<in> set (blk_votes b1)" "v2 \<in> set (blk_votes b2)"
    "vote_origin v1 = k" "vote_origin v2 = k" by auto
  then show ?thesis using assms(2,3) pos unfolding votes_ok_def by metis
qed

end
