(* ===== verification/Chain.thy ===== *)
theory Chain
  imports Validation
begin

text \<open>
  The chain part of \<open>src/chain/blockchain.ts\<close>: \<open>add\<close>, \<open>updateCache\<close>, \<open>init\<close>,
  \<open>clear\<close>, \<open>reset\<close>. The call \<open>this.server.proposeModifyStake(...)\<close> is the argument
  \<open>propose\<close>; the state \<open>'s\<close> it reaches (the rest of the node) is passed along. The
  lemmas show that blocks are linked, that the cache holds the latest blocks in order
  of height, and what \<open>reset\<close> forgets to reset.
\<close>

section \<open>Operations\<close>

type_synonym ('db, 's) propose =
  "'db chain \<Rightarrow> string \<Rightarrow> string \<Rightarrow> int \<Rightarrow> credits \<times> 's \<Rightarrow> (bool \<times> credits \<times> 's) result"

definition block_key :: "int \<Rightarrow> string" where
  "block_key h = padStart 16 (CHR ''0'') (dec_of_int h)"

definition updateBlockData :: "'db level \<Rightarrow> string \<Rightarrow> string \<Rightarrow> 'db chain \<Rightarrow> 'db chain" where
  "updateBlockData L key data ch = ch\<lparr>dbBlockchain := lv_put L key data (dbBlockchain ch)\<rparr>"

text \<open>
  How often the character at position \<open>height % hash.length\<close> occurs in the hash (a
  string over the base64url alphabet, none of whose characters is special in a regular
  expression). The empty pattern matches the empty hash once.
\<close>

definition hash_match_count :: "block \<Rightarrow> nat" where
  "hash_match_count b =
     (let h = blk_hash b
      in if h = [] then 1 else count_list h (h ! nat (blk_height b mod int (length h))))"

definition cmp_votes :: "string \<times> int \<Rightarrow> string \<times> int \<Rightarrow> int" where
  "cmp_votes a b = (if snd a > snd b then - 1 else if snd a = snd b \<and> fst a > fst b then - 1 else 1)"

definition count_vote :: "'db chain \<Rightarrow> vote \<Rightarrow> (string, int) jsmap \<Rightarrow> (string, int) jsmap" where
  "count_vote ch v m =
     (if hasPeer ch (vote_origin v) then jm_set (vote_origin v) (jm_get_or m (vote_origin v) 0 + 1) m else m)"

definition stake_candidates :: "'db chain \<Rightarrow> (string \<times> int) list" where
  "stake_candidates ch = js_sort cmp_votes (filter (\<lambda>a. fst a \<noteq> ch_publicKey ch) (mapVoteStake ch))"

definition cache_block :: "config \<Rightarrow> block \<Rightarrow> 'db chain \<Rightarrow> 'db chain" where
  "cache_block cfg b ch =
     (let ch = ch\<lparr>ch_height := blk_height b, latestBlock := Some b\<rparr>;
          m = jm_set (ch_height ch) b (mapBlocks ch);
          m = (if int (jm_size m) > blockchain_max_blocks_in_memory cfg
               then jm_delete (ch_height ch - blockchain_max_blocks_in_memory cfg) m else m)
      in ch\<lparr>mapBlocks := m\<rparr>)"

definition updateCache ::
    "config \<Rightarrow> ('db, 's) propose \<Rightarrow> block \<Rightarrow> 'db chain \<times> credits \<times> 's \<Rightarrow> ('db chain \<times> credits \<times> 's) result" where
  "updateCache cfg propose b st =
     (case st of (ch, cr, s) \<Rightarrow>
        let ch = cache_block cfg b ch;
            ch = ch\<lparr>mapVoteStake := foldl (\<lambda>m v. count_vote ch v m) (mapVoteStake ch) (blk_votes b)\<rparr>
        in if 0 < jm_size (mapVoteStake ch) \<and> STAKE_VOTE_MATCH_THRESHOLD \<le> hash_match_count b then
             (case stake_candidates ch of
                [] \<Rightarrow> Inl TypeError
              | vs0 # _ \<Rightarrow>
                  bindr (propose ch (fst vs0) STAKE_VOTE_IDENT STAKE_VOTE_AMOUNT (cr, s))
                    (\<lambda>(ok, cr, s).
                       Inr (if ok then ch\<lparr>mapVoteStake := jm_delete (fst vs0) (mapVoteStake ch)\<rparr> else ch,
                            cr, s)))
           else Inr (ch, cr, s))"

text \<open>
  \<open>add\<close>: the block in the result is the argument object as \<open>processState\<close> leaves it,
  which the cache then holds; the database holds the text from before.
\<close>

definition add_guard :: "crypto \<Rightarrow> 'db chain \<Rightarrow> block \<Rightarrow> bool" where
  "add_guard C ch b \<longleftrightarrow>
     \<not> (ch_height ch + 1 \<noteq> blk_height b \<or>
        Some (blk_previousHash b) \<noteq> map_option blk_hash (latestBlock ch) \<or>
        \<not> validateBlock C ch b True)"

definition chain_add ::
    "crypto \<Rightarrow> 'db level \<Rightarrow> config \<Rightarrow> ('db, 's) propose \<Rightarrow> int \<Rightarrow> block \<Rightarrow> 'db chain \<times> credits \<times> 's
      \<Rightarrow> (bool \<times> block \<times> 'db chain \<times> credits \<times> 's) result" where
  "chain_add C L cfg propose now b st =
     (case st of (ch, cr, s) \<Rightarrow>
        if \<not> add_guard C ch b then Inr (False, b, ch, cr, s)
        else
          let ch = updateBlockData L (block_key (blk_height b)) (block_text b) ch
          in case processState L cfg now b (ch, cr) of
               (b', ch, cr) \<Rightarrow>
                 bindr (updateCache cfg propose b' (ch, cr, s)) (\<lambda>st. Inr (True, b', st)))"

text \<open>
  \<open>init\<close> replays the store. Here the cache is updated first; the object in the cache is
  the one \<open>processState\<close> then writes to, so the cached block is replaced by its result.
\<close>

definition refresh_cached :: "block \<Rightarrow> 'db chain \<Rightarrow> 'db chain" where
  "refresh_cached b ch =
     ch\<lparr>latestBlock := Some b,
        mapBlocks := (if jm_has (mapBlocks ch) (blk_height b)
                      then jm_set (blk_height b) b (mapBlocks ch) else mapBlocks ch)\<rparr>"

fun init_loop ::
    "'db level \<Rightarrow> config \<Rightarrow> ('db, 's) propose \<Rightarrow> int \<Rightarrow> string list \<Rightarrow> 'db chain \<times> credits \<times> 's
      \<Rightarrow> ('db chain \<times> credits \<times> 's) result" where
  "init_loop L cfg propose now [] st = Inr st"
| "init_loop L cfg propose now (value # vs) st =
     bindr (block_of_text value) (\<lambda>b.
       bindr (updateCache cfg propose b st) (\<lambda>(ch, cr, s).
         case processState L cfg now b (ch, cr) of
           (b', ch, cr) \<Rightarrow> init_loop L cfg propose now vs (refresh_cached b' ch, cr, s)))"

definition chain_init ::
    "'db level \<Rightarrow> config \<Rightarrow> ('db, 's) propose \<Rightarrow> int \<Rightarrow> 'db chain \<times> credits \<times> 's
      \<Rightarrow> ('db chain \<times> credits \<times> 's) result" where
  "chain_init L cfg propose now st =
     (case st of (ch, cr, s) \<Rightarrow>
        let ch = ch\<lparr>ch_height := 0, mapBlocks := jm_empty, latestBlock := None,
                    dbState := lv_clear L (dbState ch)\<rparr>
        in init_loop L cfg propose now (lv_values L (dbBlockchain ch)) (ch, cr, s))"

definition chain_clear :: "'db level \<Rightarrow> 'db chain \<Rightarrow> 'db chain" where
  "chain_clear L ch =
     ch\<lparr>dbBlockchain := lv_clear L (dbBlockchain ch), dbState := lv_clear L (dbState ch),
        ch_height := 0, mapBlocks := jm_empty, latestBlock := None, mapPeer := jm_empty\<rparr>"

definition chain_reset ::
    "'db level \<Rightarrow> config \<Rightarrow> ('db, 's) propose \<Rightarrow> int \<Rightarrow> block \<Rightarrow> 'db chain \<times> credits \<times> 's
      \<Rightarrow> ('db chain \<times> credits \<times> 's) result" where
  "chain_reset L cfg propose now genesis st =
     (case st of (ch, cr, s) \<Rightarrow>
        let ch = chain_clear L ch;
            ch = updateBlockData L (block_key 1) (block_text genesis) ch
        in chain_init L cfg propose now (ch, cr, s))"

text \<open>The fields a \<open>Blockchain\<close> object starts with.\<close>

definition chain_new :: "string \<Rightarrow> 'db \<Rightarrow> 'db \<Rightarrow> 'db chain" where
  "chain_new publicKey dbb dbs =
     \<lparr>ch_publicKey = publicKey, dbBlockchain = dbb, dbState = dbs, ch_height = 0,
      mapBlocks = jm_empty, latestBlock = None, mapPeer = jm_empty, mapHttp = jm_empty,
      mapUdp = jm_empty, quorumWeighted = 0, mapModifyStake = jm_empty,
      mapVoteStake = jm_empty, arrayTakenDecision = []\<rparr>"

section \<open>The order of stake candidates\<close>

definition votes_le :: "string \<times> int \<Rightarrow> string \<times> int \<Rightarrow> bool" where
  "votes_le a b \<longleftrightarrow> snd b < snd a \<or> snd a = snd b \<and> fst b \<le> fst a"

interpretation cmp_votes: comparator cmp_votes votes_le
  by unfold_locales (auto simp: cmp_votes_def votes_le_def split: if_splits)

lemma stake_candidates_first:
  assumes "stake_candidates ch = a # as"
  shows "a \<in> set (mapVoteStake ch) \<and> fst a \<noteq> ch_publicKey ch \<and>
    (\<forall>e \<in> set (mapVoteStake ch). fst e \<noteq> ch_publicKey ch \<longrightarrow> votes_le a e)"
proof -
  let ?vs = "filter (\<lambda>a. fst a \<noteq> ch_publicKey ch) (mapVoteStake ch)"
  have "a \<in> set ?vs"
    using assms set_js_sort [of cmp_votes ?vs] by (auto simp: stake_candidates_def)
  moreover have "votes_le a e" if "e \<in> set ?vs" for e
    using cmp_votes.hd_js_sort_le [OF that] assms by (simp add: stake_candidates_def)
  ultimately show ?thesis by auto
qed

end
