(* ===== verification/Block_Keys.thy ===== *)
theory Block_Keys
  imports Chain
begin

text \<open>
  The keys \<open>String(height).padStart(16, '0')\<close> of the block store: for heights below
  \<open>10 ^ 16\<close> their order as strings is the order of the heights, so the store lists the
  blocks by height, a new block comes last, and a key range is a range of heights.
\<close>

section \<open>Digit strings of one length\<close>

lemma nat_of_dec_foldl: "foldl (\<lambda>a c. 10 * a + undigit c) a s = a * 10 ^ length s + nat_of_dec s"
proof (induction s arbitrary: a)
  case (Cons c s)
  have "foldl (\<lambda>a c. 10 * a + undigit c) a (c # s) = (10 * a + undigit c) * 10 ^ length s + nat_of_dec s"
    using Cons.IH [of "10 * a + undigit c"] by simp
  moreover have "nat_of_dec (c # s) = undigit c * 10 ^ length s + nat_of_dec s"
    using Cons.IH [of "undigit c"] by (simp add: nat_of_dec_def)
  ultimately show ?case by (simp add: algebra_simps)
qed (simp add: nat_of_dec_def)

lemma nat_of_dec_Cons [simp]: "nat_of_dec (c # s) = undigit c * 10 ^ length s + nat_of_dec s"
  using nat_of_dec_foldl [of "undigit c" s] by (simp add: nat_of_dec_def)

lemma nat_of_dec_Nil [simp]: "nat_of_dec [] = 0"
  by (simp add: nat_of_dec_def)

lemma undigit_bound: "is_digit c \<Longrightarrow> undigit c \<le> 9"
  by (auto simp: is_digit_def undigit_def)

lemma undigit_less: "is_digit c \<Longrightarrow> is_digit d \<Longrightarrow> undigit c < undigit d \<longleftrightarrow> c < d"
  by (auto simp: is_digit_def undigit_def less_char_def)

lemma nat_of_dec_bound: "list_all is_digit s \<Longrightarrow> nat_of_dec s < 10 ^ length s"
proof (induction s)
  case (Cons c s)
  then have "undigit c * 10 ^ length s + nat_of_dec s < 9 * 10 ^ length s + 10 ^ length s"
    using undigit_bound [of c] by (intro add_le_less_mono mult_le_mono1) auto
  then show ?case by simp
qed simp

lemma digits_less_iff:
  "length s = length t \<Longrightarrow> list_all is_digit s \<Longrightarrow> list_all is_digit t
    \<Longrightarrow> s < t \<longleftrightarrow> nat_of_dec s < nat_of_dec t"
proof (induction s t rule: list_induct2)
  case (Cons c s d t)
  then have IH: "s < t \<longleftrightarrow> nat_of_dec s < nat_of_dec t" by simp
  have b: "nat_of_dec s < 10 ^ length t" "nat_of_dec t < 10 ^ length t"
    using Cons nat_of_dec_bound [of s] nat_of_dec_bound [of t] by simp_all
  have step: "undigit x * 10 ^ length t + nat_of_dec u < undigit y * 10 ^ length t + nat_of_dec w"
    if "undigit x < undigit y" "nat_of_dec u < 10 ^ length t" for x y u w
  proof -
    have "undigit x * 10 ^ length t + 10 ^ length t \<le> undigit y * 10 ^ length t"
      using that(1) by (metis Suc_leI mult_Suc mult_le_mono1 add.commute)
    then show ?thesis using that(2) by linarith
  qed
  have ux: "undigit c < undigit d \<longleftrightarrow> c < d" "undigit d < undigit c \<longleftrightarrow> d < c"
    using Cons undigit_less by simp_all
  consider "c < d" | "c = d" | "d < c" by (metis linorder_less_linear)
  then show ?case
  proof cases
    case 1
    then show ?thesis using step [of c d s t] ux b Cons(1) by simp
  next
    case 2
    then show ?thesis using IH Cons(1) by simp
  next
    case 3
    then have "nat_of_dec (d # t) < nat_of_dec (c # s)"
      using step [of d c t s] ux b Cons(1) by simp
    moreover have "\<not> c # s < d # t" using 3 by auto
    ultimately show ?thesis by simp
  qed
qed simp

section \<open>Block keys\<close>

lemma length_dec_of_nat: "n < 10 ^ k \<Longrightarrow> 0 < k \<Longrightarrow> length (dec_of_nat n) \<le> k"
proof (induction n arbitrary: k rule: dec_of_nat.induct)
  case (1 n)
  show ?case
  proof (cases "n < 10")
    case True
    then show ?thesis using "1.prems" by (simp add: dec_of_nat.simps [of n])
  next
    case False
    obtain j where j: "k = Suc j" using "1.prems" by (cases k) auto
    have "j \<noteq> 0" using False "1.prems" j by (intro notI) simp
    then have k: "k = Suc j" "0 < j" using j by simp_all
    then have "n div 10 < 10 ^ j" using "1.prems" by (simp add: div_less_iff_less_mult mult.commute)
    then show ?thesis using "1.IH" [of j] False k by (simp add: dec_of_nat.simps [of n])
  qed
qed

lemma block_key_props:
  assumes "0 \<le> h" and "h < 10 ^ 16"
  shows "length (block_key h) = 16" "list_all is_digit (block_key h)" "nat_of_dec (block_key h) = nat h"
proof -
  have d: "dec_of_int h = dec_of_nat (nat h)" using assms by (simp add: dec_of_int_def)
  have "nat h < 10 ^ 16" using assms by (simp add: nat_less_iff)
  then have l: "length (dec_of_nat (nat h)) \<le> 16" by (rule length_dec_of_nat) simp
  then show "length (block_key h) = 16" by (simp add: block_key_def d length_padStart)
  have "is_digit CHR ''0''" by (simp add: is_digit_def)
  then show "list_all is_digit (block_key h)"
    using digits_dec_of_nat [of "nat h"] by (auto simp: block_key_def padStart_def d list_all_iff)
  have "nat_of_dec (replicate m CHR ''0'' @ s) = nat_of_dec s" for m s
    by (induction m) (simp_all add: undigit_def)
  then show "nat_of_dec (block_key h) = nat h" by (simp add: block_key_def padStart_def d)
qed

lemma block_key_less:
  assumes "0 \<le> h" "h < 10 ^ 16" "0 \<le> i" "i < 10 ^ 16"
  shows "block_key h < block_key i \<longleftrightarrow> h < i"
  using digits_less_iff [of "block_key h" "block_key i"] block_key_props [OF assms(1,2)]
    block_key_props [OF assms(3,4)] assms by (auto simp: nat_less_eq_zless)

lemma block_key_le:
  assumes "0 \<le> h" "h < 10 ^ 16" "0 \<le> i" "i < 10 ^ 16"
  shows "block_key h \<le> block_key i \<longleftrightarrow> h \<le> i"
  using block_key_less [OF assms(3,4,1,2)] by (simp add: linorder_not_less [symmetric])

section \<open>A larger key is listed last\<close>

lemma sorted_entries_unique:
  fixes xs ys :: "(string \<times> string) list"
  assumes "sorted_wrt (<) (map fst xs)" and "sorted_wrt (<) (map fst ys)" and "map_of xs = map_of ys"
  shows "xs = ys"
proof -
  have dx: "distinct (map fst xs)" and dy: "distinct (map fst ys)"
    using assms(1,2) by (simp_all add: strict_sorted_distinct)
  have set_eq: "set xs = set ys"
    using assms(3) map_of_eq_Some_iff [OF dx] map_of_eq_Some_iff [OF dy] by auto
  then have "set (map fst xs) = set (map fst ys)" by simp
  then have keys: "map fst xs = map fst ys"
    using assms(1,2) by (intro sorted_distinct_set_unique) (simp_all add: strict_sorted_iff)
  show ?thesis
  proof (rule nth_equalityI)
    show len: "length xs = length ys" using keys by (metis length_map)
    fix i assume i: "i < length xs"
    have k: "fst (xs ! i) = fst (ys ! i)" using keys i len by (metis nth_map)
    have "map_of xs (fst (xs ! i)) = Some (snd (xs ! i))"
      using dx i by (simp add: map_of_eq_Some_iff)
    moreover have "map_of ys (fst (ys ! i)) = Some (snd (ys ! i))"
      using dy i len by (simp add: map_of_eq_Some_iff)
    ultimately show "xs ! i = ys ! i" using k assms(3) by (simp add: prod_eq_iff)
  qed
qed

lemma level_put_last:
  assumes L: "level_ok L" and last: "\<forall>e \<in> set (lv_entries L d). fst e < k"
  shows "lv_entries L (lv_put L k v d) = lv_entries L d @ [(k, v)]"
proof (rule sorted_entries_unique)
  show "sorted_wrt (<) (map fst (lv_entries L (lv_put L k v d)))" by (rule level_okD [OF L])
  show "sorted_wrt (<) (map fst (lv_entries L d @ [(k, v)]))"
    using level_okD(1) [OF L, of d] last by (auto simp: sorted_wrt_append)
  have "map_of (lv_entries L d) k = None" using last by (force simp: map_of_eq_None_iff)
  then show "map_of (lv_entries L (lv_put L k v d)) = map_of (lv_entries L d @ [(k, v)])"
    using level_okD(2,3) [OF L] by (auto simp: fun_eq_iff map_add_def split: option.split)
qed

end
