(* ===== verification/Chain_Inv.thy ===== *)
theory Chain_Inv
  imports Block_Keys
begin

text \<open>
  The life of a chain as a step relation (boot from a genesis block, add, restart) and
  its invariants: the store is a linked list of blocks that only grows, the cache holds
  the latest of them in order of height, and the peers, stakes and pending stake votes
  are a function of the stored blocks alone, on every node and across restarts.
\<close>

section \<open>The ledger is a function of the blocks\<close>

definition ledger_view :: "'db chain \<Rightarrow> (string, peer) jsmap \<times> (string, string) jsmap \<times>
    (string, string) jsmap \<times> int \<times> (string, string list) jsmap \<times> (int \<times> (string \<times> string) list) list" where
  "ledger_view ch = (mapPeer ch, mapHttp ch, mapUdp ch, quorumWeighted ch, mapModifyStake ch,
     arrayTakenDecision ch)"

lemma ledger_view_eq:
  "ledger_view ch = ledger_view ch2 \<longleftrightarrow> mapPeer ch = mapPeer ch2 \<and> mapHttp ch = mapHttp ch2 \<and>
     mapUdp ch = mapUdp ch2 \<and> quorumWeighted ch = quorumWeighted ch2 \<and>
     mapModifyStake ch = mapModifyStake ch2 \<and> arrayTakenDecision ch = arrayTakenDecision ch2"
  by (auto simp: ledger_view_def)

lemma view_hasQuorum: "ledger_view ch = ledger_view ch2 \<Longrightarrow> hasQuorumWeighted ch xs = hasQuorumWeighted ch2 xs"
  by (simp add: hasQuorumWeighted_def getStake_def [abs_def] getPeer_def ledger_view_eq)

lemma modifyStake_view:
  assumes "ledger_view ch = ledger_view ch2"
  shows "fst (modifyStake L r k i n (ch, cr)) = fst (modifyStake L2 r k i n (ch2, cr2)) \<and>
    ledger_view (fst (snd (modifyStake L r k i n (ch, cr))))
      = ledger_view (fst (snd (modifyStake L2 r k i n (ch2, cr2))))"
proof -
  have q: "hasQuorumWeighted (c\<lparr>mapModifyStake := m\<rparr>) a = hasQuorumWeighted c a" for c :: "'z chain" and m a
    by (simp add: hasQuorumWeighted_def getStake_def getPeer_def)
  have e: "mapPeer ch = mapPeer ch2" "mapModifyStake ch = mapModifyStake ch2"
    using assms by (simp_all add: ledger_view_eq)
  show ?thesis
  proof (cases "jm_get (mapPeer ch2) k")
    case None
    then show ?thesis using assms e by (simp add: modifyStake_def)
  next
    case (Some p)
    then show ?thesis
      using assms e view_hasQuorum [OF assms]
      by (simp add: modifyStake_def Let_def q ledger_view_eq updateStateData_def)
  qed
qed

lemma process_command_view:
  assumes "ledger_view (fst s) = ledger_view (fst s2)"
  shows "fst (process_command L r c s) = fst (process_command L2 r c s2) \<and>
    ledger_view (fst (snd (process_command L r c s))) = ledger_view (fst (snd (process_command L2 r c s2)))"
proof -
  obtain ch cr ch2 cr2 where s: "s = (ch, cr)" "s2 = (ch2, cr2)" by (cases s; cases s2) auto
  show ?thesis
  proof (cases c)
    case (ModifyStake q k i n)
    then show ?thesis
      using modifyStake_view [of ch ch2 L r k i n cr L2 cr2] assms s by (auto split: prod.split)
  qed (use assms s in \<open>auto simp: addPeer_def removePeer_def updateStateData_def deleteStateData_def
    Let_def ledger_view_eq isDecisionTaken_def split: option.split\<close>)
qed

lemma process_commands_view:
  "ledger_view (fst s) = ledger_view (fst s2) \<Longrightarrow>
    fst (process_commands L r cs s) = fst (process_commands L2 r cs s2) \<and>
    ledger_view (fst (snd (process_commands L r cs s))) = ledger_view (fst (snd (process_commands L2 r cs s2)))"
proof (induction cs arbitrary: s s2)
  case (Cons c cs)
  obtain c1 t1 where 1: "process_command L r c s = (c1, t1)" by (cases "process_command L r c s")
  obtain c2 t2 where 2: "process_command L2 r c s2 = (c2, t2)" by (cases "process_command L2 r c s2")
  have "c1 = c2" "ledger_view (fst t1) = ledger_view (fst t2)"
    using process_command_view [OF Cons.prems, of L r c L2] 1 2 by simp_all
  then show ?case using Cons.IH [of t1 t2] 1 2 by (simp split: prod.split) (metis fst_conv snd_conv)
qed simp

lemma process_txs_view:
  "ledger_view (fst s) = ledger_view (fst s2) \<Longrightarrow>
    fst (process_txs L ts s) = fst (process_txs L2 ts s2) \<and>
    ledger_view (fst (snd (process_txs L ts s))) = ledger_view (fst (snd (process_txs L2 ts s2)))"
proof (induction ts arbitrary: s s2)
  case (Cons t ts)
  obtain c1 t1 where 1: "process_commands L (tx_origin t) (tx_commands t) s = (c1, t1)"
    by (cases "process_commands L (tx_origin t) (tx_commands t) s")
  obtain c2 t2 where 2: "process_commands L2 (tx_origin t) (tx_commands t) s2 = (c2, t2)"
    by (cases "process_commands L2 (tx_origin t) (tx_commands t) s2")
  have "c1 = c2" "ledger_view (fst t1) = ledger_view (fst t2)"
    using process_commands_view [OF Cons.prems, of L "tx_origin t" "tx_commands t" L2] 1 2 by simp_all
  then show ?case using Cons.IH [of t1 t2] 1 2 by (simp split: prod.split) (metis fst_conv snd_conv)
qed simp

fun replay :: "'db level \<Rightarrow> block list \<Rightarrow> 'db chain \<times> credits \<Rightarrow> 'db chain \<times> credits" where
  "replay L [] s = s"
| "replay L (b # bs) s = replay L bs (snd (process_txs L (blk_tx b) s))"

lemma replay_append: "replay L (bs @ cs) s = replay L cs (replay L bs s)"
  by (induction bs arbitrary: s) simp_all

lemma replay_view:
  "ledger_view (fst s) = ledger_view (fst s2) \<Longrightarrow>
    ledger_view (fst (replay L bs s)) = ledger_view (fst (replay L2 bs s2))"
  by (induction bs arbitrary: s s2) (simp_all add: process_txs_view)

lemma processState_view:
  assumes "processState L cfg now b (ch, cr) = (b', ch', cr')"
    and "ledger_view ch = ledger_view (fst (replay L2 bs s2))"
  shows "ledger_view ch' = ledger_view (fst (replay L2 (bs @ [b]) s2))"
proof -
  let ?ch = "if debug_performance cfg
    then updateStateData L (debug_key (ch_height ch)) (dec_of_int now) ch else ch"
  have "ledger_view ?ch = ledger_view ch" by (simp add: ledger_view_eq updateStateData_def)
  then have "ledger_view (fst (snd (process_txs L (blk_tx b) (?ch, cr))))
      = ledger_view (fst (snd (process_txs L2 (blk_tx b) (replay L2 bs s2))))"
    using process_txs_view [of "(?ch, cr)" "replay L2 bs s2"] assms(2) by simp
  moreover have "ch' = fst (snd (process_txs L (blk_tx b) (?ch, cr)))"
    using arg_cong [OF snd_processState [of L cfg now b ch cr], of fst] unfolding assms(1) by simp
  ultimately show ?thesis by (simp add: replay_append)
qed

section \<open>The cache\<close>

definition cache_inv :: "int \<Rightarrow> 'db chain \<Rightarrow> bool" where
  "cache_inv m ch \<longleftrightarrow>
     map fst (mapBlocks ch) = [ch_height ch - int (jm_size (mapBlocks ch)) + 1 .. ch_height ch] \<and>
     int (jm_size (mapBlocks ch)) = min m (ch_height ch) \<and>
     (\<forall>e \<in> set (mapBlocks ch). blk_height (snd e) = fst e)"

lemma filter_ne_upto: "a \<le> b \<Longrightarrow> filter (\<lambda>x. x \<noteq> a) [a .. b] = [a + 1 .. b]"
proof -
  assume "a \<le> b"
  then have "[a .. b] = a # [a + 1 .. b]" by (simp add: upto_rec1)
  moreover have "filter (\<lambda>x. x \<noteq> a) [a + 1 .. b] = [a + 1 .. b]" by (simp add: filter_id_conv)
  ultimately show ?thesis by simp
qed

lemma cache_block_fields:
  "ch_height (cache_block cfg b ch) = blk_height b"
  "latestBlock (cache_block cfg b ch) = Some b"
  "dbBlockchain (cache_block cfg b ch) = dbBlockchain ch"
  "ledger_view (cache_block cfg b ch) = ledger_view ch"
  "stake_inv d (cache_block cfg b ch) \<longleftrightarrow> stake_inv d ch"
  "net_inv (cache_block cfg b ch) \<longleftrightarrow> net_inv ch"
  "dbState (cache_block cfg b ch) = dbState ch"
  "ch_publicKey (cache_block cfg b ch) = ch_publicKey ch"
  by (simp_all add: cache_block_def Let_def ledger_view_def stake_inv_def net_inv_def)

lemma cache_block_inv:
  assumes inv: "cache_inv (blockchain_max_blocks_in_memory cfg) ch"
    and h: "blk_height b = ch_height ch + 1" and m: "1 \<le> blockchain_max_blocks_in_memory cfg"
  shows "cache_inv (blockchain_max_blocks_in_memory cfg) (cache_block cfg b ch)"
proof -
  let ?m = "blockchain_max_blocks_in_memory cfg"
  let ?mb = "mapBlocks ch" and ?h = "ch_height ch"
  let ?n = "int (jm_size ?mb)"
  have keys: "map fst ?mb = [?h - ?n + 1 .. ?h]" and n: "?n = min ?m ?h"
    and vals: "\<forall>e \<in> set ?mb. blk_height (snd e) = fst e"
    using inv by (simp_all add: cache_inv_def)
  have le: "?n \<le> ?m" "?n \<le> ?h" using n by simp_all
  have "?h + 1 \<notin> set (map fst ?mb)" unfolding keys by simp
  then have "map_of ?mb (?h + 1) = None" by (simp add: map_of_eq_None_iff)
  then have ins: "jm_set (?h + 1) b ?mb = ?mb @ [(?h + 1, b)]"
    by (simp add: jm_set_def update_new)
  have mb: "mapBlocks (cache_block cfg b ch) = (if ?m < 1 + ?n
      then jm_delete (?h + 1 - ?m) (?mb @ [(?h + 1, b)]) else ?mb @ [(?h + 1, b)])"
    by (simp add: cache_block_def Let_def h ins jm_size_def)
  have keys1: "map fst (?mb @ [(?h + 1, b)]) = [?h - ?n + 1 .. ?h + 1]"
    using keys le by (simp add: upto_rec2)
  show ?thesis
  proof (cases "?m < 1 + ?n")
    case False
    then show ?thesis
      using keys1 n vals h by (auto simp: cache_inv_def cache_block_fields mb jm_size_def)
  next
    case True
    then have nm: "?n = ?m" "?m \<le> ?h" using n by simp_all
    let ?mb2 = "jm_delete (?h + 1 - ?m) (?mb @ [(?h + 1, b)])"
    have "map fst ?mb2 = filter (\<lambda>x. x \<noteq> ?h + 1 - ?m) (map fst (?mb @ [(?h + 1, b)]))"
      by (simp add: jm_delete_def filter_map o_def)
    also have "\<dots> = [?h - ?m + 2 .. ?h + 1]"
      unfolding keys1 nm using filter_ne_upto [of "?h - ?m + 1" "?h + 1"] n nm m
      by (simp add: algebra_simps)
    finally have k2: "map fst ?mb2 = [?h - ?m + 2 .. ?h + 1]" .
    then have "length ?mb2 = length [?h - ?m + 2 .. ?h + 1]" by (metis length_map)
    then have sz: "int (jm_size ?mb2) = ?m" using m by (simp add: jm_size_def)
    have v2: "\<forall>e \<in> set ?mb2. blk_height (snd e) = fst e"
      using vals h by (auto simp: jm_delete_def)
    have "mapBlocks (cache_block cfg b ch) = ?mb2" using True by (simp add: mb)
    then show ?thesis
      using k2 sz v2 n nm h by (simp add: cache_inv_def cache_block_fields algebra_simps)
  qed
qed

lemma refresh_cached_inv:
  assumes "cache_inv m ch" and "blk_height b = ch_height ch"
  shows "cache_inv m (refresh_cached b ch)"
proof (cases "jm_has (mapBlocks ch) (blk_height b)")
  case True
  then have "map fst (jm_set (blk_height b) b (mapBlocks ch)) = map fst (mapBlocks ch)"
    by (auto simp: jm_set_def jm_get_def map_fst_update_old)
  moreover from this have "length (jm_set (blk_height b) b (mapBlocks ch)) = length (mapBlocks ch)"
    by (metis length_map)
  moreover have "\<forall>e \<in> set (jm_set (blk_height b) b (mapBlocks ch)). blk_height (snd e) = fst e"
  proof
    fix e assume "e \<in> set (jm_set (blk_height b) b (mapBlocks ch))"
    then have "e = (blk_height b, b) \<or> e \<in> set (mapBlocks ch)" by (rule set_jm_setD)
    then show "blk_height (snd e) = fst e" using assms(1) by (auto simp: cache_inv_def)
  qed
  ultimately show ?thesis using assms True by (simp add: refresh_cached_def cache_inv_def jm_size_def)
next
  case False
  then show ?thesis using assms by (simp add: refresh_cached_def cache_inv_def)
qed

section \<open>The cached blocks\<close>

text \<open>
  A cached block is the stored one up to its commands: \<open>processState\<close> may have written
  to them.
\<close>

definition header :: "block \<Rightarrow> block" where
  "header b = b\<lparr>blk_tx := map (\<lambda>t. t\<lparr>tx_commands := []\<rparr>) (blk_tx b)\<rparr>"

definition cache_of :: "block list \<Rightarrow> 'db chain \<Rightarrow> bool" where
  "cache_of bs ch \<longleftrightarrow>
     (\<forall>e \<in> set (mapBlocks ch). \<exists>i < length bs. fst e = int i + 1 \<and> header (snd e) = header (bs ! i))"

lemma process_txs_header:
  "map (\<lambda>t. t\<lparr>tx_commands := []\<rparr>) (fst (process_txs L ts s)) = map (\<lambda>t. t\<lparr>tx_commands := []\<rparr>) ts"
proof (induction ts arbitrary: s)
  case (Cons t ts)
  obtain cs s1 where 1: "process_commands L (tx_origin t) (tx_commands t) s = (cs, s1)"
    by (cases "process_commands L (tx_origin t) (tx_commands t) s")
  obtain ts' s2 where 2: "process_txs L ts s1 = (ts', s2)" by (cases "process_txs L ts s1")
  show ?case using Cons [of s1] 1 2 by simp
qed simp

lemma processState_header: "processState L cfg now b s = (b', s') \<Longrightarrow> header b' = header b"
  using process_txs_header [of L "blk_tx b"]
  by (auto simp: processState_def header_def Let_def split: prod.splits) (metis fst_conv)+

lemma cache_of_cache_block:
  assumes "cache_of bs ch" and "blk_height b = int (length bs) + 1" and "header b = header b0"
  shows "cache_of (bs @ [b0]) (cache_block cfg b ch)"
proof -
  have "\<exists>i < length (bs @ [b0]). fst e = int i + 1 \<and> header (snd e) = header ((bs @ [b0]) ! i)"
    if e: "e \<in> set (mapBlocks (cache_block cfg b ch))" for e
  proof -
    have "e \<in> set (jm_set (blk_height b) b (mapBlocks ch))"
      using e by (auto simp: cache_block_def jm_delete_def Let_def split: if_splits)
    then have "e = (blk_height b, b) \<or> e \<in> set (mapBlocks ch)" by (rule set_jm_setD)
    then show ?thesis
    proof
      assume "e = (blk_height b, b)"
      then show ?thesis using assms(2,3) by (intro exI [of _ "length bs"]) simp
    next
      assume "e \<in> set (mapBlocks ch)"
      then obtain i where "i < length bs" "fst e = int i + 1" "header (snd e) = header (bs ! i)"
        using assms(1) by (auto simp: cache_of_def)
      then show ?thesis by (intro exI [of _ i]) (simp add: nth_append)
    qed
  qed
  then show ?thesis by (simp add: cache_of_def)
qed

lemma cache_of_refresh:
  assumes "cache_of (bs @ [b0]) ch" and "blk_height b = int (length bs) + 1" and "header b = header b0"
  shows "cache_of (bs @ [b0]) (refresh_cached b ch)"
proof -
  have "\<exists>i < length (bs @ [b0]). fst e = int i + 1 \<and> header (snd e) = header ((bs @ [b0]) ! i)"
    if e: "e \<in> set (mapBlocks (refresh_cached b ch))" for e
  proof -
    have "e = (blk_height b, b) \<or> e \<in> set (mapBlocks ch)"
      using e set_jm_setD by (fastforce simp: refresh_cached_def split: if_splits)
    then show ?thesis
    proof
      assume "e = (blk_height b, b)"
      then show ?thesis using assms(2,3) by (intro exI [of _ "length bs"]) simp
    next
      assume "e \<in> set (mapBlocks ch)"
      then show ?thesis using assms(1) unfolding cache_of_def by blast
    qed
  qed
  then show ?thesis by (simp add: cache_of_def)
qed

section \<open>The state of a chain that holds given blocks\<close>

definition null_level :: "unit level" where
  "null_level = \<lparr>lv_get = (\<lambda>_ _. None), lv_put = (\<lambda>_ _ d. d), lv_del = (\<lambda>_ d. d), lv_clear = (\<lambda>d. d),
     lv_entries = (\<lambda>_. [])\<rparr>"

text \<open>The ledger a list of blocks amounts to: no store, no node, no time.\<close>

definition ledger_of where
  "ledger_of bs = ledger_view (fst (replay null_level bs (chain_new [] () (), [])))"

definition link :: "block \<Rightarrow> block \<Rightarrow> bool" where
  "link a b \<longleftrightarrow> blk_previousHash b = blk_hash a"

definition latest_is :: "block list \<Rightarrow> 'db chain \<Rightarrow> bool" where
  "latest_is bs ch \<longleftrightarrow> map_option blk_hash (latestBlock ch) = (if bs = [] then None else Some (blk_hash (last bs)))"

definition chain_ok :: "int \<Rightarrow> block list \<Rightarrow> 'db chain \<Rightarrow> bool" where
  "chain_ok m bs ch \<longleftrightarrow>
     map blk_height bs = [1 .. ch_height ch] \<and> 0 \<le> ch_height ch \<and> successively link bs \<and> latest_is bs ch \<and>
     cache_inv m ch \<and> stake_inv 0 ch \<and> net_inv ch \<and> votes_inv ch \<and> ledger_view ch = ledger_of bs \<and>
     cache_of bs ch"

definition stores :: "'db level \<Rightarrow> block list \<Rightarrow> 'db chain \<Rightarrow> bool" where
  "stores L bs ch \<longleftrightarrow>
     lv_entries L (dbBlockchain ch) = map (\<lambda>b. (block_key (blk_height b), block_text b)) bs"

lemma chain_ok_height:
  assumes "chain_ok m bs ch"
  shows "ch_height ch = int (length bs)"
proof -
  have "length (map blk_height bs) = length [1 .. ch_height ch]" "0 \<le> ch_height ch"
    using assms by (simp_all add: chain_ok_def)
  then show ?thesis by simp
qed

lemma chain_ok_nth: "chain_ok m bs ch \<Longrightarrow> i < length bs \<Longrightarrow> blk_height (bs ! i) = int i + 1"
proof -
  assume ok: "chain_ok m bs ch" and i: "i < length bs"
  have "map blk_height bs ! i = [1 .. ch_height ch] ! i" using ok by (simp add: chain_ok_def)
  then show ?thesis using i chain_ok_height [OF ok] by simp
qed

lemma view_invs:
  assumes "ledger_view ch' = ledger_view ch"
  shows "stake_inv d ch' \<longleftrightarrow> stake_inv d ch" and "net_inv ch' \<longleftrightarrow> net_inv ch"
    and "votes_inv ch' \<longleftrightarrow> votes_inv ch"
  using assms [unfolded ledger_view_eq] by (simp_all add: stake_inv_def net_inv_def votes_inv_def)

text \<open>\<open>chain_ok\<close> reads these fields only.\<close>

lemma chain_ok_cong:
  assumes "ch_height ch' = ch_height ch" "mapBlocks ch' = mapBlocks ch"
    "map_option blk_hash (latestBlock ch') = map_option blk_hash (latestBlock ch)"
    "ledger_view ch' = ledger_view ch"
  shows "chain_ok m bs ch' \<longleftrightarrow> chain_ok m bs ch"
  using assms(1-3) view_invs [OF assms(4)] assms(4) by (simp add: chain_ok_def latest_is_def cache_inv_def cache_of_def)

lemma ledger_of_snoc:
  assumes "processState L cfg now b (ch, cr) = (b', ch', cr')" and "ledger_view ch = ledger_of bs"
  shows "ledger_view ch' = ledger_of (bs @ [b])"
  using processState_view [OF assms(1), of null_level bs "(chain_new [] () (), [])"] assms(2)
  by (simp add: ledger_of_def)

lemma updateCache_Inr:
  assumes "updateCache cfg propose b (ch, cr, s) = Inr (ch', cr', s')"
  obtains vm where "ch' = (cache_block cfg b ch)\<lparr>mapVoteStake := vm\<rparr>"
  using assms by (auto simp: updateCache_def Let_def split: if_splits list.splits prod.splits)

lemma processState_votes:
  "votes_inv ch \<Longrightarrow> processState L cfg now b (ch, cr) = (b', ch', cr') \<Longrightarrow> votes_inv ch'"
  using inv_votes.keep_processState [of ch cr b L cfg now b' "(ch', cr')"] by (simp add: list_all_iff)

lemma chain_ok_new: "0 \<le> m \<Longrightarrow> chain_ok m [] (chain_new k d e)"
  by (simp add: chain_ok_def chain_new_def latest_is_def cache_inv_def cache_of_def stake_inv_def net_inv_def votes_inv_def
      ledger_of_def ledger_view_def jm.total_empty jm_size_def) (simp add: jm_empty_def)

text \<open>Both orders of caching and processing extend the chain by the block.\<close>

lemma grow_blocks:
  assumes "map blk_height bs = [1 .. h]" "0 \<le> h" "blk_height b = h + 1"
    "successively link bs" "bs = [] \<or> link (last bs) b"
  shows "map blk_height (bs @ [b]) = [1 .. h + 1] \<and> successively link (bs @ [b])"
  using assms by (auto simp: upto_rec2 successively_append_iff)

lemma process_then_cache:
  assumes ok: "chain_ok m bs ch" and m: "m = blockchain_max_blocks_in_memory cfg" "1 \<le> m"
    and h: "blk_height b = ch_height ch + 1" and lk: "bs = [] \<or> link (last bs) b"
    and ps: "processState L cfg now b (ch, cr) = (b', ch1, cr1)"
    and ch': "ch' = (cache_block cfg b' ch1)\<lparr>mapVoteStake := vm\<rparr>"
  shows "chain_ok m (bs @ [b]) ch'"
proof -
  have f: "same_frame ch ch1" using ps by (rule processState_frame)
  then have "cache_inv m ch1" using ok by (simp add: chain_ok_def same_frame_def cache_inv_def)
  then have ci: "cache_inv m (cache_block cfg b' ch1)"
    using f h m processState_block [OF ps] by (auto simp: same_frame_def intro: cache_block_inv)
  have "stake_inv 0 ch1" "net_inv ch1" "votes_inv ch1"
    using ok ps by (auto simp: chain_ok_def intro: processState_stake processState_net processState_votes)
  moreover have "ledger_view ch1 = ledger_of (bs @ [b])"
    using ok ps by (auto simp: chain_ok_def intro: ledger_of_snoc)
  moreover have "map blk_height (bs @ [b]) = [1 .. ch_height ch + 1] \<and> successively link (bs @ [b])"
    using ok h lk by (intro grow_blocks) (simp_all add: chain_ok_def)
  moreover have "cache_of (bs @ [b]) (cache_block cfg b' ch1)"
    using ok f h processState_block [OF ps] processState_header [OF ps] chain_ok_height [OF ok]
    by (intro cache_of_cache_block) (simp_all add: chain_ok_def same_frame_def cache_of_def)
  ultimately have "chain_ok m (bs @ [b]) (cache_block cfg b' ch1)"
    using ci ok h processState_block [OF ps]
    by (simp add: chain_ok_def cache_block_fields latest_is_def)
      (simp add: votes_inv_def cache_block_def Let_def)
  then show ?thesis unfolding ch' by (subst chain_ok_cong) (simp_all add: ledger_view_eq)
qed

lemma cache_then_process:
  assumes ok: "chain_ok m bs ch" and m: "m = blockchain_max_blocks_in_memory cfg" "1 \<le> m"
    and h: "blk_height b = ch_height ch + 1" and lk: "bs = [] \<or> link (last bs) b"
    and ch1: "ch1 = (cache_block cfg b ch)\<lparr>mapVoteStake := vm\<rparr>"
    and ps: "processState L cfg now b (ch1, cr) = (b', ch2, cr2)"
  shows "chain_ok m (bs @ [b]) (refresh_cached b' ch2)"
proof -
  have f: "same_frame ch1 ch2" using ps by (rule processState_frame)
  have v1: "ledger_view ch1 = ledger_view ch" by (simp add: ch1 cache_block_fields ledger_view_eq)
      (simp add: cache_block_def Let_def)
  have "cache_inv m (cache_block cfg b ch)" using ok h m by (auto simp: chain_ok_def intro: cache_block_inv)
  then have "cache_inv m ch2" using f by (simp add: cache_inv_def same_frame_def ch1)
  then have ci: "cache_inv m (refresh_cached b' ch2)"
    using f processState_block [OF ps] by (intro refresh_cached_inv) (simp_all add: same_frame_def ch1 cache_block_fields)
  have i1: "stake_inv 0 ch1" "net_inv ch1" "votes_inv ch1"
    using ok view_invs [OF v1] by (simp_all add: chain_ok_def)
  have i2: "stake_inv 0 ch2" "net_inv ch2" "votes_inv ch2"
    using i1 ps by (auto intro: processState_stake processState_net processState_votes)
  have v2: "ledger_view ch2 = ledger_of (bs @ [b])"
    using ok v1 ps by (auto simp: chain_ok_def intro: ledger_of_snoc)
  have "map blk_height (bs @ [b]) = [1 .. ch_height ch + 1] \<and> successively link (bs @ [b])"
    using ok h lk by (intro grow_blocks) (simp_all add: chain_ok_def)
  moreover have "cache_of (bs @ [b]) (refresh_cached b' ch2)"
  proof (rule cache_of_refresh)
    have "cache_of (bs @ [b]) (cache_block cfg b ch)"
      using ok h chain_ok_height [OF ok] by (intro cache_of_cache_block) (simp_all add: chain_ok_def)
    then show "cache_of (bs @ [b]) ch2" using f by (simp add: cache_of_def same_frame_def ch1)
    show "blk_height b' = int (length bs) + 1"
      using processState_block [OF ps] h chain_ok_height [OF ok] by simp
    show "header b' = header b" using ps by (rule processState_header)
  qed
  moreover have vr: "ledger_view (refresh_cached b' ch2) = ledger_view ch2"
    by (simp add: refresh_cached_def ledger_view_eq)
  ultimately show ?thesis
    using ci i2 v2 ok h f processState_block [OF ps] view_invs [OF vr]
    by (simp add: chain_ok_def latest_is_def) (simp add: refresh_cached_def same_frame_def ch1 cache_block_fields)
qed

end
