(* ===== verification/Chain_Run.thy ===== *)
theory Chain_Run
  imports Chain_Inv
begin

text \<open>
  The life of a chain as a step relation: boot from a genesis block (\<open>reset\<close> on a new
  object), \<open>add\<close>, restart (\<open>init\<close> on a new object with the same stores), and changes of
  the rest of the node. Rule induction gives the invariants on every reachable state;
  with them two nodes that stored the same blocks have the same peers, stakes, quorum
  and pending votes, whatever their stores, restarts, keys and proposals.
\<close>

section \<open>Replaying the store\<close>

lemma init_loop_ok:
  assumes "init_loop L cfg propose now (map block_text cs) (ch, cr, s) = Inr (ch', cr', s')"
    and "chain_ok m bs ch" and "m = blockchain_max_blocks_in_memory cfg" "1 \<le> m"
    and "map blk_height (bs @ cs) = [1 .. n]" and "successively link (bs @ cs)"
  shows "chain_ok m (bs @ cs) ch' \<and> dbBlockchain ch' = dbBlockchain ch"
  using assms
proof (induction cs arbitrary: bs ch cr s)
  case (Cons c cs)
  let ?h = "ch_height ch"
  have h: "blk_height c = ?h + 1"
  proof -
    have bs: "0 \<le> ?h" and l: "length bs = nat ?h"
      using chain_ok_height [OF Cons.prems(2)] by simp_all
    have "map blk_height (bs @ c # cs) ! length bs = blk_height c" by (simp add: nth_append)
    moreover have "length (map blk_height (bs @ c # cs)) = nat n"
      unfolding Cons.prems(5) by simp
    then have "0 \<le> ?h \<and> ?h < n" using l bs by simp
    then have "[1 .. n] ! length bs = ?h + 1" using bs by (simp add: l)
    ultimately show ?thesis using Cons.prems(5) by simp
  qed
  have lk: "bs = [] \<or> link (last bs) c"
    using Cons.prems(6) by (auto simp: successively_append_iff)
  obtain ch1 cr1 s1 where u: "updateCache cfg propose c (ch, cr, s) = Inr (ch1, cr1, s1)"
    and r: "(case processState L cfg now c (ch1, cr1) of (b', ch2, cr2) \<Rightarrow>
       init_loop L cfg propose now (map block_text cs) (refresh_cached b' ch2, cr2, s1)) = Inr (ch', cr', s')"
    using Cons.prems(1) by auto
  obtain b' ch2 cr2 where p: "processState L cfg now c (ch1, cr1) = (b', ch2, cr2)"
    by (cases "processState L cfg now c (ch1, cr1)") auto
  obtain vm where ch1: "ch1 = (cache_block cfg c ch)\<lparr>mapVoteStake := vm\<rparr>"
    using u by (rule updateCache_Inr)
  have ok: "chain_ok m (bs @ [c]) (refresh_cached b' ch2)"
    using Cons.prems(2-4) h lk ch1 p by (rule cache_then_process)
  have "dbBlockchain (refresh_cached b' ch2) = dbBlockchain ch"
    using processState_frame [OF p] by (simp add: refresh_cached_def same_frame_def ch1 cache_block_fields)
  then show ?case using Cons.IH [of "refresh_cached b' ch2" cr2 s1 "bs @ [c]"] ok r p Cons.prems by simp
qed simp

text \<open>No block of the store starts a stake vote: the replay cannot fail.\<close>

definition quiet :: "block \<Rightarrow> bool" where
  "quiet b \<longleftrightarrow> hash_match_count b < STAKE_VOTE_MATCH_THRESHOLD"

lemma updateCache_quiet:
  "quiet b \<Longrightarrow> \<exists>ch'. updateCache cfg propose b (ch, cr, s) = Inr (ch', cr, s)"
  by (simp add: quiet_def updateCache_def Let_def)

lemma init_loop_quiet:
  "list_all quiet cs \<Longrightarrow> \<exists>ch' cr'. init_loop L cfg propose now (map block_text cs) (ch, cr, s) = Inr (ch', cr', s)"
proof (induction cs arbitrary: ch cr)
  case (Cons c cs)
  obtain ch1 where u: "updateCache cfg propose c (ch, cr, s) = Inr (ch1, cr, s)"
    using Cons.prems updateCache_quiet by fastforce
  obtain b' ch2 cr2 where p: "processState L cfg now c (ch1, cr) = (b', ch2, cr2)"
    by (cases "processState L cfg now c (ch1, cr)") auto
  show ?case using Cons.IH [of "refresh_cached b' ch2" cr2] Cons.prems u p by simp
qed simp

lemma chain_init_quiet:
  assumes "list_all quiet bs" and "lv_values L (dbBlockchain ch) = map block_text bs"
  shows "\<exists>ch' cr'. chain_init L cfg propose now (ch, cr, s) = Inr (ch', cr', s)"
  using init_loop_quiet [OF assms(1)] assms(2) by (simp add: chain_init_def Let_def)

lemma stores_values: "stores L bs ch \<Longrightarrow> lv_values L (dbBlockchain ch) = map block_text bs"
  by (simp add: stores_def lv_values_def)

lemma chain_init_ok:
  assumes "chain_init L cfg propose now (chain_new pk dbb dbs, cr, s) = Inr (ch', cr', s')"
    and "lv_values L dbb = map block_text bs"
    and "m = blockchain_max_blocks_in_memory cfg" "1 \<le> m"
    and "map blk_height bs = [1 .. n]" and "successively link bs"
  shows "chain_ok m bs ch' \<and> dbBlockchain ch' = dbb"
proof -
  have "(chain_new pk dbb dbs)\<lparr>ch_height := 0, mapBlocks := jm_empty, latestBlock := None,
      dbState := lv_clear L dbs\<rparr> = chain_new pk dbb (lv_clear L dbs)"
    by (simp add: chain_new_def)
  then have "init_loop L cfg propose now (map block_text bs) (chain_new pk dbb (lv_clear L dbs), cr, s)
      = Inr (ch', cr', s')"
    using assms(1,2) by (simp add: chain_init_def Let_def) (simp add: chain_new_def)
  then show ?thesis
    using init_loop_ok [of L cfg propose now bs "chain_new pk dbb (lv_clear L dbs)" cr s ch' cr' s' m "[]" n]
      assms chain_ok_new [of m pk dbb "lv_clear L dbs"] by (simp add: chain_new_def)
qed

section \<open>Steps\<close>

inductive chain_run ::
    "crypto \<Rightarrow> 'db level \<Rightarrow> config \<Rightarrow> ('db, 's) propose \<Rightarrow> string \<Rightarrow>
      block list \<Rightarrow> 'db chain \<Rightarrow> credits \<Rightarrow> 's \<Rightarrow> bool"
  for C L cfg propose pk where
  boot: "blk_height g = 1 \<Longrightarrow>
    chain_reset L cfg propose now g (chain_new pk dbb dbs, cr, s) = Inr (ch', cr', s') \<Longrightarrow>
    chain_run C L cfg propose pk [g] ch' cr' s'"
| grow: "chain_run C L cfg propose pk bs ch cr s \<Longrightarrow> blk_height b < 10 ^ 16 \<Longrightarrow>
    chain_add C L cfg propose now b (ch, cr, s) = Inr (True, b', ch', cr', s') \<Longrightarrow>
    chain_run C L cfg propose pk (bs @ [b]) ch' cr' s'"
| restart: "chain_run C L cfg propose pk bs ch cr s \<Longrightarrow>
    chain_init L cfg propose now (chain_new pk (dbBlockchain ch) (dbState ch), cr0, s0) = Inr (ch', cr', s') \<Longrightarrow>
    chain_run C L cfg propose pk bs ch' cr' s'"
| other: "chain_run C L cfg propose pk bs ch cr s \<Longrightarrow> chain_run C L cfg propose pk bs ch cr' s'"

inductive_cases chain_run_NilE: "chain_run C L cfg propose pk [] ch cr s"

lemma chain_reset_ok:
  assumes L: "level_ok L" and m: "m = blockchain_max_blocks_in_memory cfg" "1 \<le> m"
    and g: "blk_height g = 1"
    and r: "chain_reset L cfg propose now g (chain_new pk dbb dbs, cr, s) = Inr (ch', cr', s')"
  shows "chain_ok m [g] ch' \<and> stores L [g] ch'"
proof -
  let ?db = "lv_put L (block_key 1) (block_text g) (lv_clear L dbb)"
  have e: "lv_entries L ?db = [(block_key 1, block_text g)]"
    using level_put_last [OF L, of "lv_clear L dbb" "block_key 1" "block_text g"] level_okD(5) [OF L] by simp
  have "updateBlockData L (block_key 1) (block_text g) (chain_clear L (chain_new pk dbb dbs))
      = chain_new pk ?db (lv_clear L dbs)"
    by (simp add: updateBlockData_def chain_clear_def chain_new_def)
  then have i: "chain_init L cfg propose now (chain_new pk ?db (lv_clear L dbs), cr, s) = Inr (ch', cr', s')"
    using r by (simp add: chain_reset_def Let_def)
  have "chain_ok m [g] ch' \<and> dbBlockchain ch' = ?db"
    using i by (rule chain_init_ok [where n = 1]) (use e m g in \<open>simp_all add: lv_values_def\<close>)
  then show ?thesis using e g by (simp add: stores_def)
qed

lemma chain_reset_quiet:
  assumes L: "level_ok L" and g: "quiet g"
  shows "\<exists>ch' cr'. chain_reset L cfg propose now g (chain_new pk dbb dbs, cr, s) = Inr (ch', cr', s)"
proof -
  have "lv_values L (lv_put L (block_key 1) (block_text g) (lv_clear L dbb)) = map block_text [g]"
    using level_put_last [OF L, of "lv_clear L dbb" "block_key 1" "block_text g"] level_okD(5) [OF L]
    by (simp add: lv_values_def)
  moreover have "list_all quiet [g]" using g by simp
  ultimately show ?thesis
    using init_loop_quiet [of "[g]"]
    by (simp add: chain_reset_def chain_init_def updateBlockData_def chain_clear_def chain_new_def Let_def
        del: init_loop.simps list.map)
qed

text \<open>What \<open>add\<close> does to a chain that holds the blocks \<open>bs\<close>.\<close>

lemma chain_add_ok:
  assumes L: "level_ok L" and m: "m = blockchain_max_blocks_in_memory cfg" "1 \<le> m"
    and inv: "chain_ok m bs ch" "stores L bs ch" and b: "blk_height b < 10 ^ 16"
    and r: "chain_add C L cfg propose now b (ch, cr, s) = Inr (True, b', ch', cr', s')"
  shows "chain_ok m (bs @ [b]) ch' \<and> stores L (bs @ [b]) ch'"
proof -
  let ?ch = "updateBlockData L (block_key (blk_height b)) (block_text b) ch"
  have g: "add_guard C ch b" using r by (simp add: chain_add_def split: if_splits)
  obtain b1 ch1 cr1 where p: "processState L cfg now b (?ch, cr) = (b1, ch1, cr1)"
    by (cases "processState L cfg now b (?ch, cr)") auto
  then have "updateCache cfg propose b1 (ch1, cr1, s) = Inr (ch', cr', s')"
    using r g by (auto simp: chain_add_def Let_def)
  then obtain vm where ch': "ch' = (cache_block cfg b1 ch1)\<lparr>mapVoteStake := vm\<rparr>" by (rule updateCache_Inr)
  have h: "blk_height b = ch_height ch + 1" using g by (simp add: add_guard_def)
  have lk: "bs = [] \<or> link (last bs) b"
    using g inv(1) by (simp add: add_guard_def chain_ok_def latest_is_def link_def split: if_splits)
  have ok: "chain_ok m bs ?ch"
    using inv(1) by (subst chain_ok_cong) (simp_all add: updateBlockData_def ledger_view_def)
  have "chain_ok m (bs @ [b]) ch'"
    using ok m _ lk p ch' by (rule process_then_cache) (simp add: h updateBlockData_def)
  moreover have "stores L (bs @ [b]) ch'"
  proof -
    have hs: "map blk_height bs = [1 .. ch_height ch]" "0 \<le> ch_height ch" using inv(1) by (simp_all add: chain_ok_def)
    have "block_key (blk_height a) < block_key (blk_height b)" if "a \<in> set bs" for a
    proof -
      have "blk_height a \<in> set [1 .. ch_height ch]" using that hs(1) by (metis image_eqI set_map)
      then show ?thesis using b h by (subst block_key_less) auto
    qed
    then have "lv_entries L (dbBlockchain ?ch)
        = map (\<lambda>b. (block_key (blk_height b), block_text b)) (bs @ [b])"
      using inv(2) level_put_last [OF L, of "dbBlockchain ch" "block_key (blk_height b)"]
      by (auto simp: stores_def updateBlockData_def)
    moreover have "dbBlockchain ch' = dbBlockchain ?ch"
      using processState_frame [OF p] by (simp add: ch' cache_block_fields same_frame_def)
    ultimately show ?thesis by (simp add: stores_def)
  qed
  ultimately show ?thesis ..
qed

text \<open>An accepted block that starts no stake vote is added.\<close>

lemma chain_add_quiet:
  assumes "add_guard C ch b" and "quiet b"
  shows "\<exists>b' ch' cr'. chain_add C L cfg propose now b (ch, cr, s) = Inr (True, b', ch', cr', s)"
proof -
  let ?ch = "updateBlockData L (block_key (blk_height b)) (block_text b) ch"
  obtain b1 ch1 cr1 where p: "processState L cfg now b (?ch, cr) = (b1, ch1, cr1)"
    by (cases "processState L cfg now b (?ch, cr)") auto
  have "hash_match_count b1 = hash_match_count b"
    by (simp only: hash_match_count_def processState_block [OF p])
  then have "quiet b1" using assms(2) by (simp add: quiet_def)
  from updateCache_quiet [OF this] show ?thesis
    using assms(1) p by (fastforce simp: chain_add_def Let_def)
qed

section \<open>Every reachable chain\<close>

lemma chain_run_ok:
  assumes "chain_run C L cfg propose pk bs ch cr s" and "level_ok L"
    and "1 \<le> blockchain_max_blocks_in_memory cfg"
  shows "chain_ok (blockchain_max_blocks_in_memory cfg) bs ch \<and> stores L bs ch"
  using assms
proof (induction rule: chain_run.induct)
  case (boot g now dbb dbs cr s ch' cr' s')
  then show ?case by (intro chain_reset_ok) simp_all
next
  case (grow bs ch cr s b now b' ch' cr' s')
  then show ?case by (intro chain_add_ok [where ch = ch and b = b and cr = cr]) simp_all
next
  case (restart bs ch cr s now cr0 s0 ch' cr' s')
  then have ok: "chain_ok (blockchain_max_blocks_in_memory cfg) bs ch" "stores L bs ch" by simp_all
  then have "chain_ok (blockchain_max_blocks_in_memory cfg) bs ch' \<and> dbBlockchain ch' = dbBlockchain ch"
    by (intro chain_init_ok [OF restart.hyps(2), where n = "ch_height ch"])
      (use restart.prems in \<open>simp_all add: stores_values chain_ok_def\<close>)
  then show ?case using ok by (simp add: stores_def)
qed simp

lemma chain_run_nonempty: "\<not> chain_run C L cfg propose pk [] ch cr s"
proof
  assume "chain_run C L cfg propose pk [] ch cr s"
  then show False by (induction "[] :: block list" ch cr s rule: chain_run.induct) simp_all
qed

section \<open>Decisions and the state store\<close>

lemma replay_decisions: "arrayTakenDecision (fst (replay L bs s)) = arrayTakenDecision (fst s)"
proof (induction bs arbitrary: s)
  case (Cons b bs)
  have "same_frame (fst s) (fst (snd (process_txs L (blk_tx b) s)))"
    by (rule inv_frame.keep_txs) (simp_all add: list_all_iff)
  then show ?case using Cons by (simp add: same_frame_def)
qed simp

lemma chain_ok_decisions: "chain_ok m bs ch \<Longrightarrow> arrayTakenDecision ch = []"
proof -
  assume "chain_ok m bs ch"
  then have "ledger_view ch = ledger_view (fst (replay null_level bs (chain_new [] () (), [])))"
    by (simp add: chain_ok_def ledger_of_def)
  then show ?thesis by (simp add: ledger_view_eq replay_decisions chain_new_def)
qed

definition schema_commands :: "block \<Rightarrow> bool" where
  "schema_commands b \<longleftrightarrow> list_all (\<lambda>t. list_all schema_command (tx_commands t)) (blk_tx b)"

lemma schema_commands_valid: "add_guard C ch b \<Longrightarrow> schema_commands b"
  by (auto simp: schema_commands_def add_guard_def validateBlock_iff validateTx_def schema_tx_def list_all_iff)

lemma state_mirror_cong:
  "mapPeer ch' = mapPeer ch \<Longrightarrow> dbState ch' = dbState ch \<Longrightarrow>
    arrayTakenDecision ch' = arrayTakenDecision ch \<Longrightarrow> state_mirror L ch' = state_mirror L ch"
  by (simp add: state_mirror_def)

lemma cache_block_mirror [simp]:
  "state_mirror L ((cache_block cfg b ch)\<lparr>mapVoteStake := vm\<rparr>) = state_mirror L ch"
  "state_mirror L (refresh_cached b ch) = state_mirror L ch"
  by (rule state_mirror_cong; simp add: cache_block_def refresh_cached_def Let_def)+

lemma processState_mirror_commands:
  assumes "level_ok L" "state_mirror L ch" "schema_commands b"
    and "processState L cfg now b (ch, cr) = (b', ch', cr')"
  shows "state_mirror L ch'"
  using inv_mirror.keep_processState [of L ch cr b cfg now b' "(ch', cr')"] assms
  by (simp add: schema_commands_def)

lemma init_loop_mirror:
  assumes "level_ok L" and "state_mirror L ch" and "list_all schema_commands cs"
    and "init_loop L cfg propose now (map block_text cs) (ch, cr, s) = Inr (ch', cr', s')"
  shows "state_mirror L ch'"
  using assms(2-4)
proof (induction cs arbitrary: ch cr s)
  case (Cons c cs)
  obtain ch1 cr1 s1 where u: "updateCache cfg propose c (ch, cr, s) = Inr (ch1, cr1, s1)"
    and r: "(case processState L cfg now c (ch1, cr1) of (b', ch2, cr2) \<Rightarrow>
       init_loop L cfg propose now (map block_text cs) (refresh_cached b' ch2, cr2, s1)) = Inr (ch', cr', s')"
    using Cons.prems(3) by auto
  obtain b' ch2 cr2 where p: "processState L cfg now c (ch1, cr1) = (b', ch2, cr2)"
    by (cases "processState L cfg now c (ch1, cr1)") auto
  have "state_mirror L ch1" using u Cons.prems(1) by (auto elim: updateCache_Inr)
  then have "state_mirror L ch2"
    using processState_mirror_commands [OF assms(1) _ _ p] Cons.prems(2) by simp
  then show ?case using Cons.IH [of "refresh_cached b' ch2" cr2 s1] Cons.prems r p by simp
qed simp

lemma state_mirror_new: "level_ok L \<Longrightarrow> state_mirror L (chain_new pk dbb (lv_clear L dbs))"
  using level_okD(2,5) by (force simp: state_mirror_def chain_new_def)

lemma chain_init_mirror:
  assumes "level_ok L" and "lv_values L dbb = map block_text bs" and "list_all schema_commands bs"
    and "chain_init L cfg propose now (chain_new pk dbb dbs, cr, s) = Inr (ch', cr', s')"
  shows "state_mirror L ch'"
proof -
  have "(chain_new pk dbb dbs)\<lparr>ch_height := 0, mapBlocks := jm_empty, latestBlock := None,
      dbState := lv_clear L dbs\<rparr> = chain_new pk dbb (lv_clear L dbs)"
    by (simp add: chain_new_def)
  then have "init_loop L cfg propose now (map block_text bs) (chain_new pk dbb (lv_clear L dbs), cr, s)
      = Inr (ch', cr', s')"
    using assms(2,4) by (simp add: chain_init_def Let_def) (simp add: chain_new_def)
  then show ?thesis by (rule init_loop_mirror [OF assms(1) state_mirror_new [OF assms(1)] assms(3)])
qed

lemma chain_run_mirror:
  assumes "chain_run C L cfg propose pk bs ch cr s" and "level_ok L"
    and "1 \<le> blockchain_max_blocks_in_memory cfg" and "schema_commands (hd bs)"
  shows "list_all schema_commands bs \<and> state_mirror L ch"
  using assms
proof (induction rule: chain_run.induct)
  case (boot g now dbb dbs cr s ch' cr' s')
  let ?db = "lv_put L (block_key 1) (block_text g) (lv_clear L dbb)"
  have "lv_values L ?db = map block_text [g]"
    using level_put_last [OF boot.prems(1), of "lv_clear L dbb" "block_key 1" "block_text g"]
      level_okD(5) [OF boot.prems(1)] by (simp add: lv_values_def)
  moreover have "updateBlockData L (block_key 1) (block_text g) (chain_clear L (chain_new pk dbb dbs))
      = chain_new pk ?db (lv_clear L dbs)"
    by (simp add: updateBlockData_def chain_clear_def chain_new_def)
  ultimately show ?case
    using boot chain_init_mirror [of L ?db "[g]" cfg propose now pk "lv_clear L dbs"]
    by (simp add: chain_reset_def Let_def)
next
  case (grow bs ch cr s b now b' ch' cr' s')
  let ?ch = "updateBlockData L (block_key (blk_height b)) (block_text b) ch"
  have ne: "bs \<noteq> []" using grow.hyps(1) by (auto simp: chain_run_nonempty)
  then have ih: "list_all schema_commands bs" "state_mirror L ch" using grow by simp_all
  have g: "add_guard C ch b" using grow.hyps(3) by (simp add: chain_add_def split: if_splits)
  obtain b1 ch1 cr1 where p: "processState L cfg now b (?ch, cr) = (b1, ch1, cr1)"
    by (cases "processState L cfg now b (?ch, cr)") auto
  then have u: "updateCache cfg propose b1 (ch1, cr1, s) = Inr (ch', cr', s')"
    using grow.hyps(3) g by (auto simp: chain_add_def Let_def)
  have "state_mirror L ?ch"
    using ih(2) by (subst state_mirror_cong) (simp_all add: updateBlockData_def)
  then have "state_mirror L ch1"
    using processState_mirror_commands [OF grow.prems(1) _ schema_commands_valid [OF g] p] by simp
  then show ?case using u ih(1) schema_commands_valid [OF g] by (auto elim: updateCache_Inr)
next
  case (restart bs ch cr s now cr0 s0 ch' cr' s')
  have "stores L bs ch"
    using chain_run_ok [OF restart.hyps(1) restart.prems(1,2)] by simp
  moreover have "list_all schema_commands bs" using restart by simp
  ultimately show ?case
    using chain_init_mirror [OF restart.prems(1) stores_values _ restart.hyps(2)] by simp
qed simp

section \<open>A second reset\<close>

text \<open>
  \<open>clear\<close> forgets the peers and keeps \<open>quorumWeighted\<close>: the old total stays in the sum.
\<close>

lemma chain_clear_offset: "stake_inv 0 ch \<Longrightarrow> stake_inv (quorumWeighted ch) (chain_clear L ch)"
  by (simp add: stake_inv_def chain_clear_def jm.total_empty)

lemma init_loop_stake:
  assumes "init_loop L cfg propose now vs (ch, cr, s) = Inr (ch', cr', s')" and "stake_inv d ch"
  shows "stake_inv d ch'"
  using assms
proof (induction vs arbitrary: ch cr s)
  case (Cons v vs)
  obtain b ch1 cr1 s1 where u: "updateCache cfg propose b (ch, cr, s) = Inr (ch1, cr1, s1)"
    and r: "(case processState L cfg now b (ch1, cr1) of (b', ch2, cr2) \<Rightarrow>
       init_loop L cfg propose now vs (refresh_cached b' ch2, cr2, s1)) = Inr (ch', cr', s')"
    using Cons.prems(1) by auto
  obtain b' ch2 cr2 where p: "processState L cfg now b (ch1, cr1) = (b', ch2, cr2)"
    by (cases "processState L cfg now b (ch1, cr1)") auto
  obtain vm where ch1: "ch1 = (cache_block cfg b ch)\<lparr>mapVoteStake := vm\<rparr>" using u by (rule updateCache_Inr)
  have "stake_inv d ch1" using Cons.prems(2) cache_block_fields(5) [of d cfg b ch] by (simp add: ch1 stake_inv_def)
  then have "stake_inv d ch2" using p by (rule processState_stake)
  then have "stake_inv d (refresh_cached b' ch2)" by (simp add: refresh_cached_def stake_inv_def)
  then show ?case using Cons.IH r p by simp
qed simp

lemma chain_reset_offset:
  assumes "stake_inv 0 ch" and "chain_reset L cfg propose now g (ch, cr, s) = Inr (ch', cr', s')"
  shows "stake_inv (quorumWeighted ch) ch'"
proof -
  have "stake_inv (quorumWeighted ch) ((updateBlockData L (block_key 1) (block_text g) (chain_clear L ch))
      \<lparr>ch_height := 0, mapBlocks := jm_empty, latestBlock := None, dbState := d\<rparr>)" for d
    using chain_clear_offset [OF assms(1), of L] by (simp add: stake_inv_def updateBlockData_def)
  then show ?thesis
    using assms(2) init_loop_stake by (fastforce simp: chain_reset_def chain_init_def Let_def)
qed

lemma offset_no_quorum:
  assumes inv: "stake_inv d ch" and d: "jm.total p_stake (mapPeer ch) \<le> d" and xs: "distinct xs"
  shows "\<not> hasQuorumWeighted ch xs"
proof -
  let ?t = "jm.total p_stake (mapPeer ch)"
  let ?ch = "ch\<lparr>quorumWeighted := ?t\<rparr>"
  have ok: "stake_inv 0 ?ch" using inv by (simp add: stake_inv_def)
  have g: "getStake ?ch = getStake ch" by (simp add: getStake_def [abs_def] getPeer_def)
  have "sum_list (map (getStake ?ch) xs) = (\<Sum>p \<in> set xs \<inter> dom (jm_get (mapPeer ?ch)). getStake ?ch p)"
    using ok xs by (rule wq.weight_of_set)
  also have "\<dots> \<le> (\<Sum>p \<in> dom (jm_get (mapPeer ?ch)). getStake ?ch p)"
    using wq.finite_members [OF ok] wq.weight_nonneg [OF ok] by (intro sum_mono2) auto
  also have "\<dots> = quorumWeighted ?ch" using wq.total_weight [OF ok] by simp
  finally have "sum_list (map (getStake ch) xs) \<le> ?t" by (simp add: g)
  then show ?thesis using d stake_invD(4) [OF inv] by (simp add: hasQuorumWeighted_iff)
qed

end
