(* ===== verification/Samples.thy ===== *)
theory Samples
  imports Chain_Run
begin

text \<open>
  Concrete instances of the parameters and a few blocks, for evaluating the model on
  inputs: a hash that tells lengths apart, signatures made of the key and the length
  of the message modulo 1000, and the store in memory. Keys and signatures have the lengths of the schemas.
\<close>

definition demo_hash :: "string \<Rightarrow> string" where
  "demo_hash s = ''ABCDEFGHIJKLMNOPQRSTUVWXYZabcdefghijklm'' @ padStart 4 (CHR ''0'') (dec_of_nat (length s))"

definition demo_sign :: "string \<Rightarrow> string \<Rightarrow> string" where
  "demo_sign m k = k @ padStart 43 (CHR ''0'') (dec_of_nat (length m mod 1000))"

text \<open>Hexadecimal text in the role of padded base64url; hashes, keys and signatures are text already.\<close>

fun demo_encode :: "string \<Rightarrow> string" where
  "demo_encode [] = []"
| "demo_encode (c # s) = hex_digit (of_char c div 16) # hex_digit (of_char c mod 16) # demo_encode s"

fun demo_decode :: "string \<Rightarrow> string option" where
  "demo_decode (a # b # s) =
     (case (unhex a, unhex b, demo_decode s) of
        (Some x, Some y, Some r) \<Rightarrow> Some (char_of (16 * x + y) # r) | _ \<Rightarrow> None)"
| "demo_decode s = (if s = [] then Some [] else None)"

definition demo_crypto :: crypto where
  "demo_crypto =
     \<lparr>sha256 = demo_hash,
      b64_stringify = (\<lambda>pad s. if pad then demo_encode s else s),
      b64_parse = (\<lambda>loose s. if loose then Some s else demo_decode s),
      verify_detached = (\<lambda>sig m k. Some (sig = demo_sign m k)), sign_detached = demo_sign,
      deflate_raw = (\<lambda>s. CHR ''d'' # s), inflate_raw = (\<lambda>s. if s = [] then None else Some (tl s))\<rparr>"

definition demo_key :: "char \<Rightarrow> string" where
  "demo_key c = replicate 43 c"

definition demo_wallet :: "char \<Rightarrow> wallet" where
  "demo_wallet c = \<lparr>wallet_public = demo_key c, wallet_secret = demo_key c\<rparr>"

definition demo_cfg :: config where
  "demo_cfg = \<lparr>is_testnet = True, debug_performance = False, bootstrap_url = [],
     network_p2p_interval_ms = 10000, network_sync_size = 10, blockchain_max_blocks_in_memory = 2,
     api_max_query_size = 50\<rparr>"

text \<open>A genesis block whose transaction adds one peer per character.\<close>

definition demo_add_peer :: "char \<Rightarrow> command" where
  "demo_add_peer c = AddPeer (Some 1) (''http-'' @ [c]) (''udp-'' @ [c]) (demo_key c)"

definition demo_genesis :: "string \<Rightarrow> block" where
  "demo_genesis cs =
     (let txs = [\<lparr>tx_ident = ''genesis'', tx_origin = replicate 43 CHR ''0'',
                   tx_commands = map demo_add_peer cs, tx_sig = replicate 86 CHR ''0''\<rparr>]
      in \<lparr>blk_version = 7, blk_previousHash = replicate 43 CHR ''0'', blk_hash = demo_hash [],
          blk_tx = txs, blk_height = 1, blk_votes = []\<rparr>)"

definition demo_tx :: "char \<Rightarrow> int \<Rightarrow> command list \<Rightarrow> transaction" where
  "demo_tx c h commands = Transaction_make demo_crypto (demo_wallet c) h ''t'' commands"

definition demo_data :: "char \<Rightarrow> int \<Rightarrow> transaction" where
  "demo_data c h = demo_tx c h [Data (Some 1) ''test:abc'' ''value'']"

definition demo_vote :: "block \<Rightarrow> char \<Rightarrow> vote" where
  "demo_vote b c = \<lparr>vote_origin = demo_key c, vote_sig = wallet_sign demo_crypto (demo_wallet c) (blk_hash b)\<rparr>"

definition demo_block :: "block \<Rightarrow> transaction list \<Rightarrow> string \<Rightarrow> block" where
  "demo_block p txs voters =
     (let b = Block_make demo_crypto p txs in b\<lparr>blk_votes := map (demo_vote b) voters\<rparr>)"

text \<open>The node refuses every stake proposal, as after start without credits.\<close>

definition no_propose :: "('db, 's) propose" where
  "no_propose ch k i n st = Inr (False, st)"

definition demo_boot :: "string \<Rightarrow> ((string \<times> string) list chain \<times> credits \<times> unit) result" where
  "demo_boot cs =
     chain_reset mem_level demo_cfg no_propose 0 (demo_genesis cs) (chain_new (demo_key CHR ''a'') [] [], [], ())"

lemma demo_sign_ok: "sign_ok demo_crypto (demo_wallet c)"
  by (simp add: sign_ok_def demo_crypto_def demo_wallet_def getPublicKey_def wallet_sign_def)

lemma demo_max: "1 \<le> blockchain_max_blocks_in_memory demo_cfg"
  by (simp add: demo_cfg_def)


definition demo_chain :: "string \<Rightarrow> (string \<times> string) list chain" where
  "demo_chain cs = (case demo_boot cs of Inl e \<Rightarrow> chain_new [] [] [] | Inr (ch, cr, s) \<Rightarrow> ch)"

lemma demo_hash_quiet:
  assumes "blk_hash b = demo_hash s" and "blk_height b = 1 \<or> blk_height b = 2"
  shows "quiet b"
proof -
  let ?d = "padStart 4 (CHR ''0'') (dec_of_nat (length s))"
  have "is_digit CHR ''0''" by (simp add: is_digit_def)
  then have "list_all is_digit ?d"
    using digits_dec_of_nat [of "length s"] by (auto simp: padStart_def list_all_iff)
  then have "count_list ?d c = 0" if "\<not> is_digit c" for c
    using that by (auto simp: count_list_0_iff list_all_iff)
  then have d: "count_list ?d CHR ''B'' = 0" "count_list ?d CHR ''C'' = 0" by (simp_all add: is_digit_def)
  have n: "demo_hash s ! 1 = CHR ''B''" "demo_hash s ! 2 = CHR ''C''" "demo_hash s \<noteq> []"
    by (simp_all add: demo_hash_def)
  have c: "count_list (demo_hash s) CHR ''B'' = 1" "count_list (demo_hash s) CHR ''C'' = 1"
    using d by (simp_all add: demo_hash_def)
  have "3 \<le> length (demo_hash s)" by (simp add: demo_hash_def)
  then have "hash_match_count b = count_list (demo_hash s) (demo_hash s ! nat (blk_height b))"
    using assms n(3) by (auto simp: hash_match_count_def Let_def)
  then have "hash_match_count b = 1" using assms(2) n c by auto
  then show ?thesis by (simp add: quiet_def STAKE_VOTE_MATCH_THRESHOLD_def)
qed

lemma demo_quiet: "quiet (demo_genesis cs)"
  by (rule demo_hash_quiet) (simp_all add: demo_genesis_def Let_def)

lemma demo_genesis_height: "blk_height (demo_genesis cs) = 1"
  by (simp add: demo_genesis_def Let_def)

lemma demo_boot_chain: "\<exists>cr. demo_boot ''abc'' = Inr (demo_chain ''abc'', cr, ())"
proof -
  obtain ch cr where "demo_boot ''abc'' = Inr (ch, cr, ())"
    using chain_reset_quiet [OF mem_level_ok demo_quiet [of "''abc''"], of demo_cfg no_propose 0 "demo_key CHR ''a''" "[]" "[]" "[]" "()"]
    unfolding demo_boot_def by blast
  then show ?thesis by (simp add: demo_chain_def)
qed

lemma demo_chain_ok:
  "chain_ok (blockchain_max_blocks_in_memory demo_cfg) [demo_genesis ''abc''] (demo_chain ''abc'')"
  "stores mem_level [demo_genesis ''abc''] (demo_chain ''abc'')"
proof -
  obtain cr where "chain_reset mem_level demo_cfg no_propose 0 (demo_genesis ''abc'')
      (chain_new (demo_key CHR ''a'') [] [], [], ()) = Inr (demo_chain ''abc'', cr, ())"
    using demo_boot_chain unfolding demo_boot_def by blast
  from chain_reset_ok [OF mem_level_ok refl demo_max demo_genesis_height this]
  show "chain_ok (blockchain_max_blocks_in_memory demo_cfg) [demo_genesis ''abc''] (demo_chain ''abc'')"
    and "stores mem_level [demo_genesis ''abc''] (demo_chain ''abc'')" by simp_all
qed

text \<open>The second block, with the votes of two of the three peers.\<close>

definition demo_next :: "transaction list \<Rightarrow> block" where
  "demo_next txs = demo_block (demo_genesis ''abc'') txs ''ab''"

lemma demo_chain_fields:
  "ch_height (demo_chain ''abc'') = 1"
  "map_option blk_hash (latestBlock (demo_chain ''abc'')) = Some (blk_hash (demo_genesis ''abc''))"
  using chain_ok_height [OF demo_chain_ok(1)] demo_chain_ok(1) by (simp_all add: chain_ok_def latest_is_def)

lemma demo_chain_view:
  "ledger_view (demo_chain ''abc'')
    = ledger_view (fst (replay null_level [demo_genesis ''abc''] (chain_new [] () (), [])))"
  using demo_chain_ok(1) by (simp add: chain_ok_def ledger_of_def)

lemma demo_quorum: "hasQuorumWeighted (demo_chain ''abc'') [demo_key CHR ''a'', demo_key CHR ''b'']"
proof -
  have "hasQuorumWeighted (fst (replay null_level [demo_genesis ''abc''] (chain_new [] () (), [])))
      [demo_key CHR ''a'', demo_key CHR ''b'']" by code_simp
  then show ?thesis using view_hasQuorum [OF demo_chain_view] by blast
qed

lemma demo_next_fields:
  "blk_height (demo_next txs) = 2" "blk_tx (demo_next txs) = txs"
  "blk_previousHash (demo_next txs) = blk_hash (demo_genesis ''abc'')"
  "blk_votes (demo_next txs) = [demo_vote (demo_next txs) CHR ''a'', demo_vote (demo_next txs) CHR ''b'']"
  "block_hash_ok demo_crypto (demo_next txs)"
  by (simp_all add: demo_next_def demo_block_def demo_genesis_def Block_make_def block_hash_ok_def
      demo_vote_def Let_def)

lemma demo_next_quiet: "quiet (demo_next txs)"
  by (rule demo_hash_quiet) (simp_all add: demo_next_def demo_block_def demo_genesis_def Block_make_def
    Util_hash_def demo_crypto_def Let_def)

lemma demo_vote_ok: "verifySignature demo_crypto (vote_origin (demo_vote b c)) (vote_sig (demo_vote b c)) (blk_hash b)"
  using verify_own [OF demo_sign_ok] by (simp add: demo_vote_def getPublicKey_def demo_crypto_def demo_wallet_def)

lemma demo_next_guard:
  assumes "txs \<noteq> []" and "distinct (map tx_origin txs)"
    and "\<forall>t \<in> set txs. validateTx demo_crypto (demo_chain ''abc'') 2 t"
  shows "add_guard demo_crypto (demo_chain ''abc'') (demo_next txs)"
proof -
  have "distinct [demo_key CHR ''a'', demo_key CHR ''b'']" by (simp add: demo_key_def)
  then have "votes_ok demo_crypto (demo_chain ''abc'') (demo_next txs)"
    using demo_quorum demo_vote_ok [of "demo_next txs"]
    by (simp add: votes_ok_def demo_next_fields(4)) (simp add: demo_vote_def)
  then show ?thesis
    using assms demo_chain_fields by (auto simp: add_guard_def validateBlock_iff demo_next_fields)
qed

lemma demo_tx_valid:
  assumes "validateTx demo_crypto (chain_new [] [] []) h (demo_tx c h cs)"
    and "\<forall>c \<in> set cs. case c of Decision s n h d \<Rightarrow> False | _ \<Rightarrow> True"
  shows "validateTx demo_crypto ch h (demo_tx c h cs)"
  using assms by (auto simp: validateTx_iff demo_tx_def Transaction_make_def command_allowed_def
      split: command.splits)

definition demo_block2 :: block where
  "demo_block2 = demo_next [demo_data CHR ''a'' 2]"

lemma demo_guard: "add_guard demo_crypto (demo_chain ''abc'') demo_block2"
proof -
  have "validateTx demo_crypto (chain_new [] [] []) 2 (demo_data CHR ''a'' 2)" by code_simp
  then have "validateTx demo_crypto (demo_chain ''abc'') 2 (demo_data CHR ''a'' 2)"
    unfolding demo_data_def by (rule demo_tx_valid) simp
  then show ?thesis unfolding demo_block2_def by (intro demo_next_guard) simp_all
qed

lemma demo_block2_height: "blk_height demo_block2 = 2"
  by (simp add: demo_block2_def demo_next_fields)

lemma demo_block2_quiet: "quiet demo_block2"
  unfolding demo_block2_def by (rule demo_next_quiet)

end
