(* ===== verification/Chain_Theorems.thy ===== *)
theory Chain_Theorems
  imports Samples
begin

text \<open>
  The properties of the ledger, of block validation and of the chain, over every
  reachable chain where that is what they are about, each with a concrete instance.
\<close>

section \<open>Agreement\<close>

lemma validateTx_view:
  "ledger_view ch1 = ledger_view ch2 \<Longrightarrow> validateTx C ch1 h t = validateTx C ch2 h t"
proof -
  assume "ledger_view ch1 = ledger_view ch2"
  then have "isDecisionTaken ch1 = isDecisionTaken ch2"
    by (simp add: isDecisionTaken_def [abs_def] ledger_view_eq)
  then have "command_allowed ch1 h t = command_allowed ch2 h t"
    by (intro ext) (simp add: command_allowed_def split: command.split)
  then show ?thesis by (simp add: validateTx_def)
qed

lemma validateBlock_view:
  assumes "ledger_view ch1 = ledger_view ch2"
  shows "validateBlock C ch1 b d = validateBlock C ch2 b d"
  using validateTx_view [OF assms] view_hasQuorum [OF assms] by (simp add: validateBlock_iff votes_ok_def)

text \<open>C2: Two nodes that stored the same blocks, with whatever keys, stores, cache sizes, restarts and stake
  proposals, have the same height, peers, stakes, total, pending stake votes and latest hash, and accept the
  same next blocks.\<close>

theorem nodes_agree:
  assumes "chain_run C L1 cfg1 propose1 pk1 bs ch1 cr1 s1" and "level_ok L1"
    and "1 \<le> blockchain_max_blocks_in_memory cfg1"
    and "chain_run C L2 cfg2 propose2 pk2 bs ch2 cr2 s2" and "level_ok L2"
    and "1 \<le> blockchain_max_blocks_in_memory cfg2"
  shows "ch_height ch1 = ch_height ch2 \<and> ledger_view ch1 = ledger_view ch2 \<and>
    map_option blk_hash (latestBlock ch1) = map_option blk_hash (latestBlock ch2) \<and>
    add_guard C ch1 b = add_guard C ch2 b"
proof -
  have ok: "chain_ok (blockchain_max_blocks_in_memory cfg1) bs ch1"
    "chain_ok (blockchain_max_blocks_in_memory cfg2) bs ch2"
    using assms chain_run_ok by metis+
  have h: "ch_height ch1 = ch_height ch2" using ok [THEN chain_ok_height] by simp
  have v: "ledger_view ch1 = ledger_view ch2" using ok by (simp add: chain_ok_def)
  have l: "map_option blk_hash (latestBlock ch1) = map_option blk_hash (latestBlock ch2)"
    using ok by (simp add: chain_ok_def latest_is_def)
  show ?thesis using h v l validateBlock_view [OF v] by (simp only: add_guard_def)
qed

text \<open>A run of one node over a genesis block and a further block, for the instances.\<close>

lemma demo_run1: "\<exists>cr. chain_run demo_crypto mem_level demo_cfg no_propose (demo_key CHR ''a'')
    [demo_genesis ''abc''] (demo_chain ''abc'') cr ()"
proof -
  obtain cr where "chain_reset mem_level demo_cfg no_propose 0 (demo_genesis ''abc'')
      (chain_new (demo_key CHR ''a'') [] [], [], ()) = Inr (demo_chain ''abc'', cr, ())"
    using demo_boot_chain unfolding demo_boot_def by blast
  then show ?thesis using chain_run.boot [OF demo_genesis_height] by metis
qed

lemma demo_add: "\<exists>b' ch' cr'. chain_add demo_crypto mem_level demo_cfg no_propose 0 demo_block2
    (demo_chain ''abc'', cr, ()) = Inr (True, b', ch', cr', ())"
  using demo_guard demo_block2_quiet by (rule chain_add_quiet)

lemma demo_run2: "\<exists>ch cr. chain_run demo_crypto mem_level demo_cfg no_propose (demo_key CHR ''a'')
    [demo_genesis ''abc'', demo_block2] ch cr ()"
proof -
  obtain cr where r: "chain_run demo_crypto mem_level demo_cfg no_propose (demo_key CHR ''a'')
    [demo_genesis ''abc''] (demo_chain ''abc'') cr ()" using demo_run1 by blast
  obtain b' ch' cr' where a: "chain_add demo_crypto mem_level demo_cfg no_propose 0 demo_block2
    (demo_chain ''abc'', cr, ()) = Inr (True, b', ch', cr', ())" using demo_add by blast
  have "blk_height demo_block2 < 10 ^ 16" by (simp add: demo_block2_height)
  from chain_run.grow [OF r this a] show ?thesis by auto
qed

theorem nodes_agree_witness:
  "\<exists>ch cr. chain_run demo_crypto mem_level demo_cfg no_propose (demo_key CHR ''a'')
       [demo_genesis ''abc''] ch cr () \<and> ledger_view ch = ledger_view (demo_chain ''abc'')"
  using demo_run1 nodes_agree [OF _ mem_level_ok demo_max _ mem_level_ok demo_max] by blast

text \<open>C1: Two blocks that two nodes with the same stored blocks accept at the same height carry valid
  signatures, each of its own hash, of one and the same voter with positive stake: blocks can conflict only
  if a staked peer signed both.\<close>

theorem conflicting_blocks_share_voter:
  assumes "chain_run C L1 cfg1 propose1 pk1 bs ch1 cr1 s1" and "level_ok L1"
    and "1 \<le> blockchain_max_blocks_in_memory cfg1"
    and "chain_run C L2 cfg2 propose2 pk2 bs ch2 cr2 s2" and "level_ok L2"
    and "1 \<le> blockchain_max_blocks_in_memory cfg2"
    and "add_guard C ch1 b1" and "add_guard C ch2 b2"
  shows "\<exists>v1 v2. v1 \<in> set (blk_votes b1) \<and> v2 \<in> set (blk_votes b2) \<and>
    vote_origin v1 = vote_origin v2 \<and> 0 < getStake ch1 (vote_origin v1) \<and>
    verifySignature C (vote_origin v1) (vote_sig v1) (blk_hash b1) \<and>
    verifySignature C (vote_origin v2) (vote_sig v2) (blk_hash b2)"
proof -
  have ok: "chain_ok (blockchain_max_blocks_in_memory cfg1) bs ch1"
    "chain_ok (blockchain_max_blocks_in_memory cfg2) bs ch2"
    using assms chain_run_ok by metis+
  then have v: "ledger_view ch1 = ledger_view ch2" and i: "stake_inv 0 ch1" by (simp_all add: chain_ok_def)
  have "votes_ok C ch1 b1" "votes_ok C ch2 b2" using assms by (simp_all add: add_guard_def validateBlock_iff)
  then have "votes_ok C ch1 b1" "votes_ok C ch1 b2" by (simp_all add: votes_ok_def view_hasQuorum [OF v])
  with i show ?thesis by (rule valid_blocks_share_voter)
qed

theorem conflicting_blocks_share_voter_witness:
  "\<exists>v. v \<in> set (blk_votes demo_block2) \<and> 0 < getStake (demo_chain ''abc'') (vote_origin v) \<and>
     verifySignature demo_crypto (vote_origin v) (vote_sig v) (blk_hash demo_block2)"
proof -
  obtain cr where r: "chain_run demo_crypto mem_level demo_cfg no_propose (demo_key CHR ''a'')
    [demo_genesis ''abc''] (demo_chain ''abc'') cr ()" using demo_run1 by blast
  from conflicting_blocks_share_voter [OF r mem_level_ok demo_max r mem_level_ok demo_max demo_guard demo_guard]
  show ?thesis by blast
qed

section \<open>The store\<close>

text \<open>C3: \<open>add\<close> refines appending to a list of blocks: it answers true exactly when the block carries the next
  height, the latest hash and passes validation; then the store holds the old texts and the block's text after
  them, and the chain is at the block's height. Otherwise nothing changes.\<close>

theorem add_refines_append:
  assumes "chain_run C L cfg propose pk bs ch cr s" and "level_ok L"
    and "1 \<le> blockchain_max_blocks_in_memory cfg" and "blk_height b < 10 ^ 16"
    and "chain_add C L cfg propose now b (ch, cr, s) = Inr (ok, b', ch', cr', s')"
  shows "ok = add_guard C ch b \<and> lv_values L (dbBlockchain ch) = map block_text bs \<and>
    (if ok then lv_values L (dbBlockchain ch') = map block_text (bs @ [b]) \<and>
       ch_height ch' = blk_height b \<and> map_option blk_hash (latestBlock ch') = Some (blk_hash b)
     else (ch', cr', s') = (ch, cr, s))"
proof -
  let ?m = "blockchain_max_blocks_in_memory cfg"
  have inv: "chain_ok ?m bs ch" "stores L bs ch" using chain_run_ok [OF assms(1-3)] by simp_all
  show ?thesis
  proof (cases "add_guard C ch b")
    case False
    then show ?thesis using assms(5) stores_values [OF inv(2)] by (auto simp: chain_add_def)
  next
    case True
    then have ok: "ok = True" using assms(5) by (auto simp: chain_add_def Let_def split: prod.splits)
    then have "chain_ok ?m (bs @ [b]) ch' \<and> stores L (bs @ [b]) ch'"
      using assms by (intro chain_add_ok [OF assms(2) refl assms(3) inv assms(4)]) simp
    then have o: "chain_ok ?m (bs @ [b]) ch'" "stores L (bs @ [b]) ch'" by simp_all
    have h: "ch_height ch' = blk_height b"
      using chain_ok_height [OF o(1)] chain_ok_height [OF inv(1)] True by (simp add: add_guard_def)
    have l: "map_option blk_hash (latestBlock ch') = Some (blk_hash b)"
      using o(1) by (simp add: chain_ok_def latest_is_def)
    show ?thesis using True ok stores_values [OF o(2)] stores_values [OF inv(2)] h l by simp
  qed
qed

theorem add_refines_append_witness:
  "\<exists>ch'. lv_values mem_level (dbBlockchain ch') = map block_text [demo_genesis ''abc'', demo_block2] \<and>
     ch_height (ch' :: (string \<times> string) list chain) = 2"
proof -
  obtain cr where r: "chain_run demo_crypto mem_level demo_cfg no_propose (demo_key CHR ''a'')
    [demo_genesis ''abc''] (demo_chain ''abc'') cr ()" using demo_run1 by blast
  obtain b' ch' cr' where a: "chain_add demo_crypto mem_level demo_cfg no_propose 0 demo_block2
    (demo_chain ''abc'', cr, ()) = Inr (True, b', ch', cr', ())" using demo_add by blast
  have "blk_height demo_block2 < 10 ^ 16" by (simp add: demo_block2_height)
  from add_refines_append [OF r mem_level_ok demo_max this a] show ?thesis
    by (auto simp: demo_block2_height)
qed

text \<open>C25: On every reachable chain the stored blocks are numbered from 1 and linked by their hashes, and the
  cache holds exactly the last \<open>min max height\<close> of their heights, in order.\<close>

theorem chain_shape:
  assumes "chain_run C L cfg propose pk bs ch cr s" and "level_ok L"
    and "1 \<le> blockchain_max_blocks_in_memory cfg"
  shows "map blk_height bs = [1 .. ch_height ch] \<and> successively link bs \<and>
    jm_keys (mapBlocks ch)
      = [ch_height ch - min (blockchain_max_blocks_in_memory cfg) (ch_height ch) + 1 .. ch_height ch]"
  using chain_run_ok [OF assms] by (simp add: chain_ok_def cache_inv_def jm_keys_def)

theorem chain_shape_witness:
  "\<exists>ch. jm_keys (mapBlocks (ch :: (string \<times> string) list chain)) = [1, 2] \<and> ch_height ch = 2"
proof -
  obtain ch cr where r: "chain_run demo_crypto mem_level demo_cfg no_propose (demo_key CHR ''a'')
    [demo_genesis ''abc'', demo_block2] ch cr ()" using demo_run2 by blast
  have h: "ch_height ch = 2"
    using chain_run_ok [OF r mem_level_ok demo_max] chain_ok_height by fastforce
  have "jm_keys (mapBlocks ch) = [1 .. 2]"
    using chain_shape [OF r mem_level_ok demo_max] by (simp add: h demo_cfg_def)
  also have "[1 .. 2] = [1, 2 :: int]" by (simp add: upto.simps)
  finally show ?thesis using h by blast
qed

text \<open>A restart from the store of a reachable chain whose blocks start no stake vote succeeds, and gives
  back the height, the ledger and the heights in the cache.\<close>

theorem restart_recovers:
  assumes "chain_run C L cfg propose pk bs ch cr s" and "level_ok L"
    and "1 \<le> blockchain_max_blocks_in_memory cfg" and "list_all quiet bs"
  shows "\<exists>ch' cr'. chain_init L cfg propose now (chain_new pk (dbBlockchain ch) (dbState ch), cr0, s0)
      = Inr (ch', cr', s0) \<and> ch_height ch' = ch_height ch \<and> ledger_view ch' = ledger_view ch \<and>
      dbBlockchain ch' = dbBlockchain ch \<and> jm_keys (mapBlocks ch') = jm_keys (mapBlocks ch)"
proof -
  let ?m = "blockchain_max_blocks_in_memory cfg"
  have inv: "chain_ok ?m bs ch" "stores L bs ch" using chain_run_ok [OF assms(1-3)] by simp_all
  have v: "lv_values L (dbBlockchain ch) = map block_text bs" using inv(2) by (rule stores_values)
  obtain ch' cr' where i: "chain_init L cfg propose now (chain_new pk (dbBlockchain ch) (dbState ch), cr0, s0)
      = Inr (ch', cr', s0)"
    using chain_init_quiet [OF assms(4), of L "chain_new pk (dbBlockchain ch) (dbState ch)" cfg propose now cr0 s0] v
    by (auto simp: chain_new_def)
  have "chain_ok ?m bs ch' \<and> dbBlockchain ch' = dbBlockchain ch"
    using i v refl assms(3) by (rule chain_init_ok [where n = "ch_height ch"])
      (use inv(1) in \<open>simp_all add: chain_ok_def\<close>)
  then have ok: "chain_ok ?m bs ch'" and db: "dbBlockchain ch' = dbBlockchain ch" by simp_all
  have h: "ch_height ch' = ch_height ch" using chain_ok_height [OF ok] chain_ok_height [OF inv(1)] by simp
  moreover have "ledger_view ch' = ledger_view ch" using ok inv(1) by (simp add: chain_ok_def)
  moreover have "jm_keys (mapBlocks ch') = jm_keys (mapBlocks ch)"
    using ok inv(1) h by (simp add: chain_ok_def cache_inv_def jm_keys_def)
  ultimately show ?thesis using i db by blast
qed

theorem restart_recovers_witness:
  "\<exists>ch' cr'. chain_init mem_level demo_cfg no_propose 0
      (chain_new (demo_key CHR ''a'') (dbBlockchain (demo_chain ''abc'')) (dbState (demo_chain ''abc'')), [], ())
      = Inr (ch', cr', ()) \<and> ch_height ch' = 1"
proof -
  obtain cr where r: "chain_run demo_crypto mem_level demo_cfg no_propose (demo_key CHR ''a'')
    [demo_genesis ''abc''] (demo_chain ''abc'') cr ()" using demo_run1 by blast
  have "list_all quiet [demo_genesis ''abc'']" using demo_quiet by simp
  from restart_recovers [OF r mem_level_ok demo_max this] show ?thesis
    unfolding demo_chain_fields by blast
qed

text \<open>C28: On every reachable chain whose genesis block has well-formed commands the state store shows, under
  \<open>peer:<publicKey>\<close>, the stake of every peer and nothing for a key that is no peer, although transactions
  write other keys of the same store freely.\<close>

theorem state_shows_peers:
  assumes "chain_run C L cfg propose pk bs ch cr s" and "level_ok L"
    and "1 \<le> blockchain_max_blocks_in_memory cfg" and "schema_commands (hd bs)"
    and "CHR '':'' \<notin> set k"
  shows "lv_get L (dbState ch) (STATE_PEER_IDENT @ k)
    = map_option (\<lambda>p. dec_of_int (p_stake p)) (getPeer ch k)"
  using chain_run_mirror [OF assms(1-4)] assms(5) by (simp add: state_mirror_def getPeer_def)

theorem state_shows_peers_witness:
  "lv_get mem_level (dbState (demo_chain ''abc'')) (STATE_PEER_IDENT @ demo_key CHR ''z'')
    = map_option (\<lambda>p. dec_of_int (p_stake p)) (getPeer (demo_chain ''abc'') (demo_key CHR ''z''))"
proof -
  obtain cr where r: "chain_run demo_crypto mem_level demo_cfg no_propose (demo_key CHR ''a'')
    [demo_genesis ''abc''] (demo_chain ''abc'') cr ()" using demo_run1 by blast
  have "schema_commands (demo_genesis ''abc'')" by code_simp
  moreover have "CHR '':'' \<notin> set (demo_key CHR ''z'')" by (simp add: demo_key_def)
  ultimately show ?thesis using state_shows_peers [OF r mem_level_ok demo_max] by simp
qed



end
