(* ===== verification/Ledger_Theorems.thy ===== *)
theory Ledger_Theorems
  imports Chain_Theorems
begin

text \<open>
  The properties of single blocks, transactions and commands: what validation decides,
  what hashes and signatures bind, when stakes change, what a second reset breaks.
\<close>

section \<open>Stake votes\<close>

text \<open>C11: On a reachable chain a command changes the stake of a peer that stays a peer only if it is a
  \<open>modifyStake\<close> for that peer by another origin, and this origin together with the distinct origins recorded
  for the same key holds more than half of the total stake.\<close>

theorem stake_change_needs_quorum:
  assumes "chain_run C L cfg propose pk bs ch cr s" and "level_ok L"
    and "1 \<le> blockchain_max_blocks_in_memory cfg"
    and "process_command L r c (ch, cr) = (c', ch', cr')"
    and "hasPeer ch j" and "hasPeer ch' j" and "getStake ch' j \<noteq> getStake ch j"
  shows "\<exists>q i n a. c = ModifyStake q j i n \<and> r \<noteq> j \<and> distinct (a @ [r]) \<and>
    a = jm_get_or (mapModifyStake ch) (modify_key j i n) [] \<and> hasQuorumWeighted ch (a @ [r])"
proof (cases c)
  case (ModifyStake q k i n)
  then obtain n' where m: "modifyStake L r k i n (ch, cr) = (n', ch', cr')"
    using assms(4) by (auto split: prod.splits)
  have v: "votes_inv ch" using chain_run_ok [OF assms(1-3)] by (simp add: chain_ok_def)
  from m show ?thesis
  proof (cases rule: modifyStake_cases)
    case (applied p m)
    let ?a = "jm_get_or (mapModifyStake ch) (modify_key k i n) []"
    have "distinct ?a" using v by (auto simp: votes_inv_def jm_get_or_def split: option.split)
    moreover have "k = j"
      using applied(7) assms(7) by (auto simp: getStake_get updateStateData_def split: if_splits)
    ultimately show ?thesis using applied ModifyStake by auto
  qed (use assms(7) in \<open>simp_all add: getStake_get\<close>)
next
  case (AddPeer q h u k)
  then show ?thesis
    using assms(4-7) by (auto simp: addPeer_def getStake_get hasPeer_def updateStateData_def Let_def split: if_splits)
next
  case (RemovePeer q k)
  then show ?thesis
    using assms(4-7) by (auto simp: removePeer_def getStake_get hasPeer_def deleteStateData_def Let_def
        split: if_splits option.splits)
qed (use assms(4,7) in \<open>auto simp: updateStateData_def getStake_get split: if_splits\<close>)

text \<open>A block in which one of three equal peers votes to raise the stake of the third.\<close>

definition demo_raise :: block where
  "demo_raise = demo_next [demo_tx CHR ''a'' 2 [ModifyStake (Some 1) (demo_key CHR ''c'') ''vote'' 1]]"

lemma demo_raise_run: "\<exists>ch cr. chain_run demo_crypto mem_level demo_cfg no_propose (demo_key CHR ''a'')
    [demo_genesis ''abc'', demo_raise] ch cr ()"
proof -
  let ?tx = "demo_tx CHR ''a'' 2 [ModifyStake (Some 1) (demo_key CHR ''c'') ''vote'' 1]"
  obtain cr where r: "chain_run demo_crypto mem_level demo_cfg no_propose (demo_key CHR ''a'')
    [demo_genesis ''abc''] (demo_chain ''abc'') cr ()" using demo_run1 by blast
  have "validateTx demo_crypto (chain_new [] [] []) 2 ?tx" by code_simp
  then have "validateTx demo_crypto (demo_chain ''abc'') 2 ?tx" by (rule demo_tx_valid) simp
  then have g: "add_guard demo_crypto (demo_chain ''abc'') demo_raise"
    unfolding demo_raise_def by (intro demo_next_guard) simp_all
  have "quiet demo_raise" unfolding demo_raise_def by (rule demo_next_quiet)
  from chain_add_quiet [OF g this] obtain b' ch' cr' where
    a: "chain_add demo_crypto mem_level demo_cfg no_propose 0 demo_raise
      (demo_chain ''abc'', cr, ()) = Inr (True, b', ch', cr', ())" by metis
  have "blk_height demo_raise < 10 ^ 16" by (simp add: demo_raise_def demo_next_fields)
  from chain_run.grow [OF r this a] show ?thesis by auto
qed

theorem stake_change_needs_quorum_witness:
  "\<exists>ch a. hasQuorumWeighted (ch :: (string \<times> string) list chain) (a @ [demo_key CHR ''b'']) \<and> distinct (a @ [demo_key CHR ''b''])"
proof -
  obtain ch cr where r: "chain_run demo_crypto mem_level demo_cfg no_propose (demo_key CHR ''a'')
    [demo_genesis ''abc'', demo_raise] ch cr ()" using demo_raise_run by blast
  have "chain_ok (blockchain_max_blocks_in_memory demo_cfg) [demo_genesis ''abc'', demo_raise] ch"
    using chain_run_ok [OF r mem_level_ok demo_max] by simp
  then have v: "ledger_view ch = ledger_view (fst (replay null_level [demo_genesis ''abc'', demo_raise]
      (chain_new [] () (), [])))" by (simp add: chain_ok_def ledger_of_def)
  let ?c = "ModifyStake (Some 1) (demo_key CHR ''c'') ''vote'' 1"
  let ?s = "replay null_level [demo_genesis ''abc'', demo_raise] (chain_new [] () (), [])"
  obtain c' ch' cr' where p: "process_command mem_level (demo_key CHR ''b'') ?c (ch, cr) = (c', ch', cr')"
    by (cases "process_command mem_level (demo_key CHR ''b'') ?c (ch, cr)") auto
  have w: "ledger_view ch' = ledger_view (fst (snd (process_command null_level (demo_key CHR ''b'') ?c ?s)))"
    using process_command_view [of "(ch, cr)" ?s mem_level "demo_key CHR ''b''" ?c null_level] v p by simp
  have e: "getStake (fst ?s) (demo_key CHR ''c'') = 1"
    "getStake (fst (snd (process_command null_level (demo_key CHR ''b'') ?c ?s))) (demo_key CHR ''c'') = 2"
    unfolding demo_raise_def replay.simps demo_next_fields by code_simp+
  have "getStake ch (demo_key CHR ''c'') = 1" "getStake ch' (demo_key CHR ''c'') = 2"
    using v w e by (simp_all add: getStake_def getPeer_def ledger_view_eq del: replay.simps process_command.simps)
  moreover from this have "hasPeer ch (demo_key CHR ''c'')" "hasPeer ch' (demo_key CHR ''c'')"
    by (auto simp: getStake_get hasPeer_def split: option.splits)
  ultimately have "\<exists>q i n a. ?c = ModifyStake q (demo_key CHR ''c'') i n \<and> demo_key CHR ''b'' \<noteq> demo_key CHR ''c'' \<and>
      distinct (a @ [demo_key CHR ''b'']) \<and> a = jm_get_or (mapModifyStake ch) (modify_key (demo_key CHR ''c'') i n) [] \<and>
      hasQuorumWeighted ch (a @ [demo_key CHR ''b''])"
    by (intro stake_change_needs_quorum [OF r mem_level_ok demo_max p]) simp_all
  then show ?thesis by blast
qed

text \<open>The key under which votes for a proposal are collected tells proposals apart as long as the identifiers
  end in a character that is neither a digit nor a dash, as the two identifiers of the program do.\<close>

theorem stake_keys_distinct:
  assumes "pattern_key k" and "pattern_key k'"
    and "ident_closed i" and "ident_closed i'"
  shows "modify_key k i n = modify_key k' i' n' \<longleftrightarrow> k = k' \<and> i = i' \<and> n = n'"
  using modify_key_inject [of k i n k' i' n'] assms by (auto simp: pattern_b64_def)

theorem stake_keys_distinct_witness:
  "modify_key (demo_key CHR ''a'') STAKE_PING_IDENT 1 \<noteq> modify_key (demo_key CHR ''a'') STAKE_VOTE_IDENT 1"
proof -
  have "pattern_key (demo_key CHR ''a'')" by code_simp
  moreover have "ident_closed STAKE_PING_IDENT" "ident_closed STAKE_VOTE_IDENT" by code_simp+
  ultimately show ?thesis
    using stake_keys_distinct [of "demo_key CHR ''a''" "demo_key CHR ''a''" STAKE_PING_IDENT STAKE_VOTE_IDENT 1 1]
    by (simp add: STAKE_PING_IDENT_def STAKE_VOTE_IDENT_def)
qed

text \<open>Other identifiers that the schema allows do not: one key collects the votes for raising a stake by one
  and for lowering it by one, and the votes for amounts one and eleven.\<close>

theorem stake_keys_collide:
  "\<exists>k. schema_command (ModifyStake (Some 1) k ''a'' (- 1)) \<and> schema_command (ModifyStake (Some 1) k ''a-'' 1) \<and>
     modify_key k ''a'' (- 1) = modify_key k ''a-'' 1 \<and>
     schema_command (ModifyStake (Some 1) k ''a'' 11) \<and> schema_command (ModifyStake (Some 1) k ''a1'' 1) \<and>
     modify_key k ''a'' 11 = modify_key k ''a1'' 1"
proof (intro exI conjI)
  let ?k = "demo_key CHR ''k''"
  show "schema_command (ModifyStake (Some 1) ?k ''a'' (- 1))" by code_simp
  show "schema_command (ModifyStake (Some 1) ?k ''a-'' 1)" by code_simp
  show "schema_command (ModifyStake (Some 1) ?k ''a'' 11)" by code_simp
  show "schema_command (ModifyStake (Some 1) ?k ''a1'' 1)" by code_simp
  have "dec_of_int 11 = ''11''" "dec_of_int 1 = ''1''" "dec_of_int (- 1) = ''-1''" by code_simp+
  then show "modify_key ?k ''a'' (- 1) = modify_key ?k ''a-'' 1" "modify_key ?k ''a'' 11 = modify_key ?k ''a1'' 1"
    by (simp_all add: modify_key_def)
qed

section \<open>Decisions\<close>

text \<open>On every reachable chain no decision is ever taken, so a \<open>decision\<close> command changes nothing: the state
  key it names is never written.\<close>

theorem decisions_have_no_effect:
  assumes "chain_run C L cfg propose pk bs ch cr s" and "level_ok L"
    and "1 \<le> blockchain_max_blocks_in_memory cfg"
  shows "\<not> isDecisionTaken ch ns \<and>
    process_command L r (Decision q ns h d) (ch, cr) = (Decision q ns h d, ch, cr)"
proof -
  have "arrayTakenDecision ch = []" using chain_run_ok [OF assms] chain_ok_decisions by blast
  then show ?thesis by (simp add: isDecisionTaken_def)
qed

theorem decisions_have_no_effect_witness: "\<not> isDecisionTaken (demo_chain ''abc'') ''test:abc''"
proof -
  obtain cr where r: "chain_run demo_crypto mem_level demo_cfg no_propose (demo_key CHR ''a'')
    [demo_genesis ''abc''] (demo_chain ''abc'') cr ()" using demo_run1 by blast
  from decisions_have_no_effect [OF r mem_level_ok demo_max] show ?thesis by blast
qed

section \<open>Validation\<close>

text \<open>C29: \<open>validateBlock\<close> with its loops and early returns accepts exactly the blocks with at least one
  transaction, the right hash, pairwise different origins of transactions, all transactions valid at the block's
  height, and, where votes are asked for, pairwise different voters, valid signatures of the hash and more than
  half of the stake.\<close>

theorem validateBlock_decides:
  "validateBlock C ch b votes \<longleftrightarrow>
     blk_tx b \<noteq> [] \<and>
     Util_hash C (block_hash_input (blk_version b) (blk_previousHash b) (blk_tx b) (blk_height b)) = blk_hash b \<and>
     distinct (map tx_origin (blk_tx b)) \<and> list_all (validateTx C ch (blk_height b)) (blk_tx b) \<and>
     (if votes then distinct (map vote_origin (blk_votes b)) \<and>
        list_all (\<lambda>v. verifySignature C (vote_origin v) (vote_sig v) (blk_hash b)) (blk_votes b) \<and>
        hasQuorumWeighted ch (map vote_origin (blk_votes b))
      else True)"
  by (auto simp: validateBlock_iff block_hash_ok_def votes_ok_def list_all_iff)

text \<open>The data a transaction signature covers determines the block height and every command, in order.\<close>

theorem signature_binds_height_and_commands:
  "signed_data h cs = signed_data h' cs' \<longleftrightarrow> h = h' \<and> cs = cs'"
  using signed_data_inject by blast

text \<open>The signature does not cover the identifier: a valid transaction stays valid under any other
  well-formed identifier.\<close>

theorem ident_not_signed:
  assumes "validateTx C ch h t" and "pattern_ident i"
  shows "validateTx C ch h (t\<lparr>tx_ident := i\<rparr>)"
proof -
  have "command_allowed ch h (t\<lparr>tx_ident := i\<rparr>) = command_allowed ch h t"
    by (intro ext) (simp add: command_allowed_def split: command.split)
  then show ?thesis using assms by (simp add: validateTx_def schema_tx_def)
qed

theorem ident_not_signed_witness:
  "validateTx demo_crypto (demo_chain ''abc'') 2 ((demo_data CHR ''a'' 2)\<lparr>tx_ident := ''forged''\<rparr>)"
proof -
  have "validateTx demo_crypto (chain_new [] [] []) 2 (demo_data CHR ''a'' 2)" by code_simp
  then have "validateTx demo_crypto (demo_chain ''abc'') 2 (demo_data CHR ''a'' 2)"
    unfolding demo_data_def by (rule demo_tx_valid) simp
  moreover have "pattern_ident ''forged''" by code_simp
  ultimately show ?thesis by (rule ident_not_signed)
qed

text \<open>C39: Two blocks with correct and equal hashes have the same version, previous hash, transactions and height,
  unless their hash inputs collide.\<close>

theorem hash_binds_block:
  assumes "block_hash_ok C b" and "block_hash_ok C b'" and "blk_hash b = blk_hash b'"
    and "inj_on (Util_hash C) {block_hash_input (blk_version b) (blk_previousHash b) (blk_tx b) (blk_height b),
      block_hash_input (blk_version b') (blk_previousHash b') (blk_tx b') (blk_height b')}"
    and "pattern_key (blk_previousHash b)" and "pattern_key (blk_previousHash b')"
  shows "b\<lparr>blk_votes := []\<rparr> = b'\<lparr>blk_votes := []\<rparr>"
proof -
  have "Util_hash C (block_hash_input (blk_version b) (blk_previousHash b) (blk_tx b) (blk_height b))
      = Util_hash C (block_hash_input (blk_version b') (blk_previousHash b') (blk_tx b') (blk_height b'))"
    using assms(1-3) unfolding block_hash_ok_def by argo
  from inj_onD [OF assms(4) this]
  have "block_hash_input (blk_version b) (blk_previousHash b) (blk_tx b) (blk_height b)
      = block_hash_input (blk_version b') (blk_previousHash b') (blk_tx b') (blk_height b')" by simp
  moreover have "CHR '','' \<notin> set (blk_previousHash b)" "CHR '','' \<notin> set (blk_previousHash b')"
    using assms(5,6) by (simp_all add: pattern_b64_notin)
  ultimately have "blk_version b = blk_version b' \<and> blk_previousHash b = blk_previousHash b' \<and>
      blk_tx b = blk_tx b' \<and> blk_height b = blk_height b'" by (rule block_hash_input_inject)
  then show ?thesis using assms(3) by (cases b; cases b') simp
qed

theorem hash_binds_block_witness:
  "(demo_block2\<lparr>blk_votes := [demo_vote demo_block2 CHR ''c'']\<rparr>)\<lparr>blk_votes := []\<rparr> = demo_block2\<lparr>blk_votes := []\<rparr>"
proof (rule hash_binds_block [where C = demo_crypto])
  show "block_hash_ok demo_crypto demo_block2" by (simp add: demo_block2_def demo_next_fields)
  then show "block_hash_ok demo_crypto (demo_block2\<lparr>blk_votes := [demo_vote demo_block2 CHR ''c'']\<rparr>)"
    by (simp add: block_hash_ok_def)
  have "blk_previousHash demo_block2 = demo_hash []"
    by (simp add: demo_block2_def demo_next_fields demo_genesis_def Let_def)
  moreover have "pattern_key (demo_hash [])" by code_simp
  ultimately show "pattern_key (blk_previousHash demo_block2)"
    and "pattern_key (blk_previousHash (demo_block2\<lparr>blk_votes := [demo_vote demo_block2 CHR ''c'']\<rparr>))" by simp_all
qed simp_all

section \<open>Reset\<close>

lemma reset_refuses:
  assumes "chain_run C L cfg propose pk bs ch cr s" and "level_ok L"
    and "1 \<le> blockchain_max_blocks_in_memory cfg"
    and "chain_reset L cfg propose now g (ch, cr, s) = Inr (ch', cr', s')"
    and "jm.total p_stake (mapPeer ch') \<le> quorumWeighted ch"
  shows "\<not> add_guard C ch' b \<and>
    chain_add C L cfg propose' now' b (ch', cr1, s1) = Inr (False, b, ch', cr1, s1)"
proof -
  have "stake_inv 0 ch" using chain_run_ok [OF assms(1-3)] by (simp add: chain_ok_def)
  then have "stake_inv (quorumWeighted ch) ch'" using assms(4) by (rule chain_reset_offset)
  then have "\<not> hasQuorumWeighted ch' xs" if "distinct xs" for xs
    using assms(5) that by (rule offset_no_quorum)
  then have "\<not> add_guard C ch' b" by (auto simp: add_guard_def validateBlock_iff votes_ok_def)
  then show ?thesis by (simp add: chain_add_def)
qed

text \<open>\<open>reset\<close> on a reachable chain keeps the old total stake in \<open>quorumWeighted\<close>: when the peers of the new
  genesis block hold no more than the old total, the chain accepts no block at all afterwards.\<close>

theorem second_reset_accepts_nothing:
  assumes "chain_run C L cfg propose pk bs ch cr s" and "level_ok L"
    and "1 \<le> blockchain_max_blocks_in_memory cfg"
    and "chain_reset L cfg propose now g (ch, cr, s) = Inr (ch', cr', s')"
    and "jm.total p_stake (mapPeer ch') \<le> quorumWeighted ch"
  shows "\<not> add_guard C ch' b \<and>
    chain_add C L cfg propose' now' b (ch', cr1, s1) = Inr (False, b, ch', cr1, s1)"
  using assms by (rule reset_refuses)

lemma init_loop_one:
  "init_loop L cfg propose now [block_text g] st = (case st of (ch, cr, s) \<Rightarrow>
     bindr (updateCache cfg propose g (ch, cr, s)) (\<lambda>(ch, cr, s).
       case processState L cfg now g (ch, cr) of (b', ch, cr) \<Rightarrow> Inr (refresh_cached b' ch, cr, s)))"
  by (cases st) simp

lemma init_loop_one_view:
  fixes ch ch' :: "'db chain" and s s' :: 's
  assumes "init_loop L cfg propose now [block_text g] (ch, cr, s) = Inr (ch', cr', s')"
    and "ledger_view ch = ledger_view ch0"
  shows "ledger_view ch' = ledger_view (fst (replay L2 [g] (ch0, cr0)))"
proof -
  obtain ch1 cr1 s1 where u: "updateCache cfg propose g (ch, cr, s) = Inr (ch1, cr1, s1)"
    and i: "(case processState L cfg now g (ch1, cr1) of (b', ch2, cr2) \<Rightarrow>
      Inr (refresh_cached b' ch2, cr2, s1)) = (Inr (ch', cr', s') :: ('db chain \<times> credits \<times> 's) result)"
    using assms(1) unfolding init_loop_one by auto
  obtain b' ch2 cr2 where p: "processState L cfg now g (ch1, cr1) = (b', ch2, cr2)"
    by (cases "processState L cfg now g (ch1, cr1)") auto
  then have r: "ch' = refresh_cached b' ch2" using i by simp
  obtain vm where "ch1 = (cache_block cfg g ch)\<lparr>mapVoteStake := vm\<rparr>" using u by (rule updateCache_Inr)
  then have "ledger_view ch1 = ledger_view ch0"
    using assms(2) cache_block_fields(4) [of cfg g ch] by (simp add: ledger_view_eq)
  then have "ledger_view ch2 = ledger_view (fst (replay L2 [g] (ch0, cr0)))"
    using processState_view [OF p, of L2 "[]" "(ch0, cr0)"] by simp
  moreover have "ledger_view ch' = ledger_view ch2" by (simp add: r refresh_cached_def ledger_view_eq)
  ultimately show ?thesis by simp
qed

text \<open>A node that started from a genesis block of three peers and is reset to the same block.\<close>

lemma demo_reset:
  "\<exists>ch' cr'. chain_reset mem_level demo_cfg no_propose 0 (demo_genesis ''abc'') (demo_chain ''abc'', cr, ())
     = Inr (ch', cr', ()) \<and> jm.total p_stake (mapPeer ch') = 3 \<and> quorumWeighted ch' = 6"
proof -
  let ?ch = "(updateBlockData mem_level (block_key 1) (block_text (demo_genesis ''abc''))
      (chain_clear mem_level (demo_chain ''abc'')))\<lparr>ch_height := 0, mapBlocks := jm_empty, latestBlock := None,
        dbState := lv_clear mem_level (dbState (updateBlockData mem_level (block_key 1)
          (block_text (demo_genesis ''abc'')) (chain_clear mem_level (demo_chain ''abc''))))\<rparr>"
  have v: "lv_values mem_level (dbBlockchain ?ch) = [block_text (demo_genesis ''abc'')]"
    by (simp add: updateBlockData_def chain_clear_def lv_values_def mem_level_def mem_entries_def)
  have "list_all quiet [demo_genesis ''abc'']" using demo_quiet by simp
  from init_loop_quiet [OF this, of mem_level demo_cfg no_propose 0 ?ch cr "()"] obtain ch' cr' where
    i: "init_loop mem_level demo_cfg no_propose 0 [block_text (demo_genesis ''abc'')] (?ch, cr, ()) = Inr (ch', cr', ())"
    by auto
  let ?r = "fst (replay null_level [demo_genesis ''abc''] (chain_new [] () (), []))"
  let ?o = "fst (replay null_level [demo_genesis ''abc''] (?r\<lparr>mapPeer := jm_empty\<rparr>, []))"
  have "ledger_view ?ch = ledger_view (?r\<lparr>mapPeer := jm_empty\<rparr>)"
    using demo_chain_view by (simp add: ledger_view_eq updateBlockData_def chain_clear_def)
  with i have "ledger_view ch' = ledger_view ?o" by (rule init_loop_one_view)
  moreover have "jm.total p_stake (mapPeer ?o) = 3" "quorumWeighted ?o = 6"
    unfolding jm.total_def by code_simp+
  ultimately have "jm.total p_stake (mapPeer ch') = 3" "quorumWeighted ch' = 6"
    by (simp_all add: ledger_view_eq)
  moreover have "chain_reset mem_level demo_cfg no_propose 0 (demo_genesis ''abc'') (demo_chain ''abc'', cr, ())
      = Inr (ch', cr', ())"
    unfolding chain_reset_def chain_init_def Let_def prod.case v by (rule i)
  ultimately show ?thesis by blast
qed

theorem second_reset_accepts_nothing_witness:
  "\<exists>ch. quorumWeighted ch = 6 \<and> \<not> add_guard demo_crypto (ch :: (string \<times> string) list chain) demo_block2"
proof -
  obtain cr where r: "chain_run demo_crypto mem_level demo_cfg no_propose (demo_key CHR ''a'')
    [demo_genesis ''abc''] (demo_chain ''abc'') cr ()" using demo_run1 by blast
  obtain ch' cr' where c: "chain_reset mem_level demo_cfg no_propose 0 (demo_genesis ''abc'') (demo_chain ''abc'', cr, ())
     = Inr (ch', cr', ())" "jm.total p_stake (mapPeer ch') = 3" "quorumWeighted ch' = 6"
    using demo_reset by blast
  have "quorumWeighted (fst (replay null_level [demo_genesis ''abc''] (chain_new [] () (), []))) = 3"
    by code_simp
  then have "quorumWeighted (demo_chain ''abc'') = 3" using demo_chain_view by (simp add: ledger_view_eq)
  then have "jm.total p_stake (mapPeer ch') \<le> quorumWeighted (demo_chain ''abc'')" using c(2) by simp
  from second_reset_accepts_nothing [OF r mem_level_ok demo_max c(1) this]
  have "\<not> add_guard demo_crypto ch' demo_block2" by (rule conjunct1)
  then show ?thesis using c(3) by blast
qed

section \<open>The block in memory and the block in the store\<close>

lemma demo_hash_eq: "demo_hash s = demo_hash s' \<longleftrightarrow> length s = length s'"
proof
  have "nat_of_dec (replicate m CHR ''0'' @ s) = nat_of_dec s" for m s
    by (induction m) (simp_all add: undigit_def)
  then have n: "nat_of_dec (padStart 4 CHR ''0'' (dec_of_nat l)) = l" for l by (simp add: padStart_def)
  assume "demo_hash s = demo_hash s'"
  then have "padStart 4 CHR ''0'' (dec_of_nat (length s)) = padStart 4 CHR ''0'' (dec_of_nat (length s'))"
    unfolding demo_hash_def by (simp only: same_append_eq)
  from arg_cong [OF this, of nat_of_dec] show "length s = length s'" unfolding n .
qed (simp add: demo_hash_def)

lemma demo_block_hash_ok:
  assumes "block_hash_ok demo_crypto b" and "blk_version b' = blk_version b" "blk_hash b' = blk_hash b"
    "blk_previousHash b' = blk_previousHash b" "blk_height b' = blk_height b"
  shows "block_hash_ok demo_crypto b'
    \<longleftrightarrow> length (stringify (json_of_txs (blk_tx b'))) = length (stringify (json_of_txs (blk_tx b)))"
  using assms by (auto simp: block_hash_ok_def Util_hash_def demo_crypto_def demo_hash_eq block_hash_input_def)

text \<open>A node can hold and serve a block that differs from the one it stored and whose hash is wrong: the
  handler of \<open>modifyStake\<close> writes the clamped amount into the command of the block.\<close>

theorem cached_block_is_rewritten:
  "\<exists>b b' ch' cr'. chain_add demo_crypto mem_level demo_cfg no_propose 0 b (demo_chain ''abc'', [], ()) = Inr (True, b', ch', cr', ()) \<and>
     latestBlock ch' = Some b' \<and> block_hash_ok demo_crypto b \<and> \<not> block_hash_ok demo_crypto b'"
proof -
  let ?c = "ModifyStake (Some 1) (demo_key CHR ''c'') ''vote'' (- 50)"
  let ?txs = "[demo_tx CHR ''a'' 2 [?c], demo_tx CHR ''b'' 2 [?c]]"
  let ?b = "demo_next ?txs"
  have "validateTx demo_crypto (chain_new [] [] []) 2 (demo_tx CHR ''a'' 2 [?c])" by code_simp
  then have "validateTx demo_crypto (demo_chain ''abc'') 2 (demo_tx CHR ''a'' 2 [?c])"
    by (rule demo_tx_valid) simp
  moreover have "validateTx demo_crypto (chain_new [] [] []) 2 (demo_tx CHR ''b'' 2 [?c])" by code_simp
  then have "validateTx demo_crypto (demo_chain ''abc'') 2 (demo_tx CHR ''b'' 2 [?c])"
    by (rule demo_tx_valid) simp
  ultimately have "\<forall>t \<in> set ?txs. validateTx demo_crypto (demo_chain ''abc'') 2 t" by simp
  moreover have "distinct (map tx_origin ?txs)" by code_simp
  ultimately have g: "add_guard demo_crypto (demo_chain ''abc'') ?b" by (intro demo_next_guard) simp_all
  obtain b' ch' cr' where a: "chain_add demo_crypto mem_level demo_cfg no_propose 0 ?b
      (demo_chain ''abc'', [], ()) = Inr (True, b', ch', cr', ())"
    using chain_add_quiet [OF g demo_next_quiet] by metis
  let ?ch = "updateBlockData mem_level (block_key (blk_height ?b)) (block_text ?b) (demo_chain ''abc'')"
  obtain b1 ch1 cr1 where p: "processState mem_level demo_cfg 0 ?b (?ch, []) = (b1, ch1, cr1)"
    by (cases "processState mem_level demo_cfg 0 ?b (?ch, [])") auto
  have u: "b' = b1" "updateCache demo_cfg no_propose b1 (ch1, cr1, ()) = Inr (ch', cr', ())"
    using a g p by (auto simp: chain_add_def Let_def)
  then have l: "latestBlock ch' = Some b'"
    by (auto elim!: updateCache_Inr simp: cache_block_fields)
  let ?s = "replay null_level [demo_genesis ''abc''] (chain_new [] () (), [])"
  have "blk_tx b1 = fst (process_txs mem_level ?txs (?ch, []))"
    using p by (auto simp: processState_def demo_cfg_def demo_next_fields split: prod.splits)
  also have "\<dots> = fst (process_txs null_level ?txs ?s)"
    using process_txs_view [of "(?ch, [])" ?s mem_level ?txs null_level] demo_chain_view
    by (simp add: ledger_view_eq updateBlockData_def del: process_txs.simps replay.simps)
  also have "\<dots> = [demo_tx CHR ''a'' 2 [?c],
      (demo_tx CHR ''b'' 2 [?c])\<lparr>tx_commands := [ModifyStake (Some 1) (demo_key CHR ''c'') ''vote'' (- 1)]\<rparr>]"
    by code_simp
  finally have t: "blk_tx b1 = \<dots>" .
  have "length (stringify (json_of_txs (blk_tx b1))) \<noteq> length (stringify (json_of_txs ?txs))"
    unfolding t by code_simp
  then have "\<not> block_hash_ok demo_crypto b1"
    using demo_block_hash_ok [OF demo_next_fields(5) _ processState_block(2,3,1) [OF p]]
      processState_block(5) [OF p] by (simp add: demo_next_fields)
  then show ?thesis using a l u(1) demo_next_fields(5) by blast
qed

section \<open>Texts and utilities\<close>

text \<open>Reading the JSON text of any value gives the value back, so different values have different texts.\<close>

theorem json_roundtrip: "json_parse (stringify v) = Inr v \<and> (stringify v = stringify w \<longleftrightarrow> v = w)"
  by (simp add: json_parse_stringify)

text \<open>A block read back from its stored text is the block.\<close>

theorem block_text_roundtrip: "block_of_text (block_text b) = Inr b"
  by (simp add: block_of_text_def block_text_def json_parse_stringify)

text \<open>For the values \<open>Math.random\<close> may return, \<open>shuffleArray\<close> yields permutations of the array, and every
  permutation of it for some values.\<close>

theorem shuffle_reaches_exactly_permutations:
  "(\<exists>rnd. random_ok rnd \<and> shuffleArray rnd xs = ys) \<longleftrightarrow> mset ys = mset xs"
  using shuffleArray_onto mset_shuffleArray by metis

text \<open>\<open>QuartileCoeff\<close> throws exactly for fewer than four samples; otherwise it sorts the samples, and the
  coefficient is a number between 0 and 1 unless it is the quotient of two zeros.\<close>

theorem quartile_coefficient_range:
  "case QuartileCoeff a of
     Inl e \<Rightarrow> length a < 4
   | Inr (q, as) \<Rightarrow> 4 \<le> length a \<and> sorted as \<and> mset as = mset a \<and>
       (case q of None \<Rightarrow> as ! (length a * 3 div 4) = as ! 0 | Some r \<Rightarrow> 0 \<le> r \<and> r \<le> 1)"
proof (cases "QuartileCoeff a")
  case (Inr p)
  obtain q as where p: "p = (q, as)" by (cases p)
  have n: "4 \<le> length a" using Inr by (auto simp: QuartileCoeff_def split: if_splits)
  have as: "as = js_sort cmp_num a" using Inr p n by (simp add: QuartileCoeff_def Let_def)
  have "length a div 4 \<le> length a * 3 div 4" by (intro div_le_mono) simp
  moreover have "length a * 3 div 4 < length a" using n by linarith
  ultimately have o: "as ! 0 \<le> as ! (length a div 4)" "as ! 0 \<le> as ! (length a * 3 div 4)"
    using sorted_js_sort_num [of a] by (auto simp: as intro: sorted_nth_mono)
  have "as ! (length a * 3 div 4) = as ! 0" if "q = None"
  proof -
    have "(as ! (length a * 3 div 4) - as ! 0) + (as ! (length a div 4) - as ! 0) = 0"
      using Inr p n that as by (simp add: QuartileCoeff_def Let_def split: if_splits)
    then show ?thesis using o by linarith
  qed
  then show ?thesis
    using Inr p n as sorted_js_sort_num [of a] QuartileCoeff_bounds [of a _ as] by (auto split: option.split)
qed (auto simp: QuartileCoeff_def Let_def split: if_splits)

text \<open>\<open>stringDiff\<close> is a distance on non-empty strings of one length: it is 0 exactly for equal strings,
  symmetric, satisfies the triangle inequality, and is bounded by 255 for each character.\<close>

theorem stringDiff_metric:
  assumes "stringDiff a b = Inr d" and "stringDiff b c = Inr e"
  shows "0 \<le> d \<and> d \<le> 255 * int (length a) \<and> (d = 0 \<longleftrightarrow> a = b) \<and> stringDiff b a = Inr d \<and>
    (\<exists>f. stringDiff a c = Inr f \<and> f \<le> d + e)"
  using assms diff_loop_bound [of a b] diff_loop_zero_iff [of a b] diff_loop_sym [of a b]
    diff_loop_triangle [of a b c]
  by (auto simp: stringDiff_def split: if_splits)

theorem stringDiff_metric_witness:
  "\<exists>f. stringDiff ''ab'' ''ef'' = Inr f \<and> f \<le> 4 + 4"
proof -
  have "stringDiff ''ab'' ''cd'' = Inr 4" "stringDiff ''cd'' ''ef'' = Inr 4" by (simp_all add: stringDiff_def)
  from stringDiff_metric [OF this] show ?thesis by blast
qed

end
