(* ===== verification/Chain_Queries.thy ===== *)
theory Chain_Queries
  imports Ledger_Theorems
begin

text \<open>
  The queries of \<open>src/chain/blockchain.ts\<close> on blocks and state: \<open>getRange\<close> with its
  clamping and its choice between cache and store, \<open>getPage\<close>, \<open>searchBlocks\<close>,
  \<open>getTransaction\<close>, \<open>getState\<close>, \<open>searchState\<close>, \<open>getPerformance\<close>, \<open>genesis\<close>. The lemmas
  show that cache and store give the same blocks, up to what \<open>processState\<close> writes into
  the commands of a cached one.
\<close>

section \<open>Queries\<close>

text \<open>\<open>Array.prototype.slice\<close>: negative positions count from the end.\<close>

definition js_slice :: "int \<Rightarrow> int \<Rightarrow> 'a list \<Rightarrow> 'a list" where
  "js_slice start stop xs =
     (let n = int (length xs);
          a = (if start < 0 then max (n + start) 0 else min start n);
          b = (if stop < 0 then max (n + stop) 0 else min stop n)
      in take (nat (b - a)) (drop (nat a) xs))"

fun parse_blocks :: "string list \<Rightarrow> block list result" where
  "parse_blocks [] = Inr []"
| "parse_blocks (v # vs) = bindr (block_of_text v) (\<lambda>b. bindr (parse_blocks vs) (\<lambda>bs. Inr (b # bs)))"

definition range_bounds :: "config \<Rightarrow> 'db chain \<Rightarrow> int \<Rightarrow> int \<Rightarrow> int \<times> int" where
  "range_bounds cfg ch gte lte =
     (let gte = (if gte \<le> ch_height ch then (if gte < 1 then 1 else gte) else ch_height ch);
          lte = (if lte < 0 then gte else if lte < 1 then ch_height ch else lte);
          lte = (if lte \<le> ch_height ch then lte else ch_height ch);
          gte = (if lte - gte > 0 then gte else lte);
          gte = (if lte - gte \<ge> api_max_query_size cfg then lte - api_max_query_size cfg + 1 else gte)
      in (gte, lte))"

definition getRange :: "'db level \<Rightarrow> config \<Rightarrow> 'db chain \<Rightarrow> int \<Rightarrow> int \<Rightarrow> block list result" where
  "getRange L cfg ch gte lte =
     (case range_bounds cfg ch gte lte of (gte, lte) \<Rightarrow>
        if jm_has (mapBlocks ch) gte \<and> jm_has (mapBlocks ch) lte then
          let start = int (jm_size (mapBlocks ch)) - ch_height ch + gte - 1;
              stop = start + lte - gte + 1
          in Inr (js_slice start stop (jm_values (mapBlocks ch)))
        else parse_blocks (lv_range L (block_key gte) (block_key lte) (dbBlockchain ch)))"

definition getPage :: "'db level \<Rightarrow> config \<Rightarrow> 'db chain \<Rightarrow> int \<Rightarrow> int \<Rightarrow> block list result" where
  "getPage L cfg ch page sz =
     (let page = (if page < 1 then 1 else page);
          sz = (if sz < 1 \<or> sz > api_max_query_size cfg then api_max_query_size cfg else sz);
          gte = ch_height ch - page * sz + 1;
          gte = (if gte < 1 then 1 else gte)
      in getRange L cfg ch gte (gte + sz - 1))"

definition searchBlocks :: "'db level \<Rightarrow> config \<Rightarrow> 'db chain \<Rightarrow> string \<Rightarrow> block list result" where
  "searchBlocks L cfg ch search =
     bindr (parse_blocks (filter (\<lambda>value. search = [] \<or> includes_str search value)
         (map snd (lv_reverse_limit L (nat (api_max_query_size cfg)) (dbBlockchain ch)))))
       (\<lambda>a. Inr (rev a))"

definition find_tx :: "string \<Rightarrow> string \<Rightarrow> block \<Rightarrow> transaction option" where
  "find_tx origin ident b = find (\<lambda>t. tx_origin t = origin \<and> tx_ident t = ident) (blk_tx b)"

fun find_in_cache :: "string \<Rightarrow> string \<Rightarrow> block list \<Rightarrow> (int \<times> transaction) option" where
  "find_in_cache origin ident [] = None"
| "find_in_cache origin ident (b # bs) =
     (case find_tx origin ident b of Some t \<Rightarrow> Some (blk_height b, t) | None \<Rightarrow> find_in_cache origin ident bs)"

fun find_in_store :: "string \<Rightarrow> string \<Rightarrow> string list \<Rightarrow> (int \<times> transaction) result" where
  "find_in_store origin ident [] = Inl (Thrown ''Not Found'')"
| "find_in_store origin ident (v # vs) =
     bindr (block_of_text v) (\<lambda>b.
       case find_tx origin ident b of
         Some t \<Rightarrow> Inr (blk_height b, t) | None \<Rightarrow> find_in_store origin ident vs)"

definition getTransaction :: "'db level \<Rightarrow> 'db chain \<Rightarrow> string \<Rightarrow> string \<Rightarrow> (int \<times> transaction) result" where
  "getTransaction L ch origin ident =
     (case find_in_cache origin ident (jm_values (mapBlocks ch)) of
        Some r \<Rightarrow> Inr r
      | None \<Rightarrow> find_in_store origin ident (lv_values L (dbBlockchain ch)))"

definition getState :: "'db level \<Rightarrow> 'db chain \<Rightarrow> string \<Rightarrow> (string \<times> string) option" where
  "getState L ch key = map_option (\<lambda>v. (key, v)) (lv_get L (dbState ch) key)"

definition searchState :: "'db level \<Rightarrow> config \<Rightarrow> 'db chain \<Rightarrow> string \<Rightarrow> (string \<times> string) list" where
  "searchState L cfg ch search =
     filter (\<lambda>(key, v). search = [] \<or> includes_str search (key @ v))
       (lv_reverse_limit L (nat (api_max_query_size cfg)) (dbState ch))"

text \<open>\<open>Blockchain.genesis\<close>: \<open>None\<close> is a missing file. The hash of the file is replaced.\<close>

definition Blockchain_genesis :: "crypto \<Rightarrow> string option \<Rightarrow> block result" where
  "Blockchain_genesis C file =
     (case file of
        None \<Rightarrow> Inl (Thrown ''Genesis Block not found'')
      | Some text \<Rightarrow> bindr (block_of_text text) (\<lambda>b.
          Inr (b\<lparr>blk_hash := Util_hash C
            (block_hash_input (blk_version b) (blk_previousHash b) (blk_tx b) (blk_height b))\<rparr>)))"

section \<open>The clamped range\<close>

lemma range_bounds_ok:
  assumes "1 \<le> ch_height ch" and "1 \<le> api_max_query_size cfg" and "range_bounds cfg ch gte lte = (g, l)"
  shows "1 \<le> g" "g \<le> l" "l \<le> ch_height ch" "l - g < api_max_query_size cfg"
  using assms by (auto simp: range_bounds_def Let_def split: if_splits)

lemma range_bounds_id:
  assumes "1 \<le> gte" "gte \<le> lte" "lte \<le> ch_height ch" "lte - gte < api_max_query_size cfg"
  shows "range_bounds cfg ch gte lte = (gte, lte)"
  using assms by (auto simp: range_bounds_def Let_def)

section \<open>Cache and store agree\<close>

lemma filter_heights:
  assumes "\<And>i. i < length bs \<Longrightarrow> f (bs ! i) = int i + 1" and "1 \<le> g" "g \<le> l" "l \<le> int (length bs)"
  shows "filter (\<lambda>b. g \<le> f b \<and> f b \<le> l) bs = take (nat (l - g + 1)) (drop (nat (g - 1)) bs)"
proof -
  let ?a = "nat (g - 1)" and ?k = "nat (l - g + 1)"
  let ?P = "\<lambda>b. g \<le> f b \<and> f b \<le> l"
  have "bs = take ?a bs @ take ?k (drop ?a bs) @ drop ?k (drop ?a bs)" by (metis append_take_drop_id)
  then have "filter ?P bs = filter ?P (take ?a bs) @ filter ?P (take ?k (drop ?a bs)) @ filter ?P (drop ?k (drop ?a bs))"
    by (metis filter_append)
  moreover have "\<not> ?P b" if b: "b \<in> set (take ?a bs)" for b
  proof -
    obtain i where "i < ?a" "i < length bs" "b = bs ! i" using b by (auto simp: in_set_conv_nth)
    then have "f b = int i + 1" using assms(1) by simp
    then show ?thesis using \<open>i < ?a\<close> by linarith
  qed
  then have "\<forall>b \<in> set (take ?a bs). \<not> ?P b" by blast
  then have "filter ?P (take ?a bs) = []" by (rule filter_False)
  moreover have "\<not> ?P b" if b: "b \<in> set (drop ?k (drop ?a bs))" for b
  proof -
    obtain i where "i < length bs - (?k + ?a)" "b = bs ! (?k + ?a + i)"
      using b by (auto simp: in_set_conv_nth algebra_simps)
    then have "f b = int (?k + ?a + i) + 1" using assms(1) [of "?k + ?a + i"] by simp
    then show ?thesis using assms(2,3) by simp
  qed
  then have "\<forall>b \<in> set (drop ?k (drop ?a bs)). \<not> ?P b" by blast
  then have "filter ?P (drop ?k (drop ?a bs)) = []" by (rule filter_False)
  moreover have "filter ?P (take ?k (drop ?a bs)) = take ?k (drop ?a bs)"
    using assms(2-4) by (auto simp: filter_id_conv in_set_conv_nth assms(1))
  ultimately show ?thesis by simp
qed

lemma parse_blocks_texts [simp]: "parse_blocks (map block_text bs) = Inr bs"
  by (induction bs) simp_all

lemma store_range:
  assumes ok: "chain_ok m bs ch" "stores L bs ch" and n: "length bs < 10 ^ 16"
    and r: "1 \<le> g" "g \<le> l" "l \<le> ch_height ch"
  shows "lv_range L (block_key g) (block_key l) (dbBlockchain ch)
    = map block_text (take (nat (l - g + 1)) (drop (nat (g - 1)) bs))"
proof -
  let ?e = "\<lambda>b. (block_key (blk_height b), block_text b)"
  have h: "ch_height ch = int (length bs)" using ok(1) by (rule chain_ok_height)
  have lt: "int (length bs) < 10 ^ 16" using n by (metis of_nat_less_numeral_power_cancel_iff)
  have "(block_key g \<le> block_key (blk_height b) \<and> block_key (blk_height b) \<le> block_key l)
      = (g \<le> blk_height b \<and> blk_height b \<le> l)" if b: "b \<in> set bs" for b
  proof -
    obtain i where "i < length bs" "bs ! i = b" using b by (auto simp: in_set_conv_nth)
    then have "blk_height b = int i + 1" "int i < int (length bs)" using chain_ok_nth [OF ok(1)] by auto
    then show ?thesis using r h lt by (simp add: block_key_le)
  qed
  then have "filter (\<lambda>b. block_key g \<le> block_key (blk_height b) \<and> block_key (blk_height b) \<le> block_key l) bs
      = filter (\<lambda>b. g \<le> blk_height b \<and> blk_height b \<le> l) bs" by (rule filter_cong [OF refl])
  also have "\<dots> = take (nat (l - g + 1)) (drop (nat (g - 1)) bs)"
    using chain_ok_nth [OF ok(1)] r h by (intro filter_heights) simp_all
  finally show ?thesis using ok(2) by (simp add: lv_range_def stores_def filter_map o_def)
qed

lemma cache_nth:
  assumes "chain_ok m bs ch" and i: "i < jm_size (mapBlocks ch)"
  shows "jm_size (mapBlocks ch) \<le> length bs"
    and "header (jm_values (mapBlocks ch) ! i) = header (bs ! (length bs - jm_size (mapBlocks ch) + i))"
proof -
  let ?mb = "mapBlocks ch" and ?n = "jm_size (mapBlocks ch)"
  have h: "ch_height ch = int (length bs)" using assms(1) by (rule chain_ok_height)
  have keys: "map fst ?mb = [ch_height ch - int ?n + 1 .. ch_height ch]" and "int ?n \<le> ch_height ch"
    using assms(1) by (simp_all add: chain_ok_def cache_inv_def)
  then show n: "?n \<le> length bs" using h by simp
  have "fst (?mb ! i) = map fst ?mb ! i" using i by (simp add: jm_size_def)
  also have "\<dots> = ch_height ch - int ?n + 1 + int i" unfolding keys using i by simp
  finally have f: "fst (?mb ! i) = int (length bs - ?n + i) + 1" using h n by simp
  have "?mb ! i \<in> set ?mb" using i by (simp add: jm_size_def)
  then obtain j where "fst (?mb ! i) = int j + 1" "header (snd (?mb ! i)) = header (bs ! j)"
    using assms(1) unfolding chain_ok_def cache_of_def by blast
  moreover from this have "j = length bs - ?n + i" using f by linarith
  ultimately show "header (jm_values ?mb ! i) = header (bs ! (length bs - ?n + i))"
    using i by (simp add: jm_values_def jm_size_def)
qed

lemma cache_values:
  assumes "chain_ok m bs ch"
  shows "map header (jm_values (mapBlocks ch)) = map header (drop (length bs - jm_size (mapBlocks ch)) bs)"
proof (cases "jm_size (mapBlocks ch) = 0")
  case True
  then show ?thesis by (simp add: jm_size_def jm_values_def)
next
  case False
  then have "jm_size (mapBlocks ch) \<le> length bs" using cache_nth(1) [OF assms] by simp
  then show ?thesis using cache_nth(2) [OF assms]
    by (intro nth_equalityI) (simp_all add: jm_values_def jm_size_def)
qed

lemma cache_range:
  assumes ok: "chain_ok m bs ch" and r: "1 \<le> g" "g \<le> l" "l \<le> ch_height ch"
    and has: "jm_has (mapBlocks ch) g"
  shows "map header (js_slice (int (jm_size (mapBlocks ch)) - ch_height ch + g - 1)
      (int (jm_size (mapBlocks ch)) - ch_height ch + g - 1 + l - g + 1) (jm_values (mapBlocks ch)))
    = map header (take (nat (l - g + 1)) (drop (nat (g - 1)) bs))"
proof -
  let ?n = "jm_size (mapBlocks ch)" and ?vs = "jm_values (mapBlocks ch)"
  have h: "ch_height ch = int (length bs)" using ok by (rule chain_ok_height)
  have "g \<in> set (map fst (mapBlocks ch))" using has by (auto simp: jm_get_def dest!: map_of_SomeD) force
  moreover have "map fst (mapBlocks ch) = [ch_height ch - int ?n + 1 .. ch_height ch]"
    using ok by (simp add: chain_ok_def cache_inv_def)
  ultimately have lo: "ch_height ch - int ?n + 1 \<le> g" by (simp only: set_upto atLeastAtMost_iff)
  have n: "int ?n \<le> ch_height ch" using ok by (simp add: chain_ok_def cache_inv_def)
  have len: "length ?vs = ?n" by (simp add: jm_values_def jm_size_def)
  have s: "js_slice (int ?n - ch_height ch + g - 1) (int ?n - ch_height ch + g - 1 + l - g + 1) ?vs
      = take (nat (l - g + 1)) (drop (nat (int ?n - ch_height ch + g - 1)) ?vs)"
    using lo n r h len by (simp add: js_slice_def Let_def min_def algebra_simps)
  have "nat (int ?n - ch_height ch + g - 1) + (length bs - ?n) = nat (g - 1)"
    using lo n r h by (simp add: nat_add_distrib [symmetric] algebra_simps)
  then show ?thesis
    unfolding s using cache_values [OF ok]
    by (simp add: take_map [symmetric] drop_map [symmetric])
qed

lemma getRange_ok:
  assumes ok: "chain_ok m bs ch" "stores L bs ch" and n: "length bs < 10 ^ 16"
    and r: "range_bounds cfg ch gte lte = (g, l)" "1 \<le> g" "g \<le> l" "l \<le> ch_height ch"
  shows "\<exists>rs. getRange L cfg ch gte lte = Inr rs \<and>
    map header rs = map header (take (nat (l - g + 1)) (drop (nat (g - 1)) bs))"
proof (cases "jm_has (mapBlocks ch) g \<and> jm_has (mapBlocks ch) l")
  case True
  then show ?thesis
    using cache_range [OF ok(1) r(2-4)] by (simp add: getRange_def r(1) Let_def)
next
  case False
  then show ?thesis
    using store_range [OF ok n r(2-4)] by (auto simp: getRange_def r(1))
qed

lemma find_tx_header:
  assumes "header a = header b"
  shows "(find_tx r i a = None) = (find_tx r i b = None)"
    and "find_tx r i a = Some t \<Longrightarrow> \<exists>u \<in> set (blk_tx b). u\<lparr>tx_commands := []\<rparr> = t\<lparr>tx_commands := []\<rparr>"
    and "find_tx r i a = Some t \<Longrightarrow> tx_origin t = r \<and> tx_ident t = i"
    and "blk_height a = blk_height b"
proof -
  let ?f = "\<lambda>t. t\<lparr>tx_commands := []\<rparr>"
  have e: "map ?f (blk_tx a) = map ?f (blk_tx b)" and h: "blk_height a = blk_height b"
    using arg_cong [OF assms, of blk_tx] arg_cong [OF assms, of blk_height] by (simp_all add: header_def)
  show "blk_height a = blk_height b" by (rule h)
  have "(\<exists>t \<in> set ts. tx_origin t = r \<and> tx_ident t = i)
      = (\<exists>t \<in> set (map ?f ts). tx_origin t = r \<and> tx_ident t = i)" for ts by simp
  from this [of "blk_tx a"] this [of "blk_tx b"] have "(\<exists>t \<in> set (blk_tx a). tx_origin t = r \<and> tx_ident t = i)
      = (\<exists>t \<in> set (blk_tx b). tx_origin t = r \<and> tx_ident t = i)" by (simp only: e)
  then show "(find_tx r i a = None) = (find_tx r i b = None)" by (auto simp: find_tx_def find_None_iff)
  assume t: "find_tx r i a = Some t"
  then have "t \<in> set (blk_tx a)" by (auto simp: find_tx_def find_Some_iff)
  then have "?f t \<in> set (map ?f (blk_tx b))" unfolding e [symmetric] by simp
  then show "\<exists>u \<in> set (blk_tx b). ?f u = ?f t" by auto
  show "tx_origin t = r \<and> tx_ident t = i" using t by (auto simp: find_tx_def find_Some_iff)
qed

lemma find_in_cache_None: "find_in_cache r i bs = None \<longleftrightarrow> (\<forall>b \<in> set bs. find_tx r i b = None)"
  by (induction bs) (auto split: option.split)

lemma find_in_cache_Some: "find_in_cache r i bs = Some (h, t) \<Longrightarrow> \<exists>b \<in> set bs. blk_height b = h \<and> find_tx r i b = Some t"
  by (induction bs) (auto split: option.splits)

lemma find_in_store_texts:
  "find_in_store r i (map block_text bs)
    = (case find_in_cache r i bs of None \<Rightarrow> Inl (Thrown ''Not Found'') | Some x \<Rightarrow> Inr x)"
  by (induction bs) (auto split: option.split)

lemma cache_member:
  assumes "chain_ok m bs ch" and "b \<in> set (jm_values (mapBlocks ch))"
  shows "\<exists>a \<in> set bs. header b = header a"
  using assms by (fastforce simp: chain_ok_def cache_of_def jm_values_def)

text \<open>\<open>getRange\<close> on a reachable chain.\<close>

lemma getRange_run:
  assumes "chain_run C L cfg propose pk bs ch cr s" and "level_ok L"
    and "1 \<le> blockchain_max_blocks_in_memory cfg" and "length bs < 10 ^ 16" and "1 \<le> api_max_query_size cfg"
  shows "\<exists>g l rs. getRange L cfg ch gte lte = Inr rs \<and>
    map header rs = map header (take (nat (l - g + 1)) (drop (nat (g - 1)) bs)) \<and>
    1 \<le> g \<and> g \<le> l \<and> l \<le> int (length bs) \<and> l - g < api_max_query_size cfg \<and>
    (if 1 \<le> gte \<and> gte \<le> lte \<and> lte \<le> int (length bs) \<and> lte - gte < api_max_query_size cfg
     then g = gte \<and> l = lte else True)"
proof -
  have ok: "chain_ok (blockchain_max_blocks_in_memory cfg) bs ch" "stores L bs ch"
    using chain_run_ok [OF assms(1-3)] by simp_all
  have h: "ch_height ch = int (length bs)" using ok(1) by (rule chain_ok_height)
  have "bs \<noteq> []" using assms(1) by (auto simp: chain_run_nonempty)
  then have h1: "1 \<le> ch_height ch" using h by (cases bs) simp_all
  obtain g l where r: "range_bounds cfg ch gte lte = (g, l)" by (cases "range_bounds cfg ch gte lte")
  note b = range_bounds_ok [OF h1 assms(5) r]
  obtain rs where "getRange L cfg ch gte lte = Inr rs"
    "map header rs = map header (take (nat (l - g + 1)) (drop (nat (g - 1)) bs))"
    using getRange_ok [OF ok assms(4) r b(1-3)] by blast
  moreover have "if 1 \<le> gte \<and> gte \<le> lte \<and> lte \<le> int (length bs) \<and> lte - gte < api_max_query_size cfg
     then g = gte \<and> l = lte else True"
    using range_bounds_id [of gte lte ch cfg] r h by simp
  ultimately show ?thesis using b h by auto
qed

section \<open>Properties\<close>



text \<open>C35: On every reachable chain \<open>getTransaction\<close> throws \<open>Not Found\<close> exactly when no stored block has a
  transaction of this origin and identifier; otherwise it answers with one (up to its commands) and the height
  of a block that has it.\<close>

theorem getTransaction_finds:
  assumes "chain_run C L cfg propose pk bs ch cr s" and "level_ok L"
    and "1 \<le> blockchain_max_blocks_in_memory cfg"
  shows "case getTransaction L ch r i of
      Inl e \<Rightarrow> e = Thrown ''Not Found'' \<and> (\<nexists>b t. b \<in> set bs \<and> t \<in> set (blk_tx b) \<and> tx_origin t = r \<and> tx_ident t = i)
    | Inr (h, t) \<Rightarrow> tx_origin t = r \<and> tx_ident t = i \<and>
        (\<exists>b u. b \<in> set bs \<and> blk_height b = h \<and> u \<in> set (blk_tx b) \<and> u\<lparr>tx_commands := []\<rparr> = t\<lparr>tx_commands := []\<rparr>)"
proof -
  have ok: "chain_ok (blockchain_max_blocks_in_memory cfg) bs ch" and v: "lv_values L (dbBlockchain ch) = map block_text bs"
    using chain_run_ok [OF assms] by (simp_all add: stores_values)
  have found: "tx_origin t = r \<and> tx_ident t = i \<and>
      (\<exists>b u. b \<in> set bs \<and> blk_height b = h \<and> u \<in> set (blk_tx b) \<and> u\<lparr>tx_commands := []\<rparr> = t\<lparr>tx_commands := []\<rparr>)"
    if f: "a \<in> set bs" "header b = header a" "blk_height b = h" "find_tx r i b = Some t" for a b h t
  proof -
    obtain u where "u \<in> set (blk_tx a)" "u\<lparr>tx_commands := []\<rparr> = t\<lparr>tx_commands := []\<rparr>"
      using find_tx_header(2) [OF f(2,4)] by blast
    moreover have "blk_height a = h" using find_tx_header(4) [OF f(2)] f(3) by simp
    ultimately show ?thesis using find_tx_header(3) [OF f(2,4)] f(1) by blast
  qed
  show ?thesis
  proof (cases "find_in_cache r i (jm_values (mapBlocks ch))")
    case (Some x)
    obtain h t where x: "x = (h, t)" by (cases x)
    then obtain b where b: "b \<in> set (jm_values (mapBlocks ch))" "blk_height b = h" "find_tx r i b = Some t"
      using find_in_cache_Some [of r i _ h t] Some by blast
    then obtain a where "a \<in> set bs" "header b = header a" using cache_member [OF ok] by blast
    from found [OF this b(2,3)] show ?thesis by (simp add: getTransaction_def Some x)
  next
    case None
    show ?thesis
    proof (cases "find_in_cache r i bs")
      case None2: None
      then have "\<forall>b \<in> set bs. find_tx r i b = None" by (simp add: find_in_cache_None)
      then show ?thesis
        by (auto simp: getTransaction_def None v find_in_store_texts None2 find_tx_def find_None_iff)
    next
      case (Some x)
      obtain h t where x: "x = (h, t)" by (cases x)
      then obtain b where b: "b \<in> set bs" "blk_height b = h" "find_tx r i b = Some t"
        using find_in_cache_Some [of r i bs h t] Some by blast
      from found [OF b(1) refl b(2,3)] show ?thesis
        by (simp add: getTransaction_def None v find_in_store_texts Some x)
    qed
  qed
qed

theorem getTransaction_finds_witness:
  "\<exists>h t. getTransaction mem_level (demo_chain ''abc'') (replicate 43 CHR ''0'') ''genesis'' = Inr (h, t) \<and>
     tx_ident t = ''genesis''"
proof -
  obtain cr where r: "chain_run demo_crypto mem_level demo_cfg no_propose (demo_key CHR ''a'')
    [demo_genesis ''abc''] (demo_chain ''abc'') cr ()" using demo_run1 by blast
  let ?t = "hd (blk_tx (demo_genesis ''abc''))"
  have t: "?t \<in> set (blk_tx (demo_genesis ''abc''))" "tx_origin ?t = replicate 43 CHR ''0''" "tx_ident ?t = ''genesis''"
    by (simp_all add: demo_genesis_def Let_def)
  show ?thesis
    using getTransaction_finds [OF r mem_level_ok demo_max, of "replicate 43 CHR ''0''" "''genesis''"] t
    by (cases "getTransaction mem_level (demo_chain ''abc'') (replicate 43 CHR ''0'') ''genesis''") (force, auto)
qed

text \<open>On every reachable chain \<open>searchBlocks\<close> answers, in order of height, the blocks among the last
  \<open>api_max_query_size\<close> ones whose stored text contains the search text.\<close>

theorem searchBlocks_filters:
  assumes "chain_run C L cfg propose pk bs ch cr s" and "level_ok L"
    and "1 \<le> blockchain_max_blocks_in_memory cfg"
  shows "searchBlocks L cfg ch q = Inr (filter (\<lambda>b. includes_str q (block_text b))
    (drop (length bs - nat (api_max_query_size cfg)) bs))"
proof -
  have st: "stores L bs ch" using chain_run_ok [OF assms] by simp
  have "map snd (lv_reverse_limit L (nat (api_max_query_size cfg)) (dbBlockchain ch))
      = map block_text (rev (drop (length bs - nat (api_max_query_size cfg)) bs))"
    using st by (simp add: lv_reverse_limit_def stores_def rev_map take_map take_rev)
  then have "filter (\<lambda>v. q = [] \<or> includes_str q v)
      (map snd (lv_reverse_limit L (nat (api_max_query_size cfg)) (dbBlockchain ch)))
    = map block_text (rev (filter (\<lambda>b. q = [] \<or> includes_str q (block_text b))
        (drop (length bs - nat (api_max_query_size cfg)) bs)))"
    by (simp add: filter_map o_def rev_filter)
  moreover have "(q = [] \<or> includes_str q v) = includes_str q v" for v by (cases v) auto
  ultimately show ?thesis by (simp add: searchBlocks_def)
qed

theorem searchBlocks_filters_witness:
  "\<exists>bs. searchBlocks mem_level demo_cfg (demo_chain ''abc'') ''genesis'' = Inr bs"
proof -
  obtain cr where r: "chain_run demo_crypto mem_level demo_cfg no_propose (demo_key CHR ''a'')
    [demo_genesis ''abc''] (demo_chain ''abc'') cr ()" using demo_run1 by blast
  from searchBlocks_filters [OF r mem_level_ok demo_max] show ?thesis by blast
qed

end
