(* ===== verification/Genesis.thy ===== *)
theory Genesis
  imports Config_Make Chain_Queries
begin

text \<open>
  \<open>src/genesis.ts\<close>, which makes the configurations and the genesis block of a new network,
  and the first part of \<open>Config.make\<close> in \<open>src/config.ts\<close>, which calls it in genesis mode.
  \<open>Genesis.create\<close> sets \<open>GENESIS\<close> to \<open>0\<close>, so the calls of \<open>Config.make\<close> it makes itself
  are calls of \<open>Config_make_rest\<close>. The lemmas describe the block, and show that a chain
  reset to it has exactly the configured peers.
\<close>

section \<open>Creating a network\<close>

definition set_env :: "string \<Rightarrow> string \<Rightarrow> world \<Rightarrow> world" where
  "set_env k v w = w\<lparr>environ := (environ w)(k \<mapsto> v)\<rparr>"

definition is_test :: "world \<Rightarrow> bool" where
  "is_test w \<longleftrightarrow> environ w ''IS_TESTNET'' = Some ''1''"

definition env_num :: "world \<Rightarrow> string \<Rightarrow> jsnum \<Rightarrow> jsnum" where \<comment> \<open>\<open>Number(process.env.K || d)\<close>\<close>
  "env_num w k d = (if env_str w k \<noteq> [] then Number_of (env_str w k) else d)"

text \<open>The argument of \<open>Config.make\<close> for the \<open>i\<close>-th node.\<close>

definition offset_port :: "jsnum \<Rightarrow> int \<Rightarrow> jsnum" where
  "offset_port p i = (if num_less (num 0) p then num_add p (num i) else num 0)"

definition genesis_args :: "world \<Rightarrow> string \<Rightarrow> string \<Rightarrow> int \<Rightarrow> configuration" where
  "genesis_args w pathApp pathGenesis i =
     (let env = env_str w;
          IP = str_or (env ''IP'') ''127.27.27.1'';
          BASE_PORT = env_num w ''BASE_PORT'' (num 17000);
          BASE_PORT_FEED = env_num w ''BASE_PORT_FEED'' (num 18000);
          SOCKS_HOST = env ''I2P_SOCKS_HOST'';
          SOCKS_PORT = (if SOCKS_HOST \<noteq> [] then env_num w ''I2P_SOCKS_PORT'' (num 4445) else num 0);
          HTTP_HOST = str_or (env ''I2P_SAM_HTTP_HOST'') SOCKS_HOST;
          HTTP_TCP = (if HTTP_HOST \<noteq> [] then env_num w ''I2P_SAM_HTTP_PORT_TCP'' (num 7656) else num 0);
          UDP_HOST = str_or (env ''I2P_SAM_UDP_HOST'') HTTP_HOST;
          UDP_TCP = (if UDP_HOST \<noteq> [] then env_num w ''I2P_SAM_UDP_PORT_TCP'' (num 7656) else num 0);
          UDP_UDP = (if UDP_HOST \<noteq> [] then env_num w ''I2P_SAM_UDP_PORT_UDP'' (num 7655) else num 0);
          FWD_HTTP_HOST = (if HTTP_HOST \<noteq> [] then str_or (env ''I2P_SAM_FORWARD_HTTP_HOST'') ''172.19.75.1'' else []);
          FWD_HTTP_PORT = (if HTTP_HOST \<noteq> [] then env_num w ''I2P_SAM_FORWARD_HTTP_PORT'' BASE_PORT else num 0);
          LISTEN_HOST = (if UDP_HOST \<noteq> [] then str_or (env ''I2P_SAM_LISTEN_UDP_HOST'') ''0.0.0.0'' else []);
          LISTEN_PORT = (if UDP_HOST \<noteq> [] then env_num w ''I2P_SAM_LISTEN_UDP_PORT'' (num 19000) else num 0);
          FWD_UDP_HOST = (if UDP_HOST \<noteq> [] then str_or (env ''I2P_SAM_FORWARD_UDP_HOST'') ''172.19.75.1'' else []);
          FWD_UDP_PORT = (if UDP_HOST \<noteq> [] then env_num w ''I2P_SAM_FORWARD_UDP_PORT'' (num 19000) else num 0)
      in no_configuration\<lparr>a_no_bootstrapping := num 1, a_ip := IP, a_port := num_add BASE_PORT (num i),
           a_port_block_feed := num_add BASE_PORT_FEED (num i), a_path_app := pathApp, a_path_genesis := pathGenesis,
           a_blockchain_max_blocks_in_memory := num 100,
           a_i2p_socks_host := SOCKS_HOST, a_i2p_socks_port := SOCKS_PORT,
           a_i2p_sam_http_host := HTTP_HOST, a_i2p_sam_http_port_tcp := HTTP_TCP,
           a_i2p_sam_udp_host := UDP_HOST, a_i2p_sam_udp_port_tcp := UDP_TCP, a_i2p_sam_udp_port_udp := UDP_UDP,
           a_i2p_sam_forward_http_host := FWD_HTTP_HOST, a_i2p_sam_forward_http_port := offset_port FWD_HTTP_PORT i,
           a_i2p_sam_listen_udp_host := LISTEN_HOST, a_i2p_sam_listen_udp_port := offset_port LISTEN_PORT i,
           a_i2p_sam_forward_udp_host := FWD_UDP_HOST, a_i2p_sam_forward_udp_port := offset_port FWD_UDP_PORT i,
           a_http := (if HTTP_HOST \<noteq> [] then [] else IP @ '':'' @ num_str (num_add BASE_PORT (num i))),
           a_udp := (if UDP_HOST \<noteq> [] then [] else IP @ '':'' @ num_str (num_add BASE_PORT (num (3000 + i))))\<rparr>)"

text \<open>The loop over the nodes: \<open>n\<close> iterations are left, \<open>i\<close> is the number of the next one.\<close>

fun genesis_loop ::
    "platform \<Rightarrow> crypto \<Rightarrow> string \<Rightarrow> string \<Rightarrow> nat \<Rightarrow> int \<Rightarrow> (string, full_config) jsmap \<Rightarrow> command list \<Rightarrow> world
      \<Rightarrow> ((string, full_config) jsmap \<times> command list \<times> world) result" where
  "genesis_loop P C pathApp pathGenesis 0 i m cmds w = Inr (m, cmds, w)"
| "genesis_loop P C pathApp pathGenesis (Suc n) i m cmds w =
     bindr (Config_make_rest P (is_test w) (genesis_args w pathApp pathGenesis i) w) (\<lambda>(cfg, w).
       bindr (Wallet_make P (f_path_keys cfg) (f_http cfg) w) (\<lambda>s.
         bindr (Wallet_getPublicKey P C s) (\<lambda>(publicKey, o1, w).
           genesis_loop P C pathApp pathGenesis n (i + 1) (jm_set publicKey cfg m)
             (cmds @ [AddPeer (Some i) (f_http cfg) (f_udp cfg) publicKey]) w)))"

definition zeros :: "nat \<Rightarrow> string" where
  "zeros n = replicate n (CHR ''0'')"

definition genesis_tx :: "command list \<Rightarrow> transaction" where
  "genesis_tx cmds = \<lparr>tx_ident = ''genesis'', tx_origin = zeros 43, tx_commands = cmds, tx_sig = zeros 86\<rparr>"

definition Genesis_create ::
    "platform \<Rightarrow> crypto \<Rightarrow> string \<Rightarrow> world \<Rightarrow> ((block \<times> (string, full_config) jsmap) \<times> world) result" where
  "Genesis_create P C pathApplication w =
     (let w = set_env ''GENESIS'' ''0'' w;
          size_network = env_num w ''SIZE_NETWORK'' (num 9)
      in if num_less (num MAX_NETWORK_SIZE) size_network
         then Inl (Thrown ''Maximum network size: 16. Larger network not supported.'')
         else
           let pathApp = str_or pathApplication (path_join [pf_dirname P, ''/../'']);
               pathGenesis = path_join [pf_dirname P, ''/../genesis'', DEFAULT_NAME_GENESIS_BLOCK @ ''.json'']
           in bindr (Blockchain_genesis C (files w pathGenesis)) (\<lambda>g.
                bindr (genesis_loop P C pathApp pathGenesis (nat (num_int size_network)) 1 jm_empty [] w) (\<lambda>(m, cmds, w).
                  let g = g\<lparr>blk_tx := [genesis_tx cmds]\<rparr>;
                      g = g\<lparr>blk_hash := Util_hash C
                             (block_hash_input (blk_version g) (blk_previousHash g) (blk_tx g) (blk_height g))\<rparr>
                  in Inr ((g, m), w))))"

section \<open>Config.make\<close>

text \<open>In genesis mode the process ends after the output: \<open>Exited\<close> with the text on standard output.\<close>

datatype made = Configured full_config | Exited string

definition config_list_text :: "(string, full_config) jsmap \<Rightarrow> string" where
  "config_list_text m =
     stringify (JArr (map (\<lambda>c. JObj [(''http'', JStr (f_http c)), (''udp'', JStr (f_udp c))]) (jm_values m)))"

definition Config_make :: "platform \<Rightarrow> crypto \<Rightarrow> configuration \<Rightarrow> world \<Rightarrow> (made \<times> world) result" where
  "Config_make P C c w =
     (let t = is_test w
      in if environ w ''GENESIS'' = Some ''1'' then
           bindr (Genesis_create P C [] w) (\<lambda>((genesis, m), w).
             let p = env_str w ''GENESIS_PATH''
             in if p \<noteq> [] \<and> existsSync (path_dirname p) w \<and> ends_with ''.json'' p then
                  let w = writeFileSync p (block_text genesis) w;
                      cp = env_str w ''GENESIS_CONFIG_PATH''
                  in Inr (Exited [],
                       if cp \<noteq> [] \<and> existsSync (path_dirname cp) w \<and> ends_with ''.config'' cp
                       then writeFileSync cp (config_list_text m) w else w)
                else Inr (Exited (block_text genesis), w))
         else bindr (Config_make_rest P t c w) (\<lambda>(cfg, w). Inr (Configured cfg, w)))"

section \<open>The genesis block\<close>

text \<open>The commands the loop collects: numbered, one per node, with the addresses of its configuration.\<close>

inductive peer_commands :: "int \<Rightarrow> command list \<Rightarrow> bool" where
  Nil: "peer_commands i []"
| Cons: "peer_commands (i + 1) cs \<Longrightarrow> peer_commands i (AddPeer (Some i) h u k # cs)"

inductive_simps peer_commands_Cons: "peer_commands i (c # cs)"

lemma genesis_loop_commands:
  "genesis_loop P C pa pg n i m cmds w = Inr (m', cmds', w') \<Longrightarrow>
    \<exists>cs. cmds' = cmds @ cs \<and> length cs = n \<and> peer_commands i cs"
proof (induction n arbitrary: i m cmds w)
  case 0
  then show ?case by (simp add: peer_commands.Nil)
next
  case (Suc n)
  obtain cfg :: full_config and k m1 w1 where "genesis_loop P C pa pg n (i + 1) m1
      (cmds @ [AddPeer (Some i) (f_http cfg) (f_udp cfg) k]) w1 = Inr (m', cmds', w')"
    using Suc.prems by auto
  from Suc.IH [OF this] show ?case using peer_commands.Cons by fastforce
qed

text \<open>A list of \<open>addPeer\<close> commands for new peers adds exactly these, with stake 1.\<close>

fun command_key :: "command \<Rightarrow> string" where
  "command_key (AddPeer s h u k) = k"
| "command_key (RemovePeer s k) = k"
| "command_key (ModifyStake s k i n) = k"
| "command_key c = []"

lemma process_peer_commands:
  "peer_commands i cs \<Longrightarrow> distinct (map command_key cs) \<Longrightarrow>
    \<forall>c \<in> set cs. jm_get (mapPeer ch) (command_key c) = None \<Longrightarrow>
    process_commands L r cs (ch, cr) = (cs', ch', cr') \<Longrightarrow>
    jm_keys (mapPeer ch') = jm_keys (mapPeer ch) @ map command_key cs \<and>
    quorumWeighted ch' = quorumWeighted ch + int (length cs) \<and>
    (\<forall>k p. jm_get (mapPeer ch') k = Some p \<longrightarrow> jm_get (mapPeer ch) k = Some p \<or> p_stake p = 1)"
proof (induction arbitrary: ch cs' ch' cr' rule: peer_commands.induct)
  case (Nil i)
  then show ?case by simp
next
  case (Cons i cs h u k)
  let ?ch = "addPeer L h u k ch"
  have new: "jm_get (mapPeer ch) k = None" using Cons.prems(2) by simp
  have f: "mapPeer ?ch = jm_set k \<lparr>p_publicKey = k, p_http = h, p_udp = u, p_stake = 1\<rparr> (mapPeer ch)"
    "quorumWeighted ?ch = quorumWeighted ch + 1"
    using new by (simp_all add: addPeer_def updateStateData_def Let_def)
  have keys: "jm_keys (mapPeer ?ch) = jm_keys (mapPeer ch) @ [k]"
    using new by (simp add: f jm_keys_def jm_set_def jm_get_def update_new)
  obtain cs1 where p: "process_commands L r cs (?ch, cr) = (cs1, ch', cr')"
    using Cons.prems(3) by (auto split: prod.splits)
  have "\<forall>c \<in> set cs. jm_get (mapPeer ?ch) (command_key c) = None"
    using Cons.prems(1,2) by (auto simp: f)
  from Cons.IH [OF _ this p] Cons.prems(1)
  have "jm_keys (mapPeer ch') = jm_keys (mapPeer ?ch) @ map command_key cs"
    "quorumWeighted ch' = quorumWeighted ?ch + int (length cs)"
    "\<forall>j p. jm_get (mapPeer ch') j = Some p \<longrightarrow> jm_get (mapPeer ?ch) j = Some p \<or> p_stake p = 1"
    by simp_all
  note r = this
  have "jm_get (mapPeer ch) j = Some p \<or> p_stake p = 1" if "jm_get (mapPeer ch') j = Some p" for j p
  proof -
    have "jm_get (mapPeer ?ch) j = Some p \<or> p_stake p = 1" using r(3) that by blast
    then show ?thesis unfolding f by (auto split: if_splits)
  qed
  then show ?case using r(1,2) keys f(2) by simp
qed

text \<open>A reset of a new chain to one block: without peers no vote counts, so nothing can fail.\<close>

lemma updateCache_no_peers:
  assumes "mapPeer ch = jm_empty" and "mapVoteStake ch = jm_empty"
  shows "updateCache cfg propose g (ch, cr, s) = Inr (cache_block cfg g ch, cr, s)"
proof -
  have "foldl (\<lambda>m v. count_vote ch v m) m vs = m" if "mapPeer ch = jm_empty" for ch :: "'a chain" and m vs
    using that by (induction vs arbitrary: m) (simp_all add: count_vote_def hasPeer_def)
  moreover have "mapPeer (cache_block cfg g ch) = jm_empty" "mapVoteStake (cache_block cfg g ch) = jm_empty"
    using assms by (simp_all add: cache_block_def Let_def)
  ultimately show ?thesis by (simp add: updateCache_def Let_def jm_size_def) (simp add: jm_empty_def)
qed

lemma reset_new_chain:
  assumes "level_ok L"
    and p: "processState L cfg now g (cache_block cfg g (chain_new pk (lv_put L (block_key 1) (block_text g) (lv_clear L dbb))
      (lv_clear L (lv_clear L dbs))), cr) = (g', ch1, cr1)"
  shows "chain_reset L cfg propose now g (chain_new pk dbb dbs, cr, s) = Inr (refresh_cached g' ch1, cr1, s)"
proof -
  let ?db = "lv_put L (block_key 1) (block_text g) (lv_clear L dbb)"
  have v: "lv_values L ?db = [block_text g]"
    using level_put_last [OF assms(1), of "lv_clear L dbb" "block_key 1" "block_text g"] level_okD(5) [OF assms(1)]
    by (simp add: lv_values_def)
  have "chain_reset L cfg propose now g (chain_new pk dbb dbs, cr, s)
      = init_loop L cfg propose now (lv_values L ?db) (chain_new pk ?db (lv_clear L (lv_clear L dbs)), cr, s)"
    by (simp add: chain_reset_def chain_init_def updateBlockData_def chain_clear_def chain_new_def Let_def del: init_loop.simps)
  also have "\<dots> = Inr (refresh_cached g' ch1, cr1, s)"
    unfolding v using p
    by (simp add: updateCache_no_peers chain_new_def)
  finally show ?thesis .
qed

lemma genesis_ledger:
  assumes "blk_tx g = [genesis_tx cs]" and cs: "peer_commands 1 cs" "distinct (map command_key cs)"
    and "mapPeer ch = jm_empty" "quorumWeighted ch = 0"
    and p: "processState L cfg now g (ch, cr) = (g', ch1, cr1)"
  shows "jm_keys (mapPeer ch1) = map command_key cs \<and> quorumWeighted ch1 = int (length cs) \<and>
    (\<forall>k p. getPeer ch1 k = Some p \<longrightarrow> p_stake p = 1)"
proof -
  let ?ch = "if debug_performance cfg then updateStateData L (debug_key (ch_height ch)) (dec_of_int now) ch else ch"
  obtain cs1 where "process_commands L (zeros 43) cs (?ch, cr) = (cs1, ch1, cr1)"
    using p assms(1) by (auto simp: processState_def genesis_tx_def Let_def split: prod.splits)
  moreover have "mapPeer ?ch = jm_empty" "quorumWeighted ?ch = 0" using assms by (simp_all add: updateStateData_def)
  ultimately show ?thesis
    using process_peer_commands [OF cs, of ?ch L "zeros 43" cr cs1 ch1 cr1]
    by (simp add: jm_keys_def jm_empty_def getPeer_def jm_get_def)
qed

section \<open>Property\<close>


text \<open>Two nodes; the text of the genesis file is \<open>t\<close>.\<close>

definition demo_genesis_world :: "string \<Rightarrow> world" where
  "demo_genesis_world t = demo_world
     \<lparr>files := [''/app/genesis/block.v7.json'' \<mapsto> t, ''/app/dist/version'' \<mapsto> ''1''],
      environ := [''SIZE_NETWORK'' \<mapsto> ''2'', ''I2P_SOCKS_HOST'' \<mapsto> ''10.0.0.1'']\<rparr>"

lemma demo_genesis_loop:
  "case genesis_loop demo_platform demo_crypto ''/app/'' ''/app/genesis/block.v7.json'' 2 1 jm_empty []
     (set_env ''GENESIS'' ''0'' (demo_genesis_world t)) of
     Inl e \<Rightarrow> False | Inr (m, cmds, w) \<Rightarrow> distinct (map command_key cmds) \<and> length cmds = 2"
  by code_simp

lemma demo_genesis_create:
  "\<exists>g m w' cs. Genesis_create demo_platform demo_crypto [] (demo_genesis_world (block_text (demo_genesis []))) = Inr ((g, m), w') \<and>
     blk_tx g = [genesis_tx cs] \<and> distinct (map command_key cs) \<and> length cs = 2"
proof -
  let ?w = "demo_genesis_world (block_text (demo_genesis []))"
  obtain m cs w1 where l: "genesis_loop demo_platform demo_crypto ''/app/'' ''/app/genesis/block.v7.json'' 2 1 jm_empty []
     (set_env ''GENESIS'' ''0'' ?w) = Inr (m, cs, w1)" "distinct (map command_key cs)" "length cs = 2"
    using demo_genesis_loop [of "block_text (demo_genesis [])"] by (auto split: sum.splits prod.splits)
  have "(of_nat 2 :: rat) < 2 ^ 1024 - 2 ^ 970" by simp
  then have two: "Number_of (dec_of_nat 2) = num 2" using Number_of_nat [of 2] by simp
  have d: "dec_of_nat 2 = ''2''" by code_simp
  have "env_str (set_env ''GENESIS'' ''0'' (demo_genesis_world t)) ''SIZE_NETWORK'' = dec_of_nat 2" for t
    unfolding d by (simp add: env_str_def set_env_def demo_genesis_world_def)
  then have n: "env_num (set_env ''GENESIS'' ''0'' (demo_genesis_world t)) ''SIZE_NETWORK'' (num 9) = num 2" for t
    using two by (simp add: env_num_def)
  have p: "path_join [pf_dirname demo_platform, ''/../''] = ''/app/''"
    "path_join [pf_dirname demo_platform, ''/../genesis'', DEFAULT_NAME_GENESIS_BLOCK @ ''.json''] = ''/app/genesis/block.v7.json''"
    by code_simp+
  have f: "files (set_env ''GENESIS'' ''0'' ?w) ''/app/genesis/block.v7.json'' = Some (block_text (demo_genesis []))"
    by (simp add: set_env_def demo_genesis_world_def)
  have lim: "\<not> num_less (num MAX_NETWORK_SIZE) (num 2)" "nat (num_int (num 2)) = 2" by (simp_all add: MAX_NETWORK_SIZE_def num_less_def)
  show ?thesis using l(2,3)
    unfolding Genesis_create_def Let_def n p f str_or_def
    by (simp only: lim if_False simp_thms Blockchain_genesis_def option.case block_of_text_of bindr_simps l(1) prod.case) auto
qed


end
