(* ===== verification/Messages.thy ===== *)
theory Messages
  imports Validation
begin

text \<open>
  \<open>src/net/message/*.ts\<close> and \<open>validateMessage\<close> of \<open>src/net/validation.ts\<close>: the five
  kinds of messages, their JSON text, the signed packet, reading a packet back, and the
  message schemas. As in the code the received object is any JSON value until the schema
  has accepted it. The lemmas give the round trip of packets and show which packets make
  \<open>type()\<close> throw.
\<close>

section \<open>Messages\<close>

datatype msg_data =
    AddTxData int transaction \<comment> \<open>height, tx\<close>
  | ProposeBlockData block
  | SignBlockData string string \<comment> \<open>hash, sig\<close>
  | ConfirmBlockData string "vote list" \<comment> \<open>hash, votes\<close>
  | StatusData int int \<comment> \<open>status, height\<close>

record message =
  msg_seq :: int
  msg_origin :: string
  msg_dest :: string
  msg_data :: msg_data

definition TYPE_ADD_TX :: int where "TYPE_ADD_TX = 1"
definition TYPE_PROPOSE_BLOCK :: int where "TYPE_PROPOSE_BLOCK = 2"
definition TYPE_SIGN_BLOCK :: int where "TYPE_SIGN_BLOCK = 3"
definition TYPE_CONFIRM_BLOCK :: int where "TYPE_CONFIRM_BLOCK = 4"
definition TYPE_STATUS :: int where "TYPE_STATUS = 5"

lemmas type_defs = TYPE_ADD_TX_def TYPE_PROPOSE_BLOCK_def TYPE_SIGN_BLOCK_def TYPE_CONFIRM_BLOCK_def TYPE_STATUS_def

fun data_type :: "msg_data \<Rightarrow> int" where
  "data_type (AddTxData h t) = TYPE_ADD_TX"
| "data_type (ProposeBlockData b) = TYPE_PROPOSE_BLOCK"
| "data_type (SignBlockData h s) = TYPE_SIGN_BLOCK"
| "data_type (ConfirmBlockData h vs) = TYPE_CONFIRM_BLOCK"
| "data_type (StatusData s h) = TYPE_STATUS"

text \<open>\<open>init\<close> and the five \<open>create\<close> functions. \<open>now\<close> is the value of \<open>Date.now()\<close>.\<close>

definition Message_init :: "int \<Rightarrow> string \<Rightarrow> string \<Rightarrow> msg_data \<Rightarrow> message" where
  "Message_init now origin dest d = \<lparr>msg_seq = now, msg_origin = origin, msg_dest = dest, msg_data = d\<rparr>"

definition AddTx_create :: "crypto \<Rightarrow> wallet \<Rightarrow> int \<Rightarrow> string \<Rightarrow> int \<Rightarrow> transaction \<Rightarrow> message" where
  "AddTx_create C w now dest height tx = Message_init now (getPublicKey C w) dest (AddTxData height tx)"

definition ProposeBlock_create :: "crypto \<Rightarrow> wallet \<Rightarrow> int \<Rightarrow> block \<Rightarrow> message" where
  "ProposeBlock_create C w now b = Message_init now (getPublicKey C w) [] (ProposeBlockData b)"

definition SignBlock_create :: "crypto \<Rightarrow> wallet \<Rightarrow> int \<Rightarrow> string \<Rightarrow> string \<Rightarrow> message" where
  "SignBlock_create C w now dest hash =
     Message_init now (getPublicKey C w) dest (SignBlockData hash (wallet_sign C w hash))"

definition ConfirmBlock_create :: "crypto \<Rightarrow> wallet \<Rightarrow> int \<Rightarrow> string \<Rightarrow> vote list \<Rightarrow> message" where
  "ConfirmBlock_create C w now hash votes = Message_init now (getPublicKey C w) [] (ConfirmBlockData hash votes)"

definition Status_create :: "crypto \<Rightarrow> wallet \<Rightarrow> int \<Rightarrow> int \<Rightarrow> int \<Rightarrow> message" where
  "Status_create C w now status height = Message_init now (getPublicKey C w) [] (StatusData status height)"

section \<open>JSON text\<close>

fun json_of_data :: "msg_data \<Rightarrow> json" where
  "json_of_data (AddTxData h t) =
     JObj [(''type'', JNum TYPE_ADD_TX), (''height'', JNum h), (''tx'', json_of_transaction t)]"
| "json_of_data (ProposeBlockData b) = JObj [(''type'', JNum TYPE_PROPOSE_BLOCK), (''block'', json_of_block b)]"
| "json_of_data (SignBlockData h s) = JObj [(''type'', JNum TYPE_SIGN_BLOCK), (''hash'', JStr h), (''sig'', JStr s)]"
| "json_of_data (ConfirmBlockData h vs) =
     JObj [(''type'', JNum TYPE_CONFIRM_BLOCK), (''hash'', JStr h), (''votes'', JArr (map json_of_vote vs))]"
| "json_of_data (StatusData s h) =
     JObj [(''type'', JNum TYPE_STATUS), (''status'', JNum s), (''height'', JNum h)]"

definition json_of_message :: "message \<Rightarrow> json" where
  "json_of_message m = JObj [(''seq'', JNum (msg_seq m)), (''origin'', JStr (msg_origin m)),
     (''dest'', JStr (msg_dest m)), (''data'', json_of_data (msg_data m))]"

definition data_of_json :: "json \<Rightarrow> msg_data option" where
  "data_of_json j =
     (case int_field ''type'' j of
        None \<Rightarrow> None
      | Some t \<Rightarrow>
          if t = TYPE_ADD_TX then
            (case (int_field ''height'' j, Option.bind (field ''tx'' j) transaction_of_json) of
               (Some h, Some x) \<Rightarrow> Some (AddTxData h x) | _ \<Rightarrow> None)
          else if t = TYPE_PROPOSE_BLOCK then
            map_option ProposeBlockData (Option.bind (field ''block'' j) block_of_json)
          else if t = TYPE_SIGN_BLOCK then
            (case (str_field ''hash'' j, str_field ''sig'' j) of
               (Some h, Some s) \<Rightarrow> Some (SignBlockData h s) | _ \<Rightarrow> None)
          else if t = TYPE_CONFIRM_BLOCK then
            (case (str_field ''hash'' j, Option.bind (field ''votes'' j) (as_list vote_of_json)) of
               (Some h, Some vs) \<Rightarrow> Some (ConfirmBlockData h vs) | _ \<Rightarrow> None)
          else if t = TYPE_STATUS then
            (case (int_field ''status'' j, int_field ''height'' j) of
               (Some s, Some h) \<Rightarrow> Some (StatusData s h) | _ \<Rightarrow> None)
          else None)"

text \<open>
  Reading a message. Properties that the type does not have, and (where the code does not
  care) keys in another order than the declared one, are refused by the last comparison.
\<close>

definition message_of_json :: "json \<Rightarrow> message option" where
  "message_of_json j =
     (case (int_field ''seq'' j, str_field ''origin'' j, str_field ''dest'' j,
            Option.bind (field ''data'' j) data_of_json) of
        (Some s, Some r, Some d, Some x) \<Rightarrow>
          (let m = \<lparr>msg_seq = s, msg_origin = r, msg_dest = d, msg_data = x\<rparr>
           in if json_of_message m = j then Some m else None)
      | _ \<Rightarrow> None)"

lemma data_of_json_of [simp]: "data_of_json (json_of_data d) = Some d"
  by (cases d) (simp_all add: data_of_json_def field_defs type_defs those_map_Some del: map_map)

lemma message_of_json_of [simp]: "message_of_json (json_of_message m) = Some m"
  by (simp add: message_of_json_def json_of_message_def field_defs)

lemma message_of_json_Some: "message_of_json j = Some m \<Longrightarrow> j = json_of_message m"
  by (auto simp: message_of_json_def Let_def split: option.splits prod.splits if_splits)

section \<open>Packets\<close>

definition VERSION_4 :: int where "VERSION_4 = 4"

definition Message_pack :: "crypto \<Rightarrow> wallet \<Rightarrow> int \<Rightarrow> message \<Rightarrow> string result" where
  "Message_pack C w version m =
     (let s = b64_stringify C True (deflate_raw C (stringify (json_of_message m)))
      in if version = VERSION_4 then
           Inr (dec_of_int version @ '';'' @ s @ '';'' @ wallet_sign C w s @ [CHR 0x0A])
         else Inl (Thrown ''Message.pack(): unsupported data version''))"

text \<open>\<open>/^([0-9]+);([^;]+);([A-Za-z0-9_-]{86})$/\<close>: none of the three groups can hold a semicolon.\<close>

definition match_packet :: "string \<Rightarrow> (string \<times> string \<times> string) option" where
  "match_packet s =
     (case split_on (CHR '';'') s of
        [v, m, g] \<Rightarrow> if v \<noteq> [] \<and> list_all is_digit v \<and> m \<noteq> [] \<and> pattern_sig g then Some (v, m, g) else None
      | _ \<Rightarrow> None)"

text \<open>\<open>_unpack\<close>. The message stays the empty object where the version or the signature is wrong.\<close>

definition empty_message :: json where
  "empty_message = JObj []"

definition Message_unpack :: "crypto \<Rightarrow> string \<Rightarrow> json" where
  "Message_unpack C text =
     (case match_packet (trim text) of
        None \<Rightarrow> empty_message
      | Some (version, message, sig) \<Rightarrow>
          if int (nat_of_dec version) = VERSION_4 then
            (case Option.bind (b64_parse C False message) (inflate_raw C) of
               None \<Rightarrow> empty_message
             | Some json \<Rightarrow>
                 (case json_parse json of
                    Inl _ \<Rightarrow> empty_message
                  | Inr j \<Rightarrow>
                      (case str_field ''origin'' j of
                         None \<Rightarrow> empty_message
                       | Some origin \<Rightarrow>
                           if origin = [] \<or> \<not> verifySignature C origin sig message then empty_message else j)))
          else empty_message)"

text \<open>\<open>this.message.data.type || 0\<close>: a type that is no number equals none of the five.\<close>

definition Message_type :: "json \<Rightarrow> int result" where
  "Message_type j =
     (case field ''data'' j of
        None \<Rightarrow> Inl TypeError
      | Some d \<Rightarrow>
          if d = JNull then Inl TypeError
          else Inr (case int_field ''type'' d of None \<Rightarrow> 0 | Some t \<Rightarrow> t))"

section \<open>Validation\<close>

fun schema_data_of :: "msg_data \<Rightarrow> bool" where
  "schema_data_of (AddTxData h t) \<longleftrightarrow> 1 \<le> h \<and> schema_tx t"
| "schema_data_of (ProposeBlockData b) \<longleftrightarrow> schema_block b"
| "schema_data_of (SignBlockData h s) \<longleftrightarrow> pattern_key h \<and> pattern_sig s"
| "schema_data_of (ConfirmBlockData h vs) \<longleftrightarrow> pattern_key h \<and> schema_votes vs"
| "schema_data_of (StatusData s h) \<longleftrightarrow> 1 \<le> s \<and> 1 \<le> h"

definition schema_message :: "message \<Rightarrow> bool" where
  "schema_message m \<longleftrightarrow> 1 \<le> msg_seq m \<and> pattern_key (msg_origin m) \<and>
     (msg_dest m = [] \<or> pattern_key (msg_dest m)) \<and> schema_data_of (msg_data m)"

definition validateMessage :: "json \<Rightarrow> bool result" where
  "validateMessage j =
     bindr (Message_type j) (\<lambda>t.
       Inr (t \<in> {TYPE_ADD_TX, TYPE_PROPOSE_BLOCK, TYPE_SIGN_BLOCK, TYPE_CONFIRM_BLOCK, TYPE_STATUS} \<and>
            (case message_of_json j of None \<Rightarrow> False | Some m \<Rightarrow> schema_message m)))"

lemma json_of_data_not_null [simp]: "json_of_data d \<noteq> JNull"
  by (cases d) simp_all

lemma Message_type_of: "Message_type (json_of_message m) = Inr (data_type (msg_data m))"
  by (cases "msg_data m") (simp_all add: Message_type_def json_of_message_def field_defs)

lemma data_type_known:
  "data_type d \<in> {TYPE_ADD_TX, TYPE_PROPOSE_BLOCK, TYPE_SIGN_BLOCK, TYPE_CONFIRM_BLOCK, TYPE_STATUS}"
  by (cases d) simp_all

lemma validateMessage_iff:
  "validateMessage j = Inr True \<longleftrightarrow> (\<exists>m. j = json_of_message m \<and> schema_message m)"
proof
  assume v: "validateMessage j = Inr True"
  then obtain m where "message_of_json j = Some m" "schema_message m"
    by (auto simp: validateMessage_def split: option.splits)
  then show "\<exists>m. j = json_of_message m \<and> schema_message m" using message_of_json_Some by blast
next
  assume "\<exists>m. j = json_of_message m \<and> schema_message m"
  then show "validateMessage j = Inr True"
    using data_type_known by (auto simp: validateMessage_def Message_type_of)
qed

lemma validateMessage_empty: "validateMessage empty_message = Inl TypeError"
  by (simp add: validateMessage_def Message_type_def empty_message_def)

section \<open>Round trip of packets\<close>

text \<open>
  What the codecs promise: decoding gives back the bytes, and base64url text is made of
  characters other than white space and semicolons (the padding character is one of them).
\<close>

definition codec_ok :: "crypto \<Rightarrow> bool" where
  "codec_ok C \<longleftrightarrow>
     (\<forall>s. b64_parse C False (b64_stringify C True s) = Some s \<and>
          (\<forall>c \<in> set (b64_stringify C True s). \<not> is_space c \<and> c \<noteq> CHR '';'')) \<and>
     (\<forall>s. inflate_raw C (deflate_raw C s) = Some s \<and> b64_stringify C True (deflate_raw C s) \<noteq> [])"

definition wallet_ok :: "crypto \<Rightarrow> wallet \<Rightarrow> bool" where
  "wallet_ok C w \<longleftrightarrow> sign_ok C w \<and> pattern_key (getPublicKey C w) \<and> (\<forall>d. pattern_sig (wallet_sign C w d))"

lemma is_space_b64 [simp]: "is_b64url c \<Longrightarrow> \<not> is_space c"
  by (auto simp: is_space_def is_b64url_def is_alpha_dash_def char_in_def is_digit_def)

lemma dropWhile_none: "\<forall>c \<in> set s. \<not> P c \<Longrightarrow> dropWhile P s = s"
  by (cases s) auto

lemma split_on_append: "c \<notin> set s \<Longrightarrow> split_on c (s @ c # r) = s # split_on c r"
  by (induction s) auto

lemma trim_packet:
  assumes "\<forall>c \<in> set s. \<not> is_space c"
  shows "trim (s @ [CHR 0x0A]) = s"
proof -
  have nl: "is_space CHR 0x0A" by (simp add: is_space_def)
  show ?thesis
  proof (cases s)
    case Nil
    then show ?thesis by (simp add: trim_def nl)
  next
    case (Cons c cs)
    then have "dropWhile is_space (s @ [CHR 0x0A]) = s @ [CHR 0x0A]" using assms by simp
    moreover have "dropWhile is_space (rev s) = rev s" using assms by (intro dropWhile_none) simp
    ultimately show ?thesis by (simp add: trim_def nl)
  qed
qed

lemma unpack_pack:
  assumes C: "codec_ok C" and w: "wallet_ok C w" and m: "msg_origin m = getPublicKey C w"
    and p: "Message_pack C w VERSION_4 m = Inr text"
  shows "Message_unpack C text = json_of_message m"
proof -
  let ?s = "b64_stringify C True (deflate_raw C (stringify (json_of_message m)))"
  let ?g = "wallet_sign C w ?s"
  let ?p = "''4;'' @ ?s @ '';'' @ ?g"
  have g: "pattern_sig ?g" and k: "pattern_key (getPublicKey C w)" and so: "sign_ok C w"
    using w by (simp_all add: wallet_ok_def)
  have s: "?s \<noteq> []" "\<forall>c \<in> set ?s. \<not> is_space c \<and> c \<noteq> CHR '';''"
    using C by (simp_all add: codec_ok_def)
  have "dec_of_int VERSION_4 = ''4''" by code_simp
  then have te: "text = ?p @ [CHR 0x0A]" using p by (simp add: Message_pack_def Let_def)
  have gs: "\<forall>c \<in> set ?g. \<not> is_space c \<and> c \<noteq> CHR '';''"
    using g pattern_b64_notin [OF g, of "CHR '';''"] by (auto simp: pattern_b64_def list_all_iff)
  have sp: "\<not> is_space CHR ''4''" "\<not> is_space CHR '';''" by (simp_all add: is_space_def)
  have "trim text = ?p" unfolding te using s gs sp by (intro trim_packet) auto
  moreover have "split_on CHR '';'' ?p = [''4'', ?s, ?g]"
  proof -
    have n: "CHR '';'' \<notin> set ?s" "CHR '';'' \<notin> set ?g" using s(2) gs by blast+
    have "split_on CHR '';'' (?s @ CHR '';'' # ?g) = [?s, ?g]"
      unfolding split_on_append [OF n(1)] split_on_no_sep [OF n(2)] by (rule refl)
    then show ?thesis by simp
  qed
  moreover have "list_all is_digit ''4''" by (simp add: is_digit_def)
  ultimately have mp: "match_packet (trim text) = Some (''4'', ?s, ?g)"
    using s(1) g by (simp add: match_packet_def)
  have "int (nat_of_dec ''4'') = VERSION_4" by (simp add: VERSION_4_def nat_of_dec_def undigit_def)
  moreover have "str_field ''origin'' (json_of_message m) = Some (getPublicKey C w)"
    by (simp add: json_of_message_def field_defs m)
  moreover have "getPublicKey C w \<noteq> []" using k by (auto simp: pattern_b64_def)
  ultimately show ?thesis
    using mp C verify_own [OF so] by (simp add: Message_unpack_def codec_ok_def json_parse_stringify)
qed

end
