(* ===== verification/Peer_Network.thy ===== *)
theory Peer_Network
  imports Messages Chain
begin

text \<open>
  \<open>src/net/network.ts\<close>: the list of peers, who is online, the sequence numbers that keep
  out repeated messages, \<open>broadcast\<close>, the periodic \<open>p2pNetwork\<close> and \<open>fetchFromApi\<close>. The
  transport (SAM datagrams, HTTP over SOCKS) is outside: what is sent is the value of
  \<open>broadcast\<close>, and a fetch is an argument. The lemmas show when sending throws and that
  no message passes twice.
\<close>

section \<open>State\<close>

text \<open>\<open>samReady\<close>: both SAM sessions exist, so that \<open>samForward\<close> and \<open>samUDP\<close> are not empty objects.\<close>

record net =
  arrayNetwork :: "peer list"
  arrayBroadcast :: "string list"
  mapMsgSeq :: "(string, int) jsmap"
  mapOnline :: "(string, int) jsmap"
  isClosing :: bool
  samReady :: bool

definition net_new :: net where
  "net_new = \<lparr>arrayNetwork = [], arrayBroadcast = [], mapMsgSeq = jm_empty, mapOnline = jm_empty,
     isClosing = False, samReady = False\<rparr>"

section \<open>Online peers\<close>

definition isOnline :: "config \<Rightarrow> string \<Rightarrow> int \<Rightarrow> net \<Rightarrow> string \<Rightarrow> bool" where
  "isOnline cfg own now n publicKey \<longleftrightarrow>
     own = publicKey \<or> now - network_p2p_interval_ms cfg * 3 < jm_get_or (mapOnline n) publicKey 0"

definition getArrayOnline :: "net \<Rightarrow> string list" where
  "getArrayOnline n = jm_keys (mapOnline n)"

definition hasP2PNetwork :: "'db chain \<Rightarrow> net \<Rightarrow> bool" where
  "hasP2PNetwork ch n \<longleftrightarrow> jm_size (mapPeer ch) < 2 * length (arrayNetwork n) \<and> samReady n"

text \<open>\<open>p2pNetwork\<close>. The result tells whether the timer for the status message is set.\<close>

definition cmp_peer :: "peer \<Rightarrow> peer \<Rightarrow> int" where
  "cmp_peer p1 p2 = (if p_publicKey p1 > p_publicKey p2 then 1 else - 1)"

definition p2pNetwork :: "string \<Rightarrow> int \<Rightarrow> (nat \<Rightarrow> rat) \<Rightarrow> 'db chain \<Rightarrow> net \<Rightarrow> bool \<times> net" where
  "p2pNetwork own now rnd ch n =
     (let aNetwork = jm_values (mapPeer ch)
      in if length aNetwork < 2 \<or> \<not> samReady n then (False, n)
         else
           let n = n\<lparr>arrayNetwork := js_sort cmp_peer aNetwork\<rparr>;
               n = n\<lparr>arrayBroadcast := shuffleArray rnd
                      (filter (\<lambda>pk. pk \<noteq> own) (map p_publicKey (arrayNetwork n)))\<rparr>
           in (True, n\<lparr>mapOnline := jm_set own now (mapOnline n)\<rparr>))"

section \<open>Sending\<close>

text \<open>\<open>this.samUDP.send(this.server.getBlockchain().getPeer(pk).udp, msg)\<close>\<close>

definition send_to :: "'db chain \<Rightarrow> net \<Rightarrow> string \<Rightarrow> message \<Rightarrow> (string \<times> message) result" where
  "send_to ch n pk m =
     (case getPeer ch pk of
        None \<Rightarrow> Inl TypeError
      | Some p \<Rightarrow> if samReady n then Inr (p_udp p, m) else Inl TypeError)"

fun send_all :: "'db chain \<Rightarrow> net \<Rightarrow> message \<Rightarrow> string list \<Rightarrow> (string \<times> message) list result" where
  "send_all ch n m [] = Inr []"
| "send_all ch n m (pk # pks) =
     (if msg_origin m \<noteq> pk
      then bindr (send_to ch n pk m) (\<lambda>x. bindr (send_all ch n m pks) (\<lambda>xs. Inr (x # xs)))
      else send_all ch n m pks)"

definition broadcast :: "'db chain \<Rightarrow> net \<Rightarrow> message \<Rightarrow> bool \<Rightarrow> (string \<times> message) list result" where
  "broadcast ch n m isFinalHop =
     (if isFinalHop \<and> msg_dest m \<noteq> [] then
        (if msg_dest m \<noteq> msg_origin m then bindr (send_to ch n (msg_dest m) m) (\<lambda>x. Inr [x]) else Inr [])
      else send_all ch n m (arrayBroadcast n))"

section \<open>Sequence numbers\<close>

definition seq_key :: "int \<Rightarrow> string \<Rightarrow> string" where
  "seq_key t origin = join '','' [dec_of_int t, origin]"

definition message_key :: "message \<Rightarrow> string" where
  "message_key m = seq_key (data_type (msg_data m)) (msg_origin m)"

definition is_newer :: "net \<Rightarrow> message \<Rightarrow> bool" where
  "is_newer n m \<longleftrightarrow> jm_get_or (mapMsgSeq n) (message_key m) 0 < msg_seq m"

definition note_message :: "int \<Rightarrow> string \<Rightarrow> message \<Rightarrow> net \<Rightarrow> net" where
  "note_message now pk m n =
     n\<lparr>mapMsgSeq := jm_set (message_key m) (msg_seq m) (mapMsgSeq n),
       mapOnline := jm_set pk now (mapOnline n)\<rparr>"

text \<open>
  The checks at the head of \<open>incomingData\<close>. The result is the peer that sent the datagram
  and the message, if the message is to be processed.
\<close>

definition receive :: "crypto \<Rightarrow> 'db chain \<Rightarrow> net \<Rightarrow> string \<Rightarrow> string \<Rightarrow> (string \<times> message) option result" where
  "receive C ch n data from =
     (if isClosing n \<or> arrayNetwork n = [] then Inr None
      else
        let pk = getPublicKeyByUdp ch from;
            j = Message_unpack C data
        in if pk = [] then Inr None
           else bindr (validateMessage j) (\<lambda>ok.
             if \<not> ok then Inr None
             else case message_of_json j of
                    None \<Rightarrow> Inr None
                  | Some m \<Rightarrow> Inr (if is_newer n m then Some (pk, m) else None)))"

section \<open>Fetching\<close>

text \<open>
  \<open>fetch url = None\<close> is a rejected request; \<open>toB32\<close> belongs to the SAM library. A reply
  that is no JSON counts as a failure and the next peer is asked.
\<close>

fun fetch_loop ::
    "(string \<Rightarrow> string option) \<Rightarrow> (string \<Rightarrow> string) \<Rightarrow> 'db chain \<Rightarrow> string \<Rightarrow> string list \<Rightarrow> json option result" where
  "fetch_loop fetch toB32 ch endpoint [] = Inr None"
| "fetch_loop fetch toB32 ch endpoint (pk # pks) =
     (case getPeer ch pk of
        None \<Rightarrow> Inl TypeError
      | Some p \<Rightarrow>
          (case fetch (''http://'' @ toB32 (p_http p) @ ''.b32.i2p/'' @ endpoint) of
             None \<Rightarrow> fetch_loop fetch toB32 ch endpoint pks
           | Some t \<Rightarrow>
               (case json_parse t of
                  Inl e \<Rightarrow> fetch_loop fetch toB32 ch endpoint pks
                | Inr j \<Rightarrow> Inr (Some j))))"

definition fetchFromApi ::
    "(string \<Rightarrow> string option) \<Rightarrow> (string \<Rightarrow> string) \<Rightarrow> 'db chain \<Rightarrow> net \<Rightarrow> string \<Rightarrow> json option result" where
  "fetchFromApi fetch toB32 ch n endpoint =
     (if is_prefix ''http://'' endpoint then
        Inr (case fetch endpoint of
               None \<Rightarrow> None
             | Some t \<Rightarrow> (case json_parse t of Inl e \<Rightarrow> None | Inr j \<Rightarrow> Some j))
      else fetch_loop fetch toB32 ch endpoint (arrayBroadcast n))"

section \<open>Lemmas\<close>

lemma seq_key_inject [simp]: "seq_key t r = seq_key t' r' \<longleftrightarrow> t = t' \<and> r = r'"
  using append_sep_inject [of "dec_of_int t" "CHR '',''" r "dec_of_int t'" r'] by (auto simp: seq_key_def)

lemma send_to_Inr: "(\<exists>x. send_to ch n pk m = Inr x) \<longleftrightarrow> hasPeer ch pk \<and> samReady n"
  by (auto simp: send_to_def hasPeer_def getPeer_def split: option.split)

lemma send_all_Inr:
  "(\<exists>xs. send_all ch n m pks = Inr xs)
    \<longleftrightarrow> (\<forall>pk \<in> set pks. pk \<noteq> msg_origin m \<longrightarrow> hasPeer ch pk \<and> samReady n)"
proof (induction pks)
  case (Cons pk pks)
  then show ?case using send_to_Inr [of ch n pk m] by auto
qed simp

lemma send_all_sends:
  "send_all ch n m pks = Inr xs \<Longrightarrow>
    map fst xs = map (\<lambda>pk. p_udp (the (getPeer ch pk))) (filter (\<lambda>pk. pk \<noteq> msg_origin m) pks) \<and>
    list_all (\<lambda>x. snd x = m) xs"
  by (induction pks arbitrary: xs) (auto simp: send_to_def split: if_splits option.splits)

interpretation cmp_peer: comparator "\<lambda>p1 p2. cmp_peer p1 p2" "\<lambda>p1 p2. p_publicKey p1 \<le> p_publicKey p2"
  by unfold_locales (auto simp: cmp_peer_def split: if_splits)

text \<open>A list of incoming messages, and those that pass the check of the sequence number.\<close>

fun accept_all :: "int \<Rightarrow> string \<Rightarrow> message list \<Rightarrow> net \<Rightarrow> message list \<times> net" where
  "accept_all now pk [] n = ([], n)"
| "accept_all now pk (m # ms) n =
     (if is_newer n m
      then case accept_all now pk ms (note_message now pk m n) of (as, n') \<Rightarrow> (m # as, n')
      else accept_all now pk ms n)"

lemma accept_all_lower:
  "accept_all now pk ms n = (as, n') \<Longrightarrow> a \<in> set as \<Longrightarrow> message_key a = k \<Longrightarrow>
    jm_get_or (mapMsgSeq n) k 0 < msg_seq a"
proof (induction ms arbitrary: n as)
  case (Cons m ms)
  show ?case
  proof (cases "is_newer n m")
    case True
    then obtain as2 where as2: "accept_all now pk ms (note_message now pk m n) = (as2, n')" "as = m # as2"
      using Cons.prems(1) by (auto split: prod.splits)
    show ?thesis
    proof (cases "a = m")
      case True2: True
      then show ?thesis using True Cons.prems(3) by (simp add: is_newer_def)
    next
      case False
      then have "jm_get_or (mapMsgSeq (note_message now pk m n)) k 0 < msg_seq a"
        using Cons.IH [OF as2(1) _ Cons.prems(3)] Cons.prems(2) as2(2) by simp
      then show ?thesis using True by (auto simp: note_message_def is_newer_def split: if_splits)
    qed
  next
    case False
    then show ?thesis using Cons by simp
  qed
qed simp

lemma accept_all_increasing:
  "accept_all now pk ms n = (as, n') \<Longrightarrow>
    sorted_wrt (<) (map msg_seq (filter (\<lambda>m. message_key m = k) as))"
proof (induction ms arbitrary: n as)
  case (Cons m ms)
  show ?case
  proof (cases "is_newer n m")
    case True
    then obtain as2 where as2: "accept_all now pk ms (note_message now pk m n) = (as2, n')" "as = m # as2"
      using Cons.prems(1) by (auto split: prod.splits)
    have "msg_seq m < msg_seq a" if "a \<in> set as2" "message_key a = message_key m" for a
      using accept_all_lower [OF as2(1) that] by (simp add: note_message_def)
    then show ?thesis using Cons.IH [OF as2(1)] as2(2) by auto
  next
    case False
    then show ?thesis using Cons by simp
  qed
qed simp

end
