(* ===== verification/Block_Factory.thy ===== *)
theory Block_Factory
  imports Peer_Network
begin

text \<open>
  \<open>src/net/block-factory.ts\<close> and the part of \<open>src/net/server.ts\<close> that feeds it
  (\<open>stackTx\<close>, \<open>proposeModifyStake\<close>): the round-robin choice of the validator, the stack of
  transactions, and the handlers of the four consensus messages, up to \<open>addBlock\<close>. Timers are
  flags of the state, their callbacks are operations. A handler returns \<open>Inl\<close> where the code
  throws or loops forever.
\<close>

section \<open>State\<close>

text \<open>
  \<open>env\<close> holds what a handler reads from outside: the clock and the next \<open>nanoid\<close>.
  \<open>ownTx\<close> and \<open>fac_block\<close> are \<open>None\<close> while the field is the empty object.
\<close>

record env =
  env_now :: int
  env_ident :: string

record factory =
  stackTransaction :: "(string \<times> command list) list"
  ownTx :: "(int \<times> transaction) option"
  current :: "(string, transaction) jsmap"
  arrayPoolTx :: "transaction list"
  fac_block :: "block option"
  validator :: string
  mapValidatorDist :: "(string, int) jsmap"
  mapAvailability :: "(string, int list) jsmap"
  isSyncing :: bool
  timeoutAddTx :: bool
  timeoutProposeBlock :: bool
  timeoutRetry :: bool

text \<open>
  The rest of the node, which the chain reaches through \<open>server\<close>. \<open>nd_net\<close> is \<open>None\<close>
  before \<open>Network.make\<close>. \<open>nd_out\<close> lists the datagrams sent, \<open>nd_feed\<close> the blocks fed to
  the web sockets.
\<close>

record node =
  nd_wallet :: wallet
  nd_net :: "net option"
  nd_fac :: factory
  nd_stackModifyStake :: "command list"
  nd_out :: "(string \<times> message) list"
  nd_feed :: "block list"

definition factory_new :: factory where
  "factory_new = \<lparr>stackTransaction = [], ownTx = None, current = jm_empty, arrayPoolTx = [],
     fac_block = None, validator = [], mapValidatorDist = jm_empty, mapAvailability = jm_empty,
     isSyncing = False, timeoutAddTx = False, timeoutProposeBlock = False, timeoutRetry = False\<rparr>"

abbreviation upd_fac :: "(factory \<Rightarrow> factory) \<Rightarrow> node \<Rightarrow> node" where
  "upd_fac f s \<equiv> s\<lparr>nd_fac := f (nd_fac s)\<rparr>"

definition own_key :: "crypto \<Rightarrow> node \<Rightarrow> string" where
  "own_key C s = getPublicKey C (nd_wallet s)"

definition net_of :: "node \<Rightarrow> net result" where
  "net_of s = (case nd_net s of None \<Rightarrow> Inl TypeError | Some n \<Rightarrow> Inr n)"

section \<open>The validator\<close>

text \<open>
  \<open>while (!isOnline(a[i])) { i++; i = i >= a.length ? 0 : i; }\<close>. \<open>None\<close>: the loop does not end.
\<close>

partial_function (option) next_online :: "(string \<Rightarrow> bool) \<Rightarrow> string list \<Rightarrow> nat \<Rightarrow> nat option" where
  [code]: "next_online on a i =
     (if i < length a \<and> on (a ! i) then Some i
      else next_online on a (if i + 1 \<ge> length a then 0 else i + 1))"

text \<open>
  With no peers at all the index is \<open>NaN\<close>, for which nobody is online; the loop is the one
  over the empty list.
\<close>

definition calcValidator_of :: "(string \<Rightarrow> bool) \<Rightarrow> string list \<Rightarrow> 'db chain \<Rightarrow> string result" where
  "calcValidator_of on a ch =
     (let i = (if a = [] then 0 else nat (ch_height ch mod int (length a)))
      in bindr
        (if a \<noteq> [] \<and> on (a ! i) then Inr i
         else case latestBlock ch of
                None \<Rightarrow> Inl TypeError
              | Some b \<Rightarrow> bindr (stringDiff (blk_hash b) (blk_previousHash b))
                  (\<lambda>d. Inr (if a = [] then 0 else nat (d mod int (length a)))))
        (\<lambda>i. case next_online on a i of None \<Rightarrow> Inl NoReturn | Some j \<Rightarrow> Inr (a ! j)))"

definition calcValidator :: "crypto \<Rightarrow> config \<Rightarrow> env \<Rightarrow> 'db chain \<Rightarrow> node \<Rightarrow> node result" where
  "calcValidator C cfg env ch s =
     bindr (net_of s) (\<lambda>n.
       bindr (calcValidator_of (isOnline cfg (own_key C s) (env_now env) n) (map p_publicKey (arrayNetwork n)) ch)
         (\<lambda>v. Inr (upd_fac (\<lambda>f. f\<lparr>validator := v\<rparr>) s)))"

definition cmp_entry :: "string \<times> int \<Rightarrow> string \<times> int \<Rightarrow> int" where
  "cmp_entry a b = (if fst a > fst b then 1 else - 1)"

definition getMapValidatorDist :: "factory \<Rightarrow> (string \<times> int) list" where
  "getMapValidatorDist f = js_sort cmp_entry (mapValidatorDist f)"

definition isValidator :: "node \<Rightarrow> string \<Rightarrow> bool" where
  "isValidator s origin \<longleftrightarrow> origin = validator (nd_fac s)"

section \<open>Own transactions\<close>

definition hasBlock :: "factory \<Rightarrow> bool" where
  "hasBlock f \<longleftrightarrow> (case fac_block f of None \<Rightarrow> False | Some b \<Rightarrow> 0 < blk_height b)"

definition send :: "'db chain \<Rightarrow> message \<Rightarrow> bool \<Rightarrow> node \<Rightarrow> node result" where
  "send ch m isFinalHop s =
     bindr (net_of s) (\<lambda>n. bindr (broadcast ch n m isFinalHop) (\<lambda>xs. Inr (s\<lparr>nd_out := nd_out s @ xs\<rparr>)))"

definition cmp_sig :: "transaction \<Rightarrow> transaction \<Rightarrow> int" where
  "cmp_sig a b = (if tx_sig a > tx_sig b then 1 else - 1)"

text \<open>\<open>processAddTx\<close>: the origin of the message, not that of the transaction, is the key.\<close>

definition processAddTx :: "crypto \<Rightarrow> 'db chain \<Rightarrow> string \<Rightarrow> int \<Rightarrow> transaction \<Rightarrow> node \<Rightarrow> node" where
  "processAddTx C ch origin h tx s =
     (let height = ch_height ch + 1; f = nd_fac s
      in if hasBlock f \<or> h \<noteq> height \<or> jm_has (current f) origin \<or> \<not> validateTx C ch height tx then s
         else
           let f = f\<lparr>current := jm_set origin tx (current f)\<rparr>;
               f = f\<lparr>arrayPoolTx := js_sort cmp_sig (jm_values (current f))\<rparr>
           in s\<lparr>nd_fac := f\<lparr>timeoutProposeBlock := True\<rparr>\<rparr>)"

text \<open>The callback of the timer that \<open>processAddTx\<close> sets.\<close>

definition own_vote :: "crypto \<Rightarrow> wallet \<Rightarrow> string \<Rightarrow> vote" where
  "own_vote C w hash = \<lparr>vote_origin = getPublicKey C w, vote_sig = wallet_sign C w hash\<rparr>"

definition fire_proposeBlock :: "crypto \<Rightarrow> env \<Rightarrow> 'db chain \<Rightarrow> node \<Rightarrow> node result" where
  "fire_proposeBlock C env ch s =
     (case latestBlock ch of
        None \<Rightarrow> Inl TypeError
      | Some latest \<Rightarrow>
          let b = Block_make C latest (arrayPoolTx (nd_fac s));
              b = b\<lparr>blk_votes := blk_votes b @ [own_vote C (nd_wallet s) (blk_hash b)]\<rparr>;
              s = upd_fac (\<lambda>f. f\<lparr>fac_block := Some b, timeoutProposeBlock := False\<rparr>) s
          in send ch (ProposeBlock_create C (nd_wallet s) (env_now env) b) False s)"

definition doAddTx :: "crypto \<Rightarrow> config \<Rightarrow> env \<Rightarrow> 'db chain \<Rightarrow> node \<Rightarrow> node result" where
  "doAddTx C cfg env ch s =
     (if ownTx (nd_fac s) \<noteq> None then Inr s
      else case stackTransaction (nd_fac s) of
        [] \<Rightarrow> Inr s
      | (ident, commands) # rest \<Rightarrow>
          let height = ch_height ch + 1;
              tx = Transaction_make C (nd_wallet s) height ident commands;
              s = upd_fac (\<lambda>f. f\<lparr>stackTransaction := rest, ownTx := Some (height, tx)\<rparr>) s
          in bindr (calcValidator C cfg env ch s) (\<lambda>s.
               bindr (if isValidator s (own_key C s)
                      then Inr (processAddTx C ch (own_key C s) height tx s)
                      else send ch (AddTx_create C (nd_wallet s) (env_now env) (validator (nd_fac s)) height tx) False s)
                 (\<lambda>s. Inr (upd_fac (\<lambda>f. f\<lparr>timeoutRetry := True\<rparr>) s))))"

definition MAX_LENGTH_IDENT :: nat where "MAX_LENGTH_IDENT = 32"

definition stack :: "crypto \<Rightarrow> config \<Rightarrow> env \<Rightarrow> 'db chain \<Rightarrow> command list \<Rightarrow> string \<Rightarrow> node \<Rightarrow> (string option \<times> node) result" where
  "stack C cfg env ch commands ident s =
     (let height = ch_height ch + 1;
          ident = (if ident \<noteq> [] \<and> length ident \<le> MAX_LENGTH_IDENT then ident else env_ident env)
      in if \<not> validateTx C ch height (Transaction_make C (nd_wallet s) height ident commands) then Inr (None, s)
         else
           let s = upd_fac (\<lambda>f. f\<lparr>stackTransaction := stackTransaction f @ [(ident, commands)]\<rparr>) s
           in bindr (doAddTx C cfg env ch s) (\<lambda>s. Inr (Some ident, s)))"

section \<open>The part of the server\<close>

fun number_from :: "int \<Rightarrow> command list \<Rightarrow> command list" where
  "number_from i [] = []"
| "number_from i (c # cs) = set_seq i c # number_from (i + 1) cs"

definition stackTx :: "crypto \<Rightarrow> config \<Rightarrow> env \<Rightarrow> 'db chain \<Rightarrow> command list \<Rightarrow> string \<Rightarrow> node \<Rightarrow> (string option \<times> node) result" where
  "stackTx C cfg env ch commands ident s = stack C cfg env ch (number_from 1 commands) ident s"

fun is_proposal :: "string \<Rightarrow> string \<Rightarrow> command \<Rightarrow> bool" where
  "is_proposal k ident (ModifyStake q k' i n) = (k' = k \<and> i = ident)"
| "is_proposal k ident c = False"

text \<open>\<open>credit > -1 * (online / 3)\<close> and \<open>stack.length >= online / 3\<close>, on integers.\<close>

definition proposeModifyStake ::
    "crypto \<Rightarrow> config \<Rightarrow> env \<Rightarrow> 'db chain \<Rightarrow> string \<Rightarrow> string \<Rightarrow> int \<Rightarrow> credits \<times> node \<Rightarrow> (bool \<times> credits \<times> node) result" where
  "proposeModifyStake C cfg env ch forPublicKey ident stake st =
     (case st of (cr, s) \<Rightarrow>
        if list_ex (is_proposal forPublicKey ident) (nd_stackModifyStake s) then Inr (False, cr, s)
        else
          let credit = jm_get_or cr forPublicKey 0 - 1
          in bindr (net_of s) (\<lambda>n.
               let online = int (length (getArrayOnline n))
               in if 3 * credit > - online then
                    let cr = jm_set forPublicKey credit cr;
                        s = s\<lparr>nd_stackModifyStake := nd_stackModifyStake s @ [ModifyStake None forPublicKey ident stake]\<rparr>
                    in if 3 * int (length (nd_stackModifyStake s)) \<ge> online then
                         bindr (stackTx C cfg env ch (nd_stackModifyStake s) [] s)
                           (\<lambda>(r, s). Inr (True, cr, s\<lparr>nd_stackModifyStake := []\<rparr>))
                       else Inr (True, cr, s)
                  else Inr (True, cr, s)))"

section \<open>Blocks\<close>

definition removeTimeout :: "factory \<Rightarrow> factory" where
  "removeTimeout f = f\<lparr>timeoutAddTx := False, timeoutProposeBlock := False, timeoutRetry := False\<rparr>"

definition factory_clear :: "block option \<Rightarrow> factory \<Rightarrow> factory" where
  "factory_clear block f =
     (let f = removeTimeout f;
          f = (case ownTx f of
                 None \<Rightarrow> f
               | Some (h, tx) \<Rightarrow>
                   if (case block of
                         None \<Rightarrow> True
                       | Some b \<Rightarrow> \<not> list_ex (\<lambda>t. tx_sig t = tx_sig tx) (blk_tx b))
                   then f\<lparr>stackTransaction := (tx_ident tx, tx_commands tx) # stackTransaction f\<rparr>
                   else f)
      in f\<lparr>ownTx := None, current := jm_empty, arrayPoolTx := [], fac_block := None\<rparr>)"

definition addBlock ::
    "crypto \<Rightarrow> 'db level \<Rightarrow> config \<Rightarrow> env \<Rightarrow> block \<Rightarrow> 'db chain \<times> credits \<times> node \<Rightarrow> ('db chain \<times> credits \<times> node) result" where
  "addBlock C L cfg env block st =
     bindr (chain_add C L cfg (proposeModifyStake C cfg env) (env_now env) block st)
       (\<lambda>(ok, block, ch, cr, s).
          if \<not> ok then Inr (ch, cr, s)
          else
            bindr (calcValidator C cfg env ch (upd_fac (factory_clear (Some block)) s)) (\<lambda>s.
              let s = upd_fac (\<lambda>f. f\<lparr>timeoutAddTx := True\<rparr>) s;
                  s = s\<lparr>nd_feed := nd_feed s @ [block]\<rparr>;
                  v = validator (nd_fac s)
              in Inr (ch, cr, upd_fac (\<lambda>f. f\<lparr>mapValidatorDist :=
                   jm_set v (jm_get_or (mapValidatorDist f) v 0 + 1) (mapValidatorDist f)\<rparr>) s)))"

text \<open>
  \<open>processSignBlock\<close>. The asynchronous \<open>addBlock\<close> runs after the synchronous broadcast; the
  signature is not verified here.
\<close>

definition processSignBlock ::
    "crypto \<Rightarrow> 'db level \<Rightarrow> config \<Rightarrow> env \<Rightarrow> string \<Rightarrow> string \<Rightarrow> string \<Rightarrow> 'db chain \<times> credits \<times> node \<Rightarrow> ('db chain \<times> credits \<times> node) result" where
  "processSignBlock C L cfg env origin hash sig st =
     (case st of (ch, cr, s) \<Rightarrow>
        case fac_block (nd_fac s) of
          None \<Rightarrow> Inr st
        | Some b \<Rightarrow>
            if blk_hash b \<noteq> hash \<or> list_ex (\<lambda>v. vote_origin v = origin) (blk_votes b) then Inr st
            else
              let b = b\<lparr>blk_votes := blk_votes b @ [\<lparr>vote_origin = origin, vote_sig = sig\<rparr>]\<rparr>;
                  s = upd_fac (\<lambda>f. f\<lparr>fac_block := Some b\<rparr>) s
              in if hasQuorumWeighted ch (map vote_origin (blk_votes b)) then
                   bindr (send ch (ConfirmBlock_create C (nd_wallet s) (env_now env) (blk_hash b) (blk_votes b)) False s)
                     (\<lambda>s. addBlock C L cfg env b (ch, cr, s))
                 else Inr (ch, cr, s))"

definition processProposeBlock ::
    "crypto \<Rightarrow> 'db level \<Rightarrow> config \<Rightarrow> env \<Rightarrow> block \<Rightarrow> 'db chain \<times> credits \<times> node \<Rightarrow> ('db chain \<times> credits \<times> node) result" where
  "processProposeBlock C L cfg env b st =
     (case st of (ch, cr, s) \<Rightarrow>
        if blk_height b \<noteq> ch_height ch + 1 \<or>
           Some (blk_previousHash b) \<noteq> map_option blk_hash (latestBlock ch) \<or>
           \<not> validateBlock C ch b False then Inr st
        else
          let s = upd_fac (\<lambda>f. f\<lparr>fac_block := Some b\<rparr>) s
          in bindr (calcValidator C cfg env ch s) (\<lambda>s.
               bindr (if isValidator s (own_key C s)
                      then processSignBlock C L cfg env (own_key C s) (blk_hash b)
                             (wallet_sign C (nd_wallet s) (blk_hash b)) (ch, cr, s)
                      else bindr (send ch (SignBlock_create C (nd_wallet s) (env_now env)
                                    (validator (nd_fac s)) (blk_hash b)) False s) (\<lambda>s. Inr (ch, cr, s)))
                 (\<lambda>(ch, cr, s). Inr (ch, cr, upd_fac (\<lambda>f. f\<lparr>timeoutRetry := True\<rparr>) s))))"

definition processConfirmBlock ::
    "crypto \<Rightarrow> 'db level \<Rightarrow> config \<Rightarrow> env \<Rightarrow> string \<Rightarrow> vote list \<Rightarrow> 'db chain \<times> credits \<times> node \<Rightarrow> ('db chain \<times> credits \<times> node) result" where
  "processConfirmBlock C L cfg env hash votes st =
     (case st of (ch, cr, s) \<Rightarrow>
        case fac_block (nd_fac s) of
          None \<Rightarrow> Inr st
        | Some b \<Rightarrow>
            if \<not> hasBlock (nd_fac s) \<or> blk_hash b \<noteq> hash then Inr st
            else
              let b = b\<lparr>blk_votes := votes\<rparr>;
                  s = upd_fac (\<lambda>f. f\<lparr>fac_block := Some b\<rparr>) s
              in addBlock C L cfg env b (ch, cr, s))"

text \<open>The other timers: \<open>doAddTx\<close> after a block, and the retry.\<close>

definition fire_addTx :: "crypto \<Rightarrow> config \<Rightarrow> env \<Rightarrow> 'db chain \<Rightarrow> node \<Rightarrow> node result" where
  "fire_addTx C cfg env ch s = doAddTx C cfg env ch (upd_fac (\<lambda>f. f\<lparr>timeoutAddTx := False\<rparr>) s)"

definition fire_retry :: "crypto \<Rightarrow> config \<Rightarrow> env \<Rightarrow> 'db chain \<Rightarrow> node \<Rightarrow> node result" where
  "fire_retry C cfg env ch s = doAddTx C cfg env ch (upd_fac (factory_clear None) s)"

section \<open>The statistics\<close>

interpretation cmp_entry: comparator cmp_entry "\<lambda>a b. fst a \<le> fst b"
  by unfold_locales (auto simp: cmp_entry_def split: if_splits)

lemma getMapValidatorDist_sorted:
  "sorted_wrt (\<lambda>a b. fst a \<le> fst b) (getMapValidatorDist f) \<and> mset (getMapValidatorDist f) = mset (mapValidatorDist f)"
  by (simp add: getMapValidatorDist_def cmp_entry.sorted_js_sort)

end
