(* ===== verification/Node.thy ===== *)
theory Node
  imports Block_Factory
begin

text \<open>
  The node as a whole: \<open>processStatus\<close> and \<open>processMessage\<close> of \<open>src/net/block-factory.ts\<close>,
  \<open>incomingData\<close> of \<open>src/net/network.ts\<close>, the timers, and the step relation of a node, whose
  steps are the events that change its state.
\<close>

type_synonym 'db state = "'db chain \<times> credits \<times> node"

section \<open>Status messages\<close>

definition ONLINE :: int where "ONLINE = 1"
definition OFFLINE :: int where "OFFLINE = 2"

text \<open>The bounds 0.4 and 0.6 of \<open>src/config.ts\<close>; a comparison with \<open>NaN\<close> is false.\<close>

definition ping_regular :: "rat option \<Rightarrow> bool" where
  "ping_regular q \<longleftrightarrow> (case q of None \<Rightarrow> False | Some r \<Rightarrow> 2 / 5 \<le> r \<and> r \<le> 3 / 5)"

definition keep_samples :: "int list \<Rightarrow> int list" where
  "keep_samples a = (let n = length a * 2 div 3 in drop (length a - n) a)"

text \<open>
  \<open>processStatus\<close>. The synchronisation it starts runs asynchronously: here \<open>isSyncing\<close> is
  set, and \<open>sync_blocks\<close> is the rest.
\<close>

definition processStatus ::
    "crypto \<Rightarrow> config \<Rightarrow> env \<Rightarrow> string \<Rightarrow> int \<Rightarrow> int \<Rightarrow> 'db state \<Rightarrow> 'db state result" where
  "processStatus C cfg env origin status height st =
     (case st of (ch, cr, s) \<Rightarrow>
        if status \<noteq> ONLINE then Inr st
        else
          let s = (if \<not> isSyncing (nd_fac s) \<and> ch_height ch < height
                   then upd_fac (\<lambda>f. f\<lparr>isSyncing := True\<rparr>) s else s);
              a = jm_get_or (mapAvailability (nd_fac s)) origin [] @ [env_now env]
          in bindr
            (if STAKE_PING_SAMPLE_SIZE \<le> length a then
               bindr (QuartileCoeff a) (\<lambda>(qc, a).
                 bindr (if ping_regular qc
                        then bindr (proposeModifyStake C cfg env ch origin STAKE_PING_IDENT STAKE_PING_AMOUNT (cr, s))
                               (\<lambda>(b, cr, s). Inr (cr, s))
                        else Inr (cr, s))
                   (\<lambda>(cr, s). Inr (keep_samples a, cr, s)))
             else Inr (a, cr, s))
            (\<lambda>(a, cr, s). Inr (ch, cr,
               upd_fac (\<lambda>f. f\<lparr>mapAvailability := jm_set origin a (mapAvailability f)\<rparr>) s)))"

fun add_blocks ::
    "crypto \<Rightarrow> 'db level \<Rightarrow> config \<Rightarrow> env \<Rightarrow> block list \<Rightarrow> 'db state \<Rightarrow> 'db state result" where
  "add_blocks C L cfg env [] st = Inr st"
| "add_blocks C L cfg env (b # bs) st =
     bindr (addBlock C L cfg env b st) (\<lambda>st. add_blocks C L cfg env bs st)"

text \<open>\<open>blocks\<close> is the reply to \<open>sync/(h + 1)\<close>; no reply counts as the empty list.\<close>

definition sync_blocks ::
    "crypto \<Rightarrow> 'db level \<Rightarrow> config \<Rightarrow> env \<Rightarrow> block list \<Rightarrow> 'db state \<Rightarrow> 'db state result" where
  "sync_blocks C L cfg env blocks st =
     bindr (add_blocks C L cfg env blocks st)
       (\<lambda>(ch, cr, s). Inr (ch, cr, upd_fac (\<lambda>f. f\<lparr>isSyncing := False\<rparr>) s))"

section \<open>Incoming messages\<close>

definition processMessage ::
    "crypto \<Rightarrow> 'db level \<Rightarrow> config \<Rightarrow> env \<Rightarrow> message \<Rightarrow> 'db state \<Rightarrow> 'db state result" where
  "processMessage C L cfg env m st =
     (case st of (ch, cr, s) \<Rightarrow>
        bindr (if data_type (msg_data m) = TYPE_STATUS then Inr s else calcValidator C cfg env ch s) (\<lambda>s.
          case msg_data m of
            AddTxData h tx \<Rightarrow>
              Inr (ch, cr, if isValidator s (own_key C s) then processAddTx C ch (msg_origin m) h tx s else s)
          | ProposeBlockData b \<Rightarrow>
              if isValidator s (msg_origin m) then processProposeBlock C L cfg env b (ch, cr, s) else Inr (ch, cr, s)
          | SignBlockData hash sig \<Rightarrow>
              if isValidator s (own_key C s) then processSignBlock C L cfg env (msg_origin m) hash sig (ch, cr, s)
              else Inr (ch, cr, s)
          | ConfirmBlockData hash votes \<Rightarrow>
              if isValidator s (msg_origin m) then processConfirmBlock C L cfg env hash votes (ch, cr, s)
              else Inr (ch, cr, s)
          | StatusData status h \<Rightarrow> processStatus C cfg env (msg_origin m) status h (ch, cr, s)))"

text \<open>\<open>incomingData\<close>: the checks, the handler, and the one hop of gossip.\<close>

definition incomingData ::
    "crypto \<Rightarrow> 'db level \<Rightarrow> config \<Rightarrow> env \<Rightarrow> string \<Rightarrow> string \<Rightarrow> 'db state \<Rightarrow> 'db state result" where
  "incomingData C L cfg env data from st =
     (case st of (ch, cr, s) \<Rightarrow>
        bindr (net_of s) (\<lambda>n.
          bindr (receive C ch n data from) (\<lambda>r.
            case r of
              None \<Rightarrow> Inr st
            | Some (pk, m) \<Rightarrow>
                bindr (processMessage C L cfg env m
                    (ch, cr, s\<lparr>nd_net := Some (note_message (env_now env) pk m n)\<rparr>)) (\<lambda>(ch, cr, s).
                  if data_type (msg_data m) \<noteq> TYPE_STATUS \<and> pk = msg_origin m
                  then bindr (send ch m True s) (\<lambda>s. Inr (ch, cr, s))
                  else Inr (ch, cr, s)))))"

section \<open>Timers of the network\<close>

definition fire_p2p :: "crypto \<Rightarrow> env \<Rightarrow> (nat \<Rightarrow> rat) \<Rightarrow> 'db state \<Rightarrow> 'db state result" where
  "fire_p2p C env rnd st =
     (case st of (ch, cr, s) \<Rightarrow>
        bindr (net_of s) (\<lambda>n.
          Inr (ch, cr, s\<lparr>nd_net := Some (snd (p2pNetwork (own_key C s) (env_now env) rnd ch n))\<rparr>)))"

definition fire_status :: "crypto \<Rightarrow> env \<Rightarrow> 'db state \<Rightarrow> 'db state result" where
  "fire_status C env st =
     (case st of (ch, cr, s) \<Rightarrow>
        bindr (send ch (Status_create C (nd_wallet s) (env_now env) ONLINE (ch_height ch)) False s)
          (\<lambda>s. Inr (ch, cr, s)))"

section \<open>Steps of a node\<close>

text \<open>
  A transaction is stacked through the API; a datagram arrives; one of the five timers
  fires; the reply of a synchronisation is processed.
\<close>

inductive node_step ::
    "crypto \<Rightarrow> 'db level \<Rightarrow> config \<Rightarrow> 'db state \<Rightarrow> 'db state \<Rightarrow> bool"
  for C L cfg where
  data: "incomingData C L cfg env data from st = Inr st' \<Longrightarrow> node_step C L cfg st st'"
| put: "stackTx C cfg env ch commands ident s = Inr (r, s') \<Longrightarrow> node_step C L cfg (ch, cr, s) (ch, cr, s')"
| propose: "timeoutProposeBlock (nd_fac s) \<Longrightarrow> fire_proposeBlock C env ch s = Inr s' \<Longrightarrow>
    node_step C L cfg (ch, cr, s) (ch, cr, s')"
| addtx: "timeoutAddTx (nd_fac s) \<Longrightarrow> fire_addTx C cfg env ch s = Inr s' \<Longrightarrow>
    node_step C L cfg (ch, cr, s) (ch, cr, s')"
| retry: "timeoutRetry (nd_fac s) \<Longrightarrow> fire_retry C cfg env ch s = Inr s' \<Longrightarrow>
    node_step C L cfg (ch, cr, s) (ch, cr, s')"
| p2p: "fire_p2p C env rnd st = Inr st' \<Longrightarrow> node_step C L cfg st st'"
| status: "fire_status C env st = Inr st' \<Longrightarrow> node_step C L cfg st st'"
| sync: "isSyncing (nd_fac s) \<Longrightarrow> sync_blocks C L cfg env blocks (ch, cr, s) = Inr st' \<Longrightarrow>
    node_step C L cfg (ch, cr, s) st'"

end
