(* ===== verification/Node_Inv.thy ===== *)
theory Node_Inv
  imports Node Chain_Run
begin

text \<open>
  Lemmas on the node: the loop of \<open>calcValidator\<close>, what each handler leaves alone, and that
  every step of a node changes its chain by \<open>add\<close> only, so that the invariants of the chain
  hold on every node.
\<close>

section \<open>The loop of calcValidator\<close>

lemma next_online_stop: "i < length a \<Longrightarrow> on (a ! i) \<Longrightarrow> next_online on a i = Some i"
  by (subst next_online.simps) simp

lemma next_online_step:
  "\<not> (i < length a \<and> on (a ! i)) \<Longrightarrow> next_online on a i = next_online on a (if i + 1 \<ge> length a then 0 else i + 1)"
  by (subst next_online.simps) auto

lemma next_online_first:
  assumes "i < length a" and "on (a ! ((i + k) mod length a))"
    and "\<And>j. j < k \<Longrightarrow> \<not> on (a ! ((i + j) mod length a))"
  shows "next_online on a i = Some ((i + k) mod length a)"
  using assms
proof (induction k arbitrary: i)
  case 0
  then show ?case by (simp add: next_online_stop)
next
  case (Suc k)
  let ?i = "if i + 1 \<ge> length a then 0 else i + 1"
  have i: "?i = (i + 1) mod length a" using Suc.prems(1) by (auto simp: mod_if)
  have "\<not> on (a ! i)" using Suc.prems(3) [of 0] Suc.prems(1) by simp
  then have "next_online on a i = next_online on a ?i" by (intro next_online_step) simp
  also have "\<dots> = Some ((?i + k) mod length a)"
  proof (rule Suc.IH)
    show "?i < length a" using Suc.prems(1) by auto
    have e: "(?i + j) mod length a = (i + Suc j) mod length a" for j
      unfolding i by (simp add: mod_simps)
    show "on (a ! ((?i + k) mod length a))" unfolding e by (rule Suc.prems(2))
    show "\<not> on (a ! ((?i + j) mod length a))" if "j < k" for j
      unfolding e using Suc.prems(3) [of "Suc j"] that by simp
  qed
  also have "(?i + k) mod length a = (i + Suc k) mod length a" unfolding i by (simp add: mod_simps)
  finally show ?case .
qed

lemma next_online_Some: "next_online on a i = Some j \<Longrightarrow> j < length a \<and> on (a ! j)"
  by (rule next_online.raw_induct [where P = "\<lambda>on a i j. j < length a \<and> on (a ! j)"])
    (auto split: if_splits)

lemma next_online_None_iff:
  assumes "i < length a \<or> a = []"
  shows "next_online on a i = None \<longleftrightarrow> (\<forall>x \<in> set a. \<not> on x)"
proof
  assume "\<forall>x \<in> set a. \<not> on x"
  then show "next_online on a i = None" using next_online_Some [of on a i]
    by (cases "next_online on a i") auto
next
  assume n: "next_online on a i = None"
  show "\<forall>x \<in> set a. \<not> on x"
  proof (rule ccontr)
    assume "\<not> ?thesis"
    then obtain j where j: "j < length a" "on (a ! j)" by (auto simp: in_set_conv_nth)
    then have i: "i < length a" using assms by auto
    define P where "P = (\<lambda>k. on (a ! ((i + k) mod length a)))"
    have "(i + (j + length a - i)) mod length a = j" using i j by simp
    then have "P (j + length a - i)" using j by (simp add: P_def)
    then have "P (LEAST k. P k)" "\<And>k. k < (LEAST k. P k) \<Longrightarrow> \<not> P k" by (auto intro: LeastI dest: not_less_Least)
    then have "next_online on a i = Some ((i + (LEAST k. P k)) mod length a)"
      using next_online_first [OF i, of on "LEAST k. P k"] unfolding P_def by blast
    then show False using n by simp
  qed
qed

lemma calcValidator_of_sound:
  assumes "calcValidator_of on a ch = Inr v"
  shows "v \<in> set a \<and> on v"
proof -
  obtain i j where "next_online on a i = Some j" "v = a ! j"
    using assms by (auto simp: calcValidator_of_def Let_def split: if_splits option.splits)
  then show ?thesis using next_online_Some by fastforce
qed

lemma calcValidator_fields:
  assumes "calcValidator C cfg env ch s = Inr s'"
  obtains v where "s' = upd_fac (\<lambda>f. f\<lparr>validator := v\<rparr>) s"
  using assms by (auto simp: calcValidator_def)

section \<open>Steps and the chain\<close>

text \<open>A chain grows by accepted blocks only.\<close>

inductive grows :: "crypto \<Rightarrow> 'db level \<Rightarrow> config \<Rightarrow> block list \<Rightarrow> 'db chain \<Rightarrow> 'db chain \<Rightarrow> bool"
  for C L cfg where
  stay: "grows C L cfg [] ch ch"
| add: "grows C L cfg bs ch ch1 \<Longrightarrow>
    chain_add C L cfg (propose :: ('db, node) propose) now b (ch1, cr, s) = Inr (True, b', ch2, cr', s') \<Longrightarrow>
    grows C L cfg (bs @ [b]) ch ch2"

lemma grows_refl: "\<exists>bs. grows C L cfg bs ch ch"
  using grows.stay by blast

inductive_simps grows_Nil: "grows C L cfg [] ch ch'"

lemma grows_trans: "grows C L cfg cs ch1 ch2 \<Longrightarrow> grows C L cfg bs ch ch1 \<Longrightarrow> grows C L cfg (bs @ cs) ch ch2"
proof (induction rule: grows.induct)
  case (add cs ch1 ch2 propose now b cr s b' ch3 cr' s')
  then show ?case using grows.add [of C L cfg "bs @ cs" ch ch2] by simp
qed simp

lemma grows_ok:
  assumes "grows C L cfg cs ch ch'" and "level_ok L" and "m = blockchain_max_blocks_in_memory cfg" "1 \<le> m"
    and "chain_ok m bs ch" "stores L bs ch" and "ch_height ch' < 10 ^ 16"
  shows "chain_ok m (bs @ cs) ch' \<and> stores L (bs @ cs) ch'"
  using assms
proof (induction rule: grows.induct)
  case (add cs ch ch1 propose now b cr s b' ch2 cr' s')
  have g: "add_guard C ch1 b" using add.hyps(2) by (simp add: chain_add_def split: if_splits)
  obtain b1 ch3 cr3 where p: "processState L cfg now b
      (updateBlockData L (block_key (blk_height b)) (block_text b) ch1, cr) = (b1, ch3, cr3)"
    by (cases "processState L cfg now b (updateBlockData L (block_key (blk_height b)) (block_text b) ch1, cr)") auto
  then have "updateCache cfg propose b1 (ch3, cr3, s) = Inr (ch2, cr', s')"
    using add.hyps(2) g by (auto simp: chain_add_def Let_def)
  then obtain vm where "ch2 = (cache_block cfg b1 ch3)\<lparr>mapVoteStake := vm\<rparr>" by (rule updateCache_Inr)
  then have h: "ch_height ch2 = blk_height b" using processState_block(1) [OF p] by (simp add: cache_block_fields)
  then have "blk_height b < 10 ^ 16" "ch_height ch1 < 10 ^ 16" using add.prems(6) g by (simp_all add: add_guard_def)
  moreover from this have "chain_ok m (bs @ cs) ch1 \<and> stores L (bs @ cs) ch1" using add by simp
  ultimately have "chain_ok m ((bs @ cs) @ [b]) ch2 \<and> stores L ((bs @ cs) @ [b]) ch2"
    using add.hyps(2) add.prems by (intro chain_add_ok [where ch = ch1]) auto
  then show ?case by simp
qed simp

lemma addBlock_grows:
  assumes "addBlock C L cfg env b (ch, cr, s) = Inr (ch', cr', s')"
  shows "\<exists>bs. grows C L cfg bs ch ch'"
proof -
  obtain ok b' ch1 cr1 s1 where a: "chain_add C L cfg (proposeModifyStake C cfg env) (env_now env) b (ch, cr, s)
      = Inr (ok, b', ch1, cr1, s1)"
    using assms by (auto simp: addBlock_def)
  show ?thesis
  proof (cases ok)
    case True
    then have "ch' = ch1" using assms a by (auto simp: addBlock_def Let_def)
    moreover have "grows C L cfg ([] @ [b]) ch ch1" using grows.stay a True by (intro grows.add) auto
    ultimately show ?thesis by blast
  next
    case False
    have "ch1 = ch" using a False by (auto simp: chain_add_def Let_def split: if_splits prod.splits)
    then have "ch' = ch" using assms a False by (simp add: addBlock_def)
    then show ?thesis by (simp add: grows_refl)
  qed
qed

lemma processSignBlock_grows:
  assumes "processSignBlock C L cfg env r h g (ch, cr, s) = Inr (ch', cr', s')"
  shows "\<exists>bs. grows C L cfg bs ch ch'"
proof (cases "ch' = ch")
  case True
  then show ?thesis by (simp add: grows_refl)
next
  case False
  then obtain b s1 where "addBlock C L cfg env b (ch, cr, s1) = Inr (ch', cr', s')"
    using assms by (auto simp: processSignBlock_def Let_def split: option.splits if_splits)
  then show ?thesis by (rule addBlock_grows)
qed

lemma processConfirmBlock_grows:
  assumes "processConfirmBlock C L cfg env h vs (ch, cr, s) = Inr (ch', cr', s')"
  shows "\<exists>bs. grows C L cfg bs ch ch'"
proof (cases "ch' = ch")
  case True
  then show ?thesis by (simp add: grows_refl)
next
  case False
  then obtain b s1 where "addBlock C L cfg env b (ch, cr, s1) = Inr (ch', cr', s')"
    using assms by (auto simp: processConfirmBlock_def Let_def split: option.splits if_splits)
  then show ?thesis by (rule addBlock_grows)
qed

lemma processProposeBlock_grows:
  assumes "processProposeBlock C L cfg env b (ch, cr, s) = Inr (ch', cr', s')"
  shows "\<exists>bs. grows C L cfg bs ch ch'"
proof (cases "ch' = ch")
  case True
  then show ?thesis by (simp add: grows_refl)
next
  case False
  then obtain r g s1 s2 where "processSignBlock C L cfg env r (blk_hash b) g (ch, cr, s1) = Inr (ch', cr', s2)"
    using assms by (auto simp: processProposeBlock_def Let_def split: if_splits)
  then show ?thesis by (rule processSignBlock_grows)
qed

lemma processStatus_chain:
  "processStatus C cfg env r x h (ch, cr, s) = Inr (ch', cr', s') \<Longrightarrow> ch' = ch"
  by (auto simp: processStatus_def Let_def split: if_splits)

lemma processMessage_grows:
  assumes "processMessage C L cfg env m (ch, cr, s) = Inr (ch', cr', s')"
  shows "\<exists>bs. grows C L cfg bs ch ch'"
proof (cases "ch' = ch")
  case True
  then show ?thesis by (simp add: grows_refl)
next
  case False
  obtain s1 where p: "(case msg_data m of
            AddTxData h tx \<Rightarrow>
              Inr (ch, cr, if isValidator s1 (own_key C s1) then processAddTx C ch (msg_origin m) h tx s1 else s1)
          | ProposeBlockData b \<Rightarrow>
              if isValidator s1 (msg_origin m) then processProposeBlock C L cfg env b (ch, cr, s1) else Inr (ch, cr, s1)
          | SignBlockData hash sig \<Rightarrow>
              if isValidator s1 (own_key C s1) then processSignBlock C L cfg env (msg_origin m) hash sig (ch, cr, s1)
              else Inr (ch, cr, s1)
          | ConfirmBlockData hash votes \<Rightarrow>
              if isValidator s1 (msg_origin m) then processConfirmBlock C L cfg env hash votes (ch, cr, s1)
              else Inr (ch, cr, s1)
          | StatusData status h \<Rightarrow> processStatus C cfg env (msg_origin m) status h (ch, cr, s1)) = Inr (ch', cr', s')"
    using assms by (simp add: processMessage_def) blast
  show ?thesis
  proof (cases "msg_data m")
    case (ProposeBlockData b)
    then show ?thesis using p False processProposeBlock_grows by (fastforce split: if_splits)
  next
    case (SignBlockData h g)
    then show ?thesis using p False processSignBlock_grows by (fastforce split: if_splits)
  next
    case (ConfirmBlockData h vs)
    then show ?thesis using p False processConfirmBlock_grows by (fastforce split: if_splits)
  qed (use p False in \<open>auto dest: processStatus_chain\<close>)
qed

lemma add_blocks_grows:
  "add_blocks C L cfg env blocks (ch, cr, s) = Inr (ch', cr', s') \<Longrightarrow> \<exists>bs. grows C L cfg bs ch ch'"
proof (induction blocks arbitrary: ch cr s)
  case Nil
  then show ?case by (simp add: grows_refl)
next
  case (Cons b blocks)
  obtain ch1 cr1 s1 where a: "addBlock C L cfg env b (ch, cr, s) = Inr (ch1, cr1, s1)"
    and r: "add_blocks C L cfg env blocks (ch1, cr1, s1) = Inr (ch', cr', s')"
    using Cons.prems by auto
  show ?case using addBlock_grows [OF a] Cons.IH [OF r] grows_trans by blast
qed

lemma node_step_grows:
  assumes "node_step C L cfg (ch, cr, s) (ch', cr', s')"
  shows "\<exists>bs. grows C L cfg bs ch ch'"
  using assms
proof (cases rule: node_step.cases)
  case (data env d u)
  show ?thesis
  proof (cases "ch' = ch")
    case True
    then show ?thesis by (simp add: grows_refl)
  next
    case False
    obtain m s1 s2 cr2 where "processMessage C L cfg env m (ch, cr, s1) = Inr (ch', cr2, s2)"
      using data False by (auto simp: incomingData_def split: option.splits if_splits)
    then show ?thesis by (rule processMessage_grows)
  qed
next
  case (sync env blocks)
  then obtain s1 where "add_blocks C L cfg env blocks (ch, cr, s) = Inr (ch', cr', s1)"
    by (auto simp: sync_blocks_def)
  then show ?thesis by (rule add_blocks_grows)
qed (auto simp: fire_p2p_def fire_status_def grows_refl)

section \<open>Runs\<close>

inductive node_run :: "crypto \<Rightarrow> 'db level \<Rightarrow> config \<Rightarrow> 'db state \<Rightarrow> 'db state \<Rightarrow> bool"
  for C L cfg st0 where
  start: "node_run C L cfg st0 st0"
| step: "node_run C L cfg st0 st \<Longrightarrow> node_step C L cfg st st' \<Longrightarrow> node_run C L cfg st0 st'"

lemma node_run_grows:
  "node_run C L cfg st0 st \<Longrightarrow> \<exists>bs. grows C L cfg bs (fst st0) (fst st)"
proof (induction rule: node_run.induct)
  case start
  show ?case by (rule grows_refl)
next
  case (step st st')
  obtain ch cr s ch' cr' s' where e: "st = (ch, cr, s)" "st' = (ch', cr', s')" by (cases st; cases st') auto
  show ?case
    using step.IH node_step_grows [of C L cfg ch cr s ch' cr' s'] step.hyps(2) grows_trans e by fastforce
qed

end
