(* ===== verification/Node_Frame.thy ===== *)
theory Node_Frame
  imports Node_Inv
begin

text \<open>
  What the steps of a node keep. The locale \<open>handler_rel\<close> names what a relation between a node
  before and after must allow so that every handler has it (changes of other fields, taking the next
  own transaction, pushing one, clearing, sending); \<open>node_rel\<close> extends it by what happens to the network
  object, and carries the relation through every event. Four interpretations: a handler leaves the
  network object and the wallet alone; the sequence numbers of messages never go down; a node
  without a SAM session sends nothing; and the own transactions are a queue that nothing but a new
  block shortens.
\<close>

section \<open>The interface\<close>

text \<open>Without a SAM session nothing is sent.\<close>

lemma send_all_ready: "send_all ch n m pks = Inr xs \<Longrightarrow> xs = [] \<or> samReady n"
  by (induction pks arbitrary: xs) (auto simp: send_to_def split: if_splits option.splits)

lemma broadcast_ready: "broadcast ch n m hop = Inr xs \<Longrightarrow> xs = [] \<or> samReady n"
  using send_all_ready [of ch n m "arrayBroadcast n" xs]
  by (auto simp: broadcast_def send_to_def split: if_splits option.splits)

text \<open>The two sides are the height of the chain and the node.\<close>

locale handler_rel =
  fixes R :: "int \<times> node \<Rightarrow> int \<times> node \<Rightarrow> bool"
  assumes refl: "R x x"
    and trans: "R x y \<Longrightarrow> R y z \<Longrightarrow> R x z"
    and other: "nd_net s' = nd_net s \<Longrightarrow> nd_wallet s' = nd_wallet s \<Longrightarrow> nd_out s' = nd_out s \<Longrightarrow>
      stackTransaction (nd_fac s') = stackTransaction (nd_fac s) \<Longrightarrow> ownTx (nd_fac s') = ownTx (nd_fac s) \<Longrightarrow> R (h, s) (h, s')"
    and take_next: "ownTx (nd_fac s) = None \<Longrightarrow> stackTransaction (nd_fac s) = (tx_ident tx, tx_commands tx) # rest \<Longrightarrow>
      R (h, s) (h, upd_fac (\<lambda>f. f\<lparr>stackTransaction := rest, ownTx := Some (k, tx)\<rparr>) s)"
    and push: "R (h, s) (h, upd_fac (\<lambda>f. f\<lparr>stackTransaction := stackTransaction f @ [e]\<rparr>) s)"
    and clear: "R (h, s) (h, upd_fac (factory_clear None) s)"
    and clear_block: "R (h, s) (h + 1, upd_fac (factory_clear (Some b)) s)"
    and sends: "nd_net s = Some n \<Longrightarrow> xs = [] \<or> samReady n \<Longrightarrow> R (h, s) (h, s\<lparr>nd_out := nd_out s @ xs\<rparr>)"
begin

lemma calcValidator_rel: "calcValidator C cfg env ch s = Inr s' \<Longrightarrow> R (h, s) (h, s')"
  by (erule calcValidator_fields) (rule other, simp_all)

lemma send_rel:
  assumes "send ch m hop s = Inr s'"
  shows "R (h, s) (h, s')"
proof -
  obtain n xs where "nd_net s = Some n" "broadcast ch n m hop = Inr xs" "s' = s\<lparr>nd_out := nd_out s @ xs\<rparr>"
    using assms by (auto simp: send_def net_of_def split: option.splits)
  then show ?thesis using sends [OF _ broadcast_ready] by simp
qed

lemma processAddTx_rel: "R (h, s) (h, processAddTx C ch origin k tx s)"
  by (rule other) (simp_all add: processAddTx_def Let_def)

lemma doAddTx_rel:
  assumes "doAddTx C cfg env ch s = Inr s'"
  shows "R (h, s) (h, s')"
proof (cases "ownTx (nd_fac s) \<noteq> None \<or> stackTransaction (nd_fac s) = []")
  case True
  then have "s' = s" using assms by (auto simp: doAddTx_def split: list.splits)
  then show ?thesis by (simp add: refl)
next
  case False
  then obtain ident commands rest where q: "stackTransaction (nd_fac s) = (ident, commands) # rest" by (cases "stackTransaction (nd_fac s)") auto
  let ?tx = "Transaction_make C (nd_wallet s) (ch_height ch + 1) ident commands"
  let ?s = "upd_fac (\<lambda>f. f\<lparr>stackTransaction := rest, ownTx := Some (ch_height ch + 1, ?tx)\<rparr>) s"
  obtain s1 s2 where c: "calcValidator C cfg env ch ?s = Inr s1"
    and d: "(if isValidator s1 (own_key C s1) then Inr (processAddTx C ch (own_key C s1) (ch_height ch + 1) ?tx s1)
      else send ch (AddTx_create C (nd_wallet s1) (env_now env) (validator (nd_fac s1)) (ch_height ch + 1) ?tx) False s1) = Inr s2"
    and e: "s' = upd_fac (\<lambda>f. f\<lparr>timeoutRetry := True\<rparr>) s2"
    using assms False q by (auto simp: doAddTx_def Let_def)
  have n: "ownTx (nd_fac s) = None" using False q by (cases "ownTx (nd_fac s)") auto
  have "R (h, s) (h, ?s)" by (rule take_next [OF n]) (use q in \<open>simp_all add: Transaction_make_def Let_def\<close>)
  also have "R (h, ?s) (h, s1)" using c by (rule calcValidator_rel)
  also (trans) have "R (h, s1) (h, s2)" using d by (auto split: if_splits intro: processAddTx_rel send_rel)
  also (trans) have "R (h, s2) (h, s')" by (rule other) (simp_all add: e)
  finally (trans) show ?thesis .
qed

lemma stack_rel: "stack C cfg env ch commands ident s = Inr (r, s') \<Longrightarrow> R (h, s) (h, s')"
  by (auto simp: stack_def Let_def refl split: if_splits intro: trans [OF push doAddTx_rel])

lemma stackTx_rel: "stackTx C cfg env ch commands ident s = Inr (r, s') \<Longrightarrow> R (h, s) (h, s')"
  unfolding stackTx_def by (rule stack_rel)

lemma proposeModifyStake_rel:
  assumes "proposeModifyStake C cfg env ch k i n (cr, s) = Inr (b, cr', s')"
  shows "R (h, s) (h, s')"
proof (cases "s' = s")
  case True
  then show ?thesis by (simp add: refl)
next
  case False
  let ?q = "nd_stackModifyStake s @ [ModifyStake None k i n]"
  have o: "R (h, s) (h, s\<lparr>nd_stackModifyStake := ?q\<rparr>)" by (rule other) simp_all
  from False consider "s' = s\<lparr>nd_stackModifyStake := ?q\<rparr>"
    | r s1 where "stackTx C cfg env ch ?q [] (s\<lparr>nd_stackModifyStake := ?q\<rparr>) = Inr (r, s1)" "s' = s1\<lparr>nd_stackModifyStake := []\<rparr>"
    using assms by (auto simp: proposeModifyStake_def Let_def split: if_splits)
  then show ?thesis
  proof cases
    case 1
    then show ?thesis using o by simp
  next
    case 2
    have "R (h, s1) (h, s')" by (rule other) (simp_all add: 2)
    then show ?thesis using trans [OF o trans [OF stackTx_rel [OF 2(1)]]] by blast
  qed
qed

lemma updateCache_rel:
  fixes ch :: "'db chain"
  assumes "updateCache cfg (proposeModifyStake C cfg env) b (ch, cr, s) = Inr (ch', cr', s')"
  shows "R (h, s) (h, s')"
proof (cases "s' = s")
  case True
  then show ?thesis by (simp add: refl)
next
  case False
  then obtain ch1 :: "'db chain" and k ok where "proposeModifyStake C cfg env ch1 k STAKE_VOTE_IDENT STAKE_VOTE_AMOUNT (cr, s) = Inr (ok, cr', s')"
    using assms by (auto simp: updateCache_def Let_def split: if_splits list.splits)
  then show ?thesis by (rule proposeModifyStake_rel)
qed

lemma chain_add_rel:
  assumes "chain_add C L cfg (proposeModifyStake C cfg env) now b (ch, cr, s) = Inr (ok, b', ch', cr', s')"
  shows "R (h, s) (h, s') \<and> ch_height ch' = (if ok then ch_height ch + 1 else ch_height ch)"
proof (cases "add_guard C ch b")
  case False
  then show ?thesis using assms by (auto simp: chain_add_def refl)
next
  case True
  let ?ch = "updateBlockData L (block_key (blk_height b)) (block_text b) ch"
  obtain b1 ch1 cr1 where p: "processState L cfg now b (?ch, cr) = (b1, ch1, cr1)"
    by (cases "processState L cfg now b (?ch, cr)") auto
  then have u: "updateCache cfg (proposeModifyStake C cfg env) b1 (ch1, cr1, s) = Inr (ch', cr', s')" and ok
    using assms True by (auto simp: chain_add_def Let_def)
  obtain vm where "ch' = (cache_block cfg b1 ch1)\<lparr>mapVoteStake := vm\<rparr>" using u by (rule updateCache_Inr)
  then have "ch_height ch' = ch_height ch + 1"
    using True processState_block(1) [OF p] by (simp add: add_guard_def cache_block_fields)
  then show ?thesis using updateCache_rel [OF u] \<open>ok\<close> by simp
qed

lemma addBlock_rel:
  assumes "addBlock C L cfg env b (ch, cr, s) = Inr (ch', cr', s')"
  shows "R (ch_height ch, s) (ch_height ch', s')"
proof -
  obtain ok b1 ch1 cr1 s1 where a: "chain_add C L cfg (proposeModifyStake C cfg env) (env_now env) b (ch, cr, s)
      = Inr (ok, b1, ch1, cr1, s1)" using assms by (auto simp: addBlock_def)
  note r = chain_add_rel [OF a]
  show ?thesis
  proof (cases ok)
    case False
    then show ?thesis using assms a r by (auto simp: addBlock_def)
  next
    case True
    obtain s2 where c: "calcValidator C cfg env ch1 (upd_fac (factory_clear (Some b1)) s1) = Inr s2"
      using assms a True by (auto simp: addBlock_def)
    then have e: "ch' = ch1" "nd_net s' = nd_net s2" "nd_wallet s' = nd_wallet s2" "nd_out s' = nd_out s2" "stackTransaction (nd_fac s') = stackTransaction (nd_fac s2)"
      "ownTx (nd_fac s') = ownTx (nd_fac s2)"
      using assms a True by (auto simp: addBlock_def Let_def)
    have h: "ch_height ch' = ch_height ch + 1" using r True e(1) by simp
    have "R (ch_height ch, s) (ch_height ch, s1)" using r by blast
    also have "R (ch_height ch, s1) (ch_height ch', upd_fac (factory_clear (Some b1)) s1)" unfolding h by (rule clear_block)
    also (trans) have "R (ch_height ch', upd_fac (factory_clear (Some b1)) s1) (ch_height ch', s2)" using c by (rule calcValidator_rel)
    also (trans) have "R (ch_height ch', s2) (ch_height ch', s')" using e(2-6) by (rule other)
    finally (trans) show ?thesis .
  qed
qed

end

section \<open>Handlers\<close>

context handler_rel
begin

lemma processSignBlock_rel:
  assumes "processSignBlock C L cfg env origin hash sig (ch, cr, s) = Inr (ch', cr', s')"
  shows "R (ch_height ch, s) (ch_height ch', s')"
proof (cases "(ch', cr', s') = (ch, cr, s)")
  case True
  then show ?thesis by (simp add: refl)
next
  case False
  then obtain b where b: "fac_block (nd_fac s) = Some b"
    using assms by (auto simp: processSignBlock_def split: option.splits)
  let ?b = "b\<lparr>blk_votes := blk_votes b @ [\<lparr>vote_origin = origin, vote_sig = sig\<rparr>]\<rparr>"
  let ?s = "upd_fac (\<lambda>f. f\<lparr>fac_block := Some ?b\<rparr>) s"
  have o: "R (ch_height ch, s) (ch_height ch, ?s)" by (rule other) simp_all
  from False consider "ch' = ch" "s' = ?s"
    | m s1 where "send ch m False ?s = Inr s1" "addBlock C L cfg env ?b (ch, cr, s1) = Inr (ch', cr', s')"
    using assms b by (auto simp: processSignBlock_def Let_def split: if_splits)
  then show ?thesis
  proof cases
    case 1
    then show ?thesis using o by simp
  next
    case 2
    then show ?thesis using trans [OF o trans [OF send_rel addBlock_rel]] by blast
  qed
qed

lemma processConfirmBlock_rel:
  assumes "processConfirmBlock C L cfg env hash votes (ch, cr, s) = Inr (ch', cr', s')"
  shows "R (ch_height ch, s) (ch_height ch', s')"
proof (cases "(ch', cr', s') = (ch, cr, s)")
  case True
  then show ?thesis by (simp add: refl)
next
  case False
  then obtain b where "addBlock C L cfg env b (ch, cr, upd_fac (\<lambda>f. f\<lparr>fac_block := Some b\<rparr>) s) = Inr (ch', cr', s')"
    using assms by (auto simp: processConfirmBlock_def Let_def split: option.splits if_splits)
  moreover have "R (ch_height ch, s) (ch_height ch, upd_fac (\<lambda>f. f\<lparr>fac_block := Some b\<rparr>) s)" by (rule other) simp_all
  ultimately show ?thesis using trans addBlock_rel by blast
qed

lemma processProposeBlock_rel:
  assumes "processProposeBlock C L cfg env b (ch, cr, s) = Inr (ch', cr', s')"
  shows "R (ch_height ch, s) (ch_height ch', s')"
proof (cases "(ch', cr', s') = (ch, cr, s)")
  case True
  then show ?thesis by (simp add: refl)
next
  case False
  let ?s = "upd_fac (\<lambda>f. f\<lparr>fac_block := Some b\<rparr>) s"
  have g: "\<not> (blk_height b \<noteq> ch_height ch + 1 \<or> Some (blk_previousHash b) \<noteq> map_option blk_hash (latestBlock ch) \<or>
      \<not> validateBlock C ch b False)"
  proof
    assume "blk_height b \<noteq> ch_height ch + 1 \<or> Some (blk_previousHash b) \<noteq> map_option blk_hash (latestBlock ch) \<or>
      \<not> validateBlock C ch b False"
    then have "processProposeBlock C L cfg env b (ch, cr, s) = Inr (ch, cr, s)"
      unfolding processProposeBlock_def prod.case by (rule if_P)
    then show False using assms False by simp
  qed
  obtain s1 s2 where c: "calcValidator C cfg env ch ?s = Inr s1"
    and d: "(if isValidator s1 (own_key C s1)
        then processSignBlock C L cfg env (own_key C s1) (blk_hash b) (wallet_sign C (nd_wallet s1) (blk_hash b)) (ch, cr, s1)
        else bindr (send ch (SignBlock_create C (nd_wallet s1) (env_now env) (validator (nd_fac s1)) (blk_hash b)) False s1)
               (\<lambda>s. Inr (ch, cr, s))) = Inr (ch', cr', s2)"
    and e: "s' = upd_fac (\<lambda>f. f\<lparr>timeoutRetry := True\<rparr>) s2"
    using assms unfolding processProposeBlock_def prod.case Let_def if_not_P [OF g] by (auto split del: if_split)
  have "R (ch_height ch, s) (ch_height ch, ?s)" by (rule other) simp_all
  also have "R (ch_height ch, ?s) (ch_height ch, s1)" using c by (rule calcValidator_rel)
  also (trans) have "R (ch_height ch, s1) (ch_height ch', s2)"
    using d by (auto split: if_splits intro: processSignBlock_rel send_rel)
  also (trans) have "R (ch_height ch', s2) (ch_height ch', s')" by (rule other) (simp_all add: e)
  finally (trans) show ?thesis .
qed

lemma processStatus_rel:
  assumes "processStatus C cfg env origin status k (ch, cr, s) = Inr (ch', cr', s')"
  shows "R (ch_height ch, s) (ch_height ch', s')"
proof (cases "(ch', cr', s') = (ch, cr, s)")
  case True
  then show ?thesis by (simp add: refl)
next
  case False
  let ?s = "if \<not> isSyncing (nd_fac s) \<and> ch_height ch < k then upd_fac (\<lambda>f. f\<lparr>isSyncing := True\<rparr>) s else s"
  have o: "R (ch_height ch, s) (ch_height ch, ?s)" by (rule other) simp_all
  let ?a = "jm_get_or (mapAvailability (nd_fac ?s)) origin [] @ [env_now env]"
  have on: "status = ONLINE" using assms False by (auto simp: processStatus_def split: if_splits)
  have "\<exists>a s1. (s1 = ?s \<or> (\<exists>b cr1. proposeModifyStake C cfg env ch origin STAKE_PING_IDENT STAKE_PING_AMOUNT (cr, ?s) = Inr (b, cr1, s1))) \<and>
      ch' = ch \<and> s' = upd_fac (\<lambda>f. f\<lparr>mapAvailability := jm_set origin a (mapAvailability f)\<rparr>) s1"
  proof (cases "STAKE_PING_SAMPLE_SIZE \<le> length ?a")
    case False
    then show ?thesis using assms on unfolding processStatus_def prod.case Let_def by (auto split del: if_split)
  next
    case True
    then obtain qc a s1 cr1 where q: "QuartileCoeff ?a = Inr (qc, a)"
      and r: "(if ping_regular qc then bindr (proposeModifyStake C cfg env ch origin STAKE_PING_IDENT STAKE_PING_AMOUNT (cr, ?s))
          (\<lambda>(b, cr, s). Inr (cr, s)) else Inr (cr, ?s)) = Inr (cr1, s1)"
      and e: "ch' = ch" "s' = upd_fac (\<lambda>f. f\<lparr>mapAvailability := jm_set origin (keep_samples a) (mapAvailability f)\<rparr>) s1"
      using assms on unfolding processStatus_def prod.case Let_def by (auto split del: if_split)
    have "s1 = ?s \<or> (\<exists>b cr1. proposeModifyStake C cfg env ch origin STAKE_PING_IDENT STAKE_PING_AMOUNT (cr, ?s) = Inr (b, cr1, s1))"
      using r by (cases "ping_regular qc") (auto split del: if_split)
    then show ?thesis using e by blast
  qed
  then obtain a s1 where s1: "s1 = ?s \<or> (\<exists>b cr1. proposeModifyStake C cfg env ch origin STAKE_PING_IDENT STAKE_PING_AMOUNT (cr, ?s) = Inr (b, cr1, s1))"
    and e: "ch' = ch" "s' = upd_fac (\<lambda>f. f\<lparr>mapAvailability := jm_set origin a (mapAvailability f)\<rparr>) s1"
    by blast
  have "R (ch_height ch, ?s) (ch_height ch, s1)" using s1
  proof
    assume "s1 = ?s"
    then show ?thesis by (simp only: refl)
  next
    assume "\<exists>b cr1. proposeModifyStake C cfg env ch origin STAKE_PING_IDENT STAKE_PING_AMOUNT (cr, ?s) = Inr (b, cr1, s1)"
    then show ?thesis using proposeModifyStake_rel by blast
  qed
  moreover have "R (ch_height ch, s1) (ch_height ch', s')" unfolding e(1) by (rule other) (simp_all add: e(2))
  ultimately show ?thesis using trans o by blast
qed

lemma processMessage_rel:
  assumes "processMessage C L cfg env m (ch, cr, s) = Inr (ch', cr', s')"
  shows "R (ch_height ch, s) (ch_height ch', s')"
proof -
  obtain s1 where v: "(if data_type (msg_data m) = TYPE_STATUS then Inr s else calcValidator C cfg env ch s) = Inr s1"
    using assms by (auto simp: processMessage_def)
  have o: "R (ch_height ch, s) (ch_height ch, s1)"
    using v by (auto simp: refl split: if_splits intro: calcValidator_rel)
  have "R (ch_height ch, s1) (ch_height ch', s')"
  proof (cases "msg_data m")
    case (AddTxData k tx)
    then show ?thesis using assms v by (auto simp: processMessage_def refl intro: processAddTx_rel split: if_splits)
  next
    case (ProposeBlockData b)
    then show ?thesis using assms v by (auto simp: processMessage_def refl intro: processProposeBlock_rel split: if_splits)
  next
    case (SignBlockData h g)
    then show ?thesis using assms v by (auto simp: processMessage_def refl intro: processSignBlock_rel split: if_splits)
  next
    case (ConfirmBlockData h vs)
    then show ?thesis using assms v by (auto simp: processMessage_def refl intro: processConfirmBlock_rel split: if_splits)
  next
    case (StatusData a k)
    then show ?thesis using assms v by (auto simp: processMessage_def intro: processStatus_rel)
  qed
  with o show ?thesis by (rule trans)
qed

lemma add_blocks_rel:
  "add_blocks C L cfg env blocks (ch, cr, s) = Inr (ch', cr', s') \<Longrightarrow> R (ch_height ch, s) (ch_height ch', s')"
proof (induction blocks arbitrary: ch cr s)
  case Nil
  then show ?case by (simp add: refl)
next
  case (Cons b blocks)
  then obtain ch1 cr1 s1 where "addBlock C L cfg env b (ch, cr, s) = Inr (ch1, cr1, s1)"
    and "add_blocks C L cfg env blocks (ch1, cr1, s1) = Inr (ch', cr', s')" by auto
  then show ?case using Cons.IH addBlock_rel trans by blast
qed

lemma fire_proposeBlock_rel:
  assumes "fire_proposeBlock C env ch s = Inr s'"
  shows "R (h, s) (h, s')"
proof -
  obtain m f where "send ch m False (s\<lparr>nd_fac := f\<rparr>) = Inr s'" "stackTransaction f = stackTransaction (nd_fac s)" "ownTx f = ownTx (nd_fac s)"
    using assms by (auto simp: fire_proposeBlock_def Let_def split: option.splits)
  moreover have "R (h, s) (h, s\<lparr>nd_fac := f\<rparr>)" using calculation(2,3) by (intro other) simp_all
  ultimately show ?thesis using trans send_rel by blast
qed

lemma fire_addTx_rel:
  assumes "fire_addTx C cfg env ch s = Inr s'"
  shows "R (h, s) (h, s')"
proof -
  have "R (h, s) (h, upd_fac (\<lambda>f. f\<lparr>timeoutAddTx := False\<rparr>) s)" by (rule other) simp_all
  then show ?thesis using assms trans doAddTx_rel unfolding fire_addTx_def by blast
qed

lemma fire_retry_rel: "fire_retry C cfg env ch s = Inr s' \<Longrightarrow> R (h, s) (h, s')"
  unfolding fire_retry_def using trans [OF clear doAddTx_rel] by blast

end

section \<open>Steps and runs\<close>

lemma p2pNetwork_keeps:
  "mapMsgSeq (snd (p2pNetwork own now rnd ch n)) = mapMsgSeq n"
  "samReady (snd (p2pNetwork own now rnd ch n)) = samReady n"
  "isClosing (snd (p2pNetwork own now rnd ch n)) = isClosing n"
  by (simp_all add: p2pNetwork_def Let_def)

lemma receive_newer: "receive C ch n data from = Inr (Some (pk, m)) \<Longrightarrow> is_newer n m"
  by (auto simp: receive_def Let_def split: if_splits option.splits)

text \<open>The relation through events, which also note messages and change the network object.\<close>

locale node_rel = handler_rel +
  assumes note_msg: "nd_net s = Some n \<Longrightarrow> is_newer n m \<Longrightarrow> R (h, s) (h, s\<lparr>nd_net := Some (note_message now pk m n)\<rparr>)"
    and other_net: "nd_net s = Some n \<Longrightarrow> mapMsgSeq n' = mapMsgSeq n \<Longrightarrow> samReady n' = samReady n \<Longrightarrow>
      isClosing n' = isClosing n \<Longrightarrow> R (h, s) (h, s\<lparr>nd_net := Some n'\<rparr>)"
begin

lemma incomingData_rel:
  assumes "incomingData C L cfg env data from (ch, cr, s) = Inr (ch', cr', s')"
  shows "R (ch_height ch, s) (ch_height ch', s')"
proof (cases "(ch', cr', s') = (ch, cr, s)")
  case True
  then show ?thesis by (simp add: refl)
next
  case False
  then obtain n pk m where n: "nd_net s = Some n" and r: "receive C ch n data from = Inr (Some (pk, m))"
    using assms by (auto simp: incomingData_def net_of_def split: option.splits)
  let ?s = "s\<lparr>nd_net := Some (note_message (env_now env) pk m n)\<rparr>"
  obtain ch1 cr1 s1 where p: "processMessage C L cfg env m (ch, cr, ?s) = Inr (ch1, cr1, s1)"
    and e: "(ch', cr', s') = (ch1, cr1, s1) \<or> (ch' = ch1 \<and> cr' = cr1 \<and> send ch1 m True s1 = Inr s')"
    using assms n r by (auto simp: incomingData_def net_of_def split: if_splits)
  have o: "R (ch_height ch, s) (ch_height ch, ?s)" using n receive_newer [OF r] by (rule note_msg)
  have "R (ch_height ch1, s1) (ch_height ch', s')" using e by (auto simp: refl intro: send_rel)
  then show ?thesis using trans [OF o] trans processMessage_rel [OF p] by blast
qed

lemma node_step_rel:
  assumes "node_step C L cfg (ch, cr, s) (ch', cr', s')"
  shows "R (ch_height ch, s) (ch_height ch', s')"
  using assms
proof (cases rule: node_step.cases)
  case (data env d u)
  then show ?thesis by (intro incomingData_rel)
next
  case (sync env blocks)
  then obtain s1 where a: "add_blocks C L cfg env blocks (ch, cr, s) = Inr (ch', cr', s1)"
    and e: "s' = upd_fac (\<lambda>f. f\<lparr>isSyncing := False\<rparr>) s1" by (auto simp: sync_blocks_def)
  have "R (ch_height ch', s1) (ch_height ch', s')" by (rule other) (simp_all add: e)
  then show ?thesis using trans add_blocks_rel [OF a] by blast
next
  case (p2p env rnd)
  then obtain n where "nd_net s = Some n" "ch' = ch" "s' = s\<lparr>nd_net := Some (snd (p2pNetwork (own_key C s) (env_now env) rnd ch n))\<rparr>"
    by (auto simp: fire_p2p_def net_of_def split: option.splits)
  then show ?thesis using other_net [OF _ p2pNetwork_keeps] by simp
qed (auto simp: fire_status_def intro: stackTx_rel fire_proposeBlock_rel fire_addTx_rel fire_retry_rel send_rel)

lemma node_run_rel:
  "node_run C L cfg st0 st \<Longrightarrow> R (ch_height (fst st0), snd (snd st0)) (ch_height (fst st), snd (snd st))"
proof (induction rule: node_run.induct)
  case start
  show ?case by (rule refl)
next
  case (step st st')
  obtain ch cr s ch' cr' s' where e: "st = (ch, cr, s)" "st' = (ch', cr', s')" by (cases st; cases st') auto
  have "R (ch_height ch, s) (ch_height ch', s')" using step.hyps(2) unfolding e by (rule node_step_rel)
  then show ?case using trans [OF step.IH] by (simp add: e)
qed

end

section \<open>Handlers leave the network object alone\<close>

fun keeps_net :: "int \<times> node \<Rightarrow> int \<times> node \<Rightarrow> bool" where
  "keeps_net (h, s) (h', s') \<longleftrightarrow> nd_net s' = nd_net s \<and> nd_wallet s' = nd_wallet s"

interpretation net_kept: handler_rel keeps_net
proof unfold_locales
  fix x
  show "keeps_net x x" by (cases x) simp
next
  fix x y z
  assume "keeps_net x y" "keeps_net y z"
  then show "keeps_net x z" by (cases x; cases y; cases z) simp
qed simp_all

text \<open>A datagram notes at most one message there.\<close>

lemma incomingData_net:
  assumes "incomingData C L cfg env data from (ch, cr, s) = Inr (ch', cr', s')" and n: "nd_net s = Some n"
  shows "nd_wallet s' = nd_wallet s \<and> (case receive C ch n data from of
    Inr (Some (pk, m)) \<Rightarrow> nd_net s' = Some (note_message (env_now env) pk m n) | _ \<Rightarrow> nd_net s' = Some n)"
proof (cases "receive C ch n data from")
  case (Inr r)
  show ?thesis
  proof (cases r)
    case None
    then show ?thesis using assms Inr by (simp add: incomingData_def net_of_def)
  next
    case (Some x)
    obtain pk m where x: "x = (pk, m)" by (cases x)
    let ?s = "s\<lparr>nd_net := Some (note_message (env_now env) pk m n)\<rparr>"
    obtain ch1 cr1 s1 where p: "processMessage C L cfg env m (ch, cr, ?s) = Inr (ch1, cr1, s1)"
      and e: "s' = s1 \<or> send ch1 m True s1 = Inr s'"
      using assms Inr Some x by (auto simp: incomingData_def net_of_def split: if_splits)
    have "keeps_net (0, s1) (0, s')" using e net_kept.send_rel net_kept.refl by blast
    then show ?thesis using net_kept.processMessage_rel [OF p] Inr Some x by simp
  qed
qed (use assms in \<open>simp add: incomingData_def net_of_def\<close>)

section \<open>Sequence numbers never go down\<close>

definition seq_le :: "net \<Rightarrow> net \<Rightarrow> bool" where
  "seq_le n n' \<longleftrightarrow> (\<forall>k. jm_get_or (mapMsgSeq n) k 0 \<le> jm_get_or (mapMsgSeq n') k 0)"

fun seq_grows :: "int \<times> node \<Rightarrow> int \<times> node \<Rightarrow> bool" where
  "seq_grows (h, s) (h', s') \<longleftrightarrow> (\<forall>n. nd_net s = Some n \<longrightarrow> (\<exists>n'. nd_net s' = Some n' \<and> seq_le n n'))"

lemma seq_le_note: "is_newer n m \<Longrightarrow> seq_le n (note_message now pk m n)"
  by (auto simp: seq_le_def note_message_def is_newer_def)

interpretation msg_seq: node_rel seq_grows
proof unfold_locales
  fix x y z
  assume "seq_grows x y" "seq_grows y z"
  then show "seq_grows x z" by (cases x; cases y; cases z) (fastforce simp: seq_le_def intro: order_trans)
qed (auto simp: seq_le_note, auto simp: seq_le_def)

section \<open>Own transactions are a queue\<close>

text \<open>What a node still has to bring into a block: the transaction under way, then the stack.\<close>

definition pending :: "node \<Rightarrow> (string \<times> command list) list" where
  "pending s = (case ownTx (nd_fac s) of None \<Rightarrow> [] | Some (h, tx) \<Rightarrow> [(tx_ident tx, tx_commands tx)]) @ stackTransaction (nd_fac s)"

text \<open>While the height stays, entries are only appended; a new block may take some off the front.\<close>

fun queue_kept :: "int \<times> node \<Rightarrow> int \<times> node \<Rightarrow> bool" where
  "queue_kept (h, s) (h', s') \<longleftrightarrow> h \<le> h' \<and>
     (\<exists>k new. pending s' = drop k (pending s @ new) \<and> k \<le> length (pending s @ new) \<and> (h = h' \<longrightarrow> k = 0))"

lemma drop_drop_append:
  "k \<le> length a \<Longrightarrow> drop j (drop k a @ b) = drop (j + k) (a @ b)"
  by (simp add: add.commute)

lemma pending_clear:
  "pending (upd_fac (factory_clear None) s) = pending s"
  "\<exists>k. pending (upd_fac (factory_clear (Some b)) s) = drop k (pending s) \<and> k \<le> length (pending s)"
proof -
  show "pending (upd_fac (factory_clear None) s) = pending s"
    by (auto simp: pending_def factory_clear_def removeTimeout_def Let_def split: option.split prod.split)
  show "\<exists>k. pending (upd_fac (factory_clear (Some b)) s) = drop k (pending s) \<and> k \<le> length (pending s)"
  proof (cases "ownTx (nd_fac s)")
    case None
    then show ?thesis by (intro exI [of _ 0]) (simp add: pending_def factory_clear_def removeTimeout_def Let_def)
  next
    case (Some p)
    obtain h tx where p: "p = (h, tx)" by (cases p)
    show ?thesis
    proof (cases "list_ex (\<lambda>t. tx_sig t = tx_sig tx) (blk_tx b)")
      case True
      then show ?thesis using Some p
        by (intro exI [of _ 1]) (simp add: pending_def factory_clear_def removeTimeout_def Let_def)
    next
      case False
      then show ?thesis using Some p
        by (intro exI [of _ 0]) (simp add: pending_def factory_clear_def removeTimeout_def Let_def)
    qed
  qed
qed

lemma queue_kept_same: "pending s' = pending s @ new \<Longrightarrow> queue_kept (h, s) (h, s')"
  by (auto intro: exI [of _ 0])

interpretation queue: node_rel queue_kept
proof unfold_locales
  fix x
  show "queue_kept x x" by (cases x) (auto intro: queue_kept_same simp del: queue_kept.simps)
next
  fix x y z
  assume xy: "queue_kept x y" and yz: "queue_kept y z"
  obtain h s h1 s1 h2 s2 where e: "x = (h, s)" "y = (h1, s1)" "z = (h2, s2)" by (cases x; cases y; cases z) auto
  obtain k n where k: "h \<le> h1" "pending s1 = drop k (pending s @ n)" "k \<le> length (pending s @ n)" "h = h1 \<longrightarrow> k = 0"
    using xy unfolding e by auto
  obtain j n2 where j: "h1 \<le> h2" "pending s2 = drop j (pending s1 @ n2)" "j \<le> length (pending s1 @ n2)" "h1 = h2 \<longrightarrow> j = 0"
    using yz unfolding e by auto
  have "pending s2 = drop (j + k) (pending s @ (n @ n2))" unfolding j(2) k(2) drop_drop_append [OF k(3)] by simp
  moreover have "j + k \<le> length (pending s @ (n @ n2))" using j(3) k(2,3) by simp
  moreover have "h = h2 \<longrightarrow> j + k = 0" using k(1,4) j(1,4) by auto
  ultimately show "queue_kept x z" using k(1) j(1) unfolding e queue_kept.simps by (intro conjI exI [of _ "j + k"] exI [of _ "n @ n2"]) simp_all
next
  fix h s b
  show "queue_kept (h, s) (h + 1, upd_fac (factory_clear (Some b)) s)"
  proof -
    obtain k where "pending (upd_fac (factory_clear (Some b)) s) = drop k (pending s @ [])" "k \<le> length (pending s @ [])"
      using pending_clear(2) [of b s] by auto
    then show ?thesis unfolding queue_kept.simps by (intro conjI exI [of _ k] exI [of _ "[]"]) simp_all
  qed
next
  fix h s
  show "queue_kept (h, s) (h, upd_fac (factory_clear None) s)"
    by (rule queue_kept_same [where new = "[]"]) (simp only: pending_clear append_Nil2)
next
  fix h s e
  show "queue_kept (h, s) (h, upd_fac (\<lambda>f. f\<lparr>stackTransaction := stackTransaction f @ [e]\<rparr>) s)"
    by (rule queue_kept_same [where new = "[e]"]) (simp add: pending_def)
qed (rule queue_kept_same [where new = "[]"], simp add: pending_def)+

section \<open>A node without a SAM session is silent\<close>

fun silent :: "int \<times> node \<Rightarrow> int \<times> node \<Rightarrow> bool" where
  "silent (h, s) (h', s') \<longleftrightarrow> (\<forall>n. nd_net s = Some n \<longrightarrow> \<not> samReady n \<longrightarrow>
     nd_out s' = nd_out s \<and> (\<exists>n'. nd_net s' = Some n' \<and> \<not> samReady n' \<and> isClosing n' = isClosing n))"

interpretation silence: node_rel silent
proof unfold_locales
  fix x y z
  assume "silent x y" "silent y z"
  then show "silent x z" by (cases x; cases y; cases z) fastforce
next
  fix x
  show "silent x x" by (cases x) simp
qed (auto simp: note_message_def)

end
