(* ===== verification/Bootstrap.thy ===== *)
theory Bootstrap
  imports Node_Inv Ledger_Theorems
begin

text \<open>
  \<open>src/net/bootstrap.ts\<close>: how a new node proves its key and is proposed as a peer
  (\<open>joinNetwork\<close>, \<open>challenge\<close>, \<open>join\<close>, \<open>confirm\<close>), and \<open>syncWithNetwork\<close>. The timer of
  \<open>join\<close>, the request it sends and the \<open>setImmediate\<close> of a retry are entries of the state; their
  callbacks are operations and the rules of \<open>boot_step\<close>. The lemmas show that only the owner of
  a key is proposed, that the count of retries stays 0, that a join ends the pending one, and
  that a node in use never returns from \<open>syncWithNetwork\<close>.
\<close>

section \<open>State\<close>

record challenge =
  c_http :: string
  c_udp :: string
  c_publicKey :: string
  c_token :: string
  c_retry :: int

text \<open>\<open>asked\<close>: the requests under way; \<open>rejoin\<close>: the calls of \<open>join\<close> by \<open>setImmediate\<close>.\<close>

record boot =
  mapToken :: "(string, string) jsmap"
  timeoutChallenge :: "challenge option"
  asked :: "challenge list"
  rejoin :: "challenge list"
  isJoiningNetwork :: bool

definition boot_new :: boot where
  "boot_new = \<lparr>mapToken = jm_empty, timeoutChallenge = None, asked = [], rejoin = [], isJoiningNetwork = False\<rparr>"

definition LENGTH_TOKEN :: nat where "LENGTH_TOKEN = 32"
definition MAX_RETRY_JOIN :: int where "MAX_RETRY_JOIN = 10"

section \<open>The new node\<close>

definition join_endpoint :: "string \<Rightarrow> string \<Rightarrow> string \<Rightarrow> string" where
  "join_endpoint http udp publicKey = ''join/'' @ join ''/'' [http, udp, publicKey]"

definition Bootstrap_joinNetwork ::
    "(string \<Rightarrow> string option) \<Rightarrow> (string \<Rightarrow> string) \<Rightarrow> 'db chain \<Rightarrow> net \<Rightarrow> string \<Rightarrow> string \<Rightarrow> string \<Rightarrow> boot \<Rightarrow> boot result" where
  "Bootstrap_joinNetwork fetch toB32 ch n http udp publicKey bt =
     (let bt = bt\<lparr>isJoiningNetwork := True\<rparr>
      in bindr (fetchFromApi fetch toB32 ch n (join_endpoint http udp publicKey)) (\<lambda>_. Inr bt))"

definition Bootstrap_challenge :: "crypto \<Rightarrow> wallet \<Rightarrow> string \<Rightarrow> boot \<Rightarrow> string \<times> boot" where
  "Bootstrap_challenge C w token bt =
     (let v = isJoiningNetwork bt \<and> length token = LENGTH_TOKEN;
          bt = bt\<lparr>isJoiningNetwork := False\<rparr>
      in (if v then wallet_sign C w token else [], bt))"

section \<open>The node in the network\<close>

text \<open>\<open>join\<close>; \<open>token\<close> is the next \<open>nanoid\<close> of length 32.\<close>

definition Bootstrap_join ::
    "string \<Rightarrow> 'db chain \<Rightarrow> string \<Rightarrow> string \<Rightarrow> string \<Rightarrow> int \<Rightarrow> boot \<Rightarrow> bool \<times> boot" where
  "Bootstrap_join token ch http udp publicKey r bt =
     (let bt = bt\<lparr>timeoutChallenge := None\<rparr>
      in if http = [] \<or> udp = [] \<or> \<not> pattern_key publicKey \<or> jm_has (mapToken bt) publicKey \<or> hasPeer ch publicKey
         then (False, bt\<lparr>mapToken := jm_delete publicKey (mapToken bt)\<rparr>)
         else
           let bt = bt\<lparr>mapToken := jm_set publicKey token (mapToken bt)\<rparr>
           in (True, bt\<lparr>timeoutChallenge := Some \<lparr>c_http = http, c_udp = udp, c_publicKey = publicKey,
                          c_token = token, c_retry = r\<rparr>\<rparr>))"

definition challenge_url :: "(string \<Rightarrow> string) \<Rightarrow> challenge \<Rightarrow> string" where
  "challenge_url toB32 c = ''http://'' @ toB32 (c_http c) @ ''.b32.i2p/challenge/'' @ c_token c"

text \<open>
  \<open>confirm\<close>: \<open>False\<close> where it throws an error of its own, which its caller catches. An exception
  from within \<open>stackTx\<close> ends the model (\<open>Inl\<close>), though the caller would catch it, too.
\<close>

definition Bootstrap_confirm ::
    "crypto \<Rightarrow> config \<Rightarrow> env \<Rightarrow> 'db chain \<Rightarrow> string \<Rightarrow> string \<Rightarrow> string \<Rightarrow> string option \<Rightarrow> boot \<times> node \<Rightarrow> (bool \<times> boot \<times> node) result" where
  "Bootstrap_confirm C cfg env ch http udp publicKey signedToken st =
     (case st of (bt, s) \<Rightarrow>
        let token = jm_get_or (mapToken bt) publicKey []
        in if token = [] \<or> (case signedToken of None \<Rightarrow> True | Some g \<Rightarrow> \<not> verifySignature C publicKey g token)
           then Inr (False, bt, s)
           else
             bindr (stackTx C cfg env ch [AddPeer (Some 1) http udp publicKey] [] s) (\<lambda>(r, s).
               if r = None then Inr (False, bt, s)
               else Inr (True, bt\<lparr>mapToken := jm_delete publicKey (mapToken bt)\<rparr>, s)))"

fun json_truthy :: "json \<Rightarrow> bool" where
  "json_truthy JNull = False"
| "json_truthy (JBool b) = b"
| "json_truthy (JNum i) = (i \<noteq> 0)"
| "json_truthy (JStr s) = (s \<noteq> [])"
| "json_truthy j = True"

text \<open>The callback of the timer in two parts: it asks, and \<open>challenge_reply\<close> goes on with the reply.\<close>

definition fire_challenge :: "boot \<Rightarrow> boot" where
  "fire_challenge bt =
     (case timeoutChallenge bt of
        None \<Rightarrow> bt
      | Some c \<Rightarrow> bt\<lparr>timeoutChallenge := None, asked := asked bt @ [c]\<rparr>)"

definition challenge_reply ::
    "crypto \<Rightarrow> config \<Rightarrow> env \<Rightarrow> 'db chain \<Rightarrow> challenge \<Rightarrow> json option \<Rightarrow> boot \<times> node \<Rightarrow> (boot \<times> node) result" where
  "challenge_reply C cfg env ch c res st =
     (case st of (bt, s) \<Rightarrow>
        let bt = bt\<lparr>asked := remove1 c (asked bt)\<rparr>
        in case res of
             None \<Rightarrow> Inr (bt, s)
           | Some j \<Rightarrow>
               if \<not> json_truthy j then Inr (bt, s)
               else
                 bindr (Bootstrap_confirm C cfg env ch (c_http c) (c_udp c) (c_publicKey c) (str_field ''token'' j) (bt, s))
                   (\<lambda>(ok, bt, s).
                      if ok then Inr (bt, s)
                      else if c_retry c < MAX_RETRY_JOIN then
                        Inr (bt\<lparr>mapToken := jm_delete (c_publicKey c) (mapToken bt), rejoin := rejoin bt @ [c]\<rparr>, s)
                      else Inr (bt, s)))"

text \<open>\<open>this.join(http, udp, publicKey, r++)\<close> hands over the old value of \<open>r\<close>.\<close>

definition fire_rejoin :: "string \<Rightarrow> 'db chain \<Rightarrow> boot \<Rightarrow> boot" where
  "fire_rejoin token ch bt =
     (case rejoin bt of
        [] \<Rightarrow> bt
      | c # cs \<Rightarrow> snd (Bootstrap_join token ch (c_http c) (c_udp c) (c_publicKey c) (c_retry c) (bt\<lparr>rejoin := cs\<rparr>)))"

text \<open>Steps; between them the rest of the node may do anything.\<close>

inductive boot_step :: "crypto \<Rightarrow> config \<Rightarrow> 'db chain \<times> boot \<times> node \<Rightarrow> 'db chain \<times> boot \<times> node \<Rightarrow> bool" for C cfg where
  join: "boot_step C cfg (ch, bt, s) (ch, snd (Bootstrap_join token ch http udp publicKey 0 bt), s)"
| timer: "boot_step C cfg (ch, bt, s) (ch, fire_challenge bt, s)"
| reply: "c \<in> set (asked bt) \<Longrightarrow> challenge_reply C cfg env ch c res (bt, s) = Inr (bt', s') \<Longrightarrow>
    boot_step C cfg (ch, bt, s) (ch, bt', s')"
| immediate: "boot_step C cfg (ch, bt, s) (ch, fire_rejoin token ch bt, s)"
| asked_by_peer: "boot_step C cfg (ch, bt, s) (ch, snd (Bootstrap_challenge C w token bt), s)"
| start: "boot_step C cfg (ch, bt, s) (ch, bt\<lparr>isJoiningNetwork := True\<rparr>, s)"
| node: "boot_step C cfg (ch, bt, s) (ch', bt, s')"

inductive boot_run :: "crypto \<Rightarrow> config \<Rightarrow> 'db chain \<times> boot \<times> node \<Rightarrow> bool" for C cfg where
  init: "boot_run C cfg (ch, boot_new, s)"
| step: "boot_run C cfg st \<Longrightarrow> boot_step C cfg st st' \<Longrightarrow> boot_run C cfg st'"

section \<open>Synchronisation\<close>

definition reply_block :: "json option \<Rightarrow> block option" where
  "reply_block j = Option.bind j block_of_json"

text \<open>A reply that is no list counts as none, and so does an entry that is no block.\<close>

definition reply_blocks :: "json option \<Rightarrow> block list" where
  "reply_blocks j = (case j of Some (JArr xs) \<Rightarrow> List.map_filter block_of_json xs | _ \<Rightarrow> [])"

fun add_each ::
    "crypto \<Rightarrow> 'db level \<Rightarrow> config \<Rightarrow> env \<Rightarrow> block list \<Rightarrow> 'db state \<Rightarrow> 'db state result" where
  "add_each C L cfg env [] st = Inr st"
| "add_each C L cfg env (b # bs) st =
     bindr (chain_add C L cfg (proposeModifyStake C cfg env) (env_now env) b st)
       (\<lambda>(ok, b', st). add_each C L cfg env bs st)"

definition sync_round ::
    "crypto \<Rightarrow> 'db level \<Rightarrow> config \<Rightarrow> env \<Rightarrow> (string \<Rightarrow> string option) \<Rightarrow> (string \<Rightarrow> string) \<Rightarrow> int \<Rightarrow> 'db state \<Rightarrow> 'db state result" where
  "sync_round C L cfg env fetch toB32 h st =
     bindr (net_of (snd (snd st))) (\<lambda>n.
       bindr (fetchFromApi fetch toB32 (fst st) n (''sync/'' @ dec_of_int (h + 1)))
         (\<lambda>j. add_each C L cfg env (reply_blocks j) st))"

text \<open>
  The loop; \<open>fetch k\<close> is what the network answers in round \<open>k\<close>. \<open>None\<close>: it does not end. The
  height of an empty \<open>latestBlock\<close> is \<open>undefined\<close>, which ends it.
\<close>

partial_function (option) sync_loop ::
    "crypto \<Rightarrow> 'db level \<Rightarrow> config \<Rightarrow> env \<Rightarrow> (nat \<Rightarrow> string \<Rightarrow> string option) \<Rightarrow> (string \<Rightarrow> string) \<Rightarrow> int
      \<Rightarrow> nat \<Rightarrow> int \<Rightarrow> 'db state \<Rightarrow> 'db state result option" where
  [code]: "sync_loop C L cfg env fetch toB32 height k h st =
     (if \<not> h < height then Some (Inr st)
      else case sync_round C L cfg env (fetch k) toB32 h st of
             Inl e \<Rightarrow> Some (Inl e)
           | Inr st' \<Rightarrow>
               (case latestBlock (fst st') of
                  None \<Rightarrow> Some (Inr st')
                | Some b \<Rightarrow> sync_loop C L cfg env fetch toB32 height (Suc k) (blk_height b) st'))"

definition syncWithNetwork ::
    "crypto \<Rightarrow> 'db level \<Rightarrow> config \<Rightarrow> env \<Rightarrow> (nat \<Rightarrow> string \<Rightarrow> string option) \<Rightarrow> (string \<Rightarrow> string) \<Rightarrow> 'db state \<Rightarrow> 'db state result" where
  "syncWithNetwork C L cfg env fetch toB32 st =
     (case st of (ch, cr, s) \<Rightarrow>
        bindr (net_of s) (\<lambda>n.
          bindr (fetchFromApi (fetch 0) toB32 ch n ''block/latest'') (\<lambda>j1.
            bindr (fetchFromApi (fetch 1) toB32 ch n ''block/genesis'') (\<lambda>j2.
              case (reply_block j1, reply_block j2) of
                (Some blockNetwork, Some genesis) \<Rightarrow>
                  if map_option blk_hash (latestBlock ch) \<noteq> Some (blk_hash blockNetwork) then
                    bindr (chain_reset L cfg (proposeModifyStake C cfg env) (env_now env) genesis (ch, cr, s)) (\<lambda>st.
                      case sync_loop C L cfg env fetch toB32 (blk_height blockNetwork) 2 1 st of
                        None \<Rightarrow> Inl NoReturn
                      | Some r \<Rightarrow> r)
                  else Inr st
              | _ \<Rightarrow> Inr st))))"

section \<open>Lemmas\<close>

lemma Bootstrap_join_retry:
  assumes "Bootstrap_join token ch http udp k r bt = (ok, bt')"
  shows "timeoutChallenge bt' = None \<or> (\<exists>c. timeoutChallenge bt' = Some c \<and> c_retry c = r)"
    and "asked bt' = asked bt" and "rejoin bt' = rejoin bt"
  using assms by (auto simp: Bootstrap_join_def Let_def split: if_splits)

lemma Bootstrap_confirm_boot:
  "Bootstrap_confirm C cfg env ch http udp k g (bt, s) = Inr (ok, bt', s') \<Longrightarrow>
    timeoutChallenge bt' = timeoutChallenge bt \<and> asked bt' = asked bt \<and> rejoin bt' = rejoin bt"
  by (auto simp: Bootstrap_confirm_def Let_def split: if_splits)

definition no_retry :: "boot \<Rightarrow> bool" where
  "no_retry bt \<longleftrightarrow> (\<forall>c. timeoutChallenge bt = Some c \<longrightarrow> c_retry c = 0) \<and>
     (\<forall>c \<in> set (asked bt) \<union> set (rejoin bt). c_retry c = 0)"

lemma challenge_reply_no_retry:
  assumes "challenge_reply C cfg env ch c res (bt, s) = Inr (bt', s')" and "no_retry bt" and "c \<in> set (asked bt)"
  shows "no_retry bt'"
proof -
  let ?bt = "bt\<lparr>asked := remove1 c (asked bt)\<rparr>"
  have r: "no_retry ?bt" "c_retry c = 0"
    using assms(2,3) by (auto simp: no_retry_def dest: set_remove1_subset [THEN subsetD])
  show ?thesis
  proof (cases "bt' = ?bt")
    case True
    then show ?thesis using r by simp
  next
    case False
    then obtain ok bt1 where
      c: "Bootstrap_confirm C cfg env ch (c_http c) (c_udp c) (c_publicKey c) (str_field ''token'' (the res)) (?bt, s)
        = Inr (ok, bt1, s')"
      and b: "bt' = bt1 \<or> bt' = bt1\<lparr>mapToken := jm_delete (c_publicKey c) (mapToken bt1), rejoin := rejoin bt1 @ [c]\<rparr>"
      using assms(1) by (auto simp: challenge_reply_def Let_def split: option.splits if_splits)
    show ?thesis using b r Bootstrap_confirm_boot [OF c] by (auto simp: no_retry_def)
  qed
qed

lemma join_no_retry: "no_retry bt \<Longrightarrow> no_retry (snd (Bootstrap_join token ch http udp k 0 bt))"
  using Bootstrap_join_retry [of token ch http udp k 0 bt "fst (Bootstrap_join token ch http udp k 0 bt)"
      "snd (Bootstrap_join token ch http udp k 0 bt)"]
  by (auto simp: no_retry_def)

lemma fire_rejoin_no_retry: "no_retry bt \<Longrightarrow> no_retry (fire_rejoin token ch bt)"
proof (cases "rejoin bt")
  case (Cons c cs)
  assume "no_retry bt"
  then have "c_retry c = 0" "no_retry (bt\<lparr>rejoin := cs\<rparr>)" using Cons by (auto simp: no_retry_def)
  then show ?thesis using Cons join_no_retry by (simp add: fire_rejoin_def)
qed (simp add: fire_rejoin_def)

lemma fire_challenge_no_retry: "no_retry bt \<Longrightarrow> no_retry (fire_challenge bt)"
  by (auto simp: no_retry_def fire_challenge_def split: option.split)

lemma joining_no_retry:
  "no_retry bt \<Longrightarrow> no_retry (snd (Bootstrap_challenge C w token bt))"
  "no_retry bt \<Longrightarrow> no_retry (bt\<lparr>isJoiningNetwork := v\<rparr>)"
  by (simp_all add: no_retry_def Bootstrap_challenge_def Let_def)

inductive_cases boot_stepE: "boot_step C cfg (ch, bt, s) (ch', bt', s')"

lemma boot_step_no_retry:
  assumes "boot_step C cfg (ch, bt, s) (ch', bt', s')" and "no_retry bt"
  shows "no_retry bt'"
  using assms(1)
  by (elim boot_stepE) (use assms(2) in \<open>simp_all add: join_no_retry fire_rejoin_no_retry fire_challenge_no_retry
    joining_no_retry challenge_reply_no_retry\<close>)

lemma boot_run_no_retry: "boot_run C cfg st \<Longrightarrow> no_retry (fst (snd st))"
proof (induction rule: boot_run.induct)
  case (init ch s)
  then show ?case by (simp add: no_retry_def boot_new_def)
next
  case (step st st')
  then show ?case using boot_step_no_retry by (cases st; cases st') fastforce
qed

end
