(* ===== verification/Node_Samples.thy ===== *)
theory Node_Samples
  imports Node_Inv Chain_Theorems
begin

text \<open>
  A concrete node for evaluating the model: the first of the three peers of the sample chain,
  with all peers online. Also that the sample codec and wallet keep what the hypotheses on
  codecs and wallets ask for.
\<close>

definition demo_env :: env where
  "demo_env = \<lparr>env_now = 100000, env_ident = ''ident123''\<rparr>"

definition demo_peer :: "char \<Rightarrow> peer" where
  "demo_peer c = \<lparr>p_publicKey = demo_key c, p_http = ''http-'' @ [c], p_udp = ''udp-'' @ [c], p_stake = 1\<rparr>"

definition demo_net :: net where
  "demo_net = \<lparr>arrayNetwork = map demo_peer ''abc'', arrayBroadcast = map demo_key ''bc'', mapMsgSeq = jm_empty,
     mapOnline = map (\<lambda>c. (demo_key c, 100000)) ''abc'', isClosing = False, samReady = True\<rparr>"

definition demo_node :: node where
  "demo_node = \<lparr>nd_wallet = demo_wallet CHR ''a'', nd_net = Some demo_net, nd_fac = factory_new,
     nd_stackModifyStake = [], nd_out = [], nd_feed = []\<rparr>"

lemma demo_mapPeer: "mapPeer (demo_chain ''abc'') = map (\<lambda>c. (demo_key c, demo_peer c)) ''abc''"
proof -
  have "mapPeer (fst (replay null_level [demo_genesis ''abc''] (chain_new [] () (), []))) = map (\<lambda>c. (demo_key c, demo_peer c)) ''abc''"
    by code_simp
  then show ?thesis using demo_chain_view by (simp add: ledger_view_eq)
qed

lemma demo_mapUdp: "mapUdp (demo_chain ''abc'') = map (\<lambda>c. (''udp-'' @ [c], demo_key c)) ''abc''"
proof -
  have "mapUdp (fst (replay null_level [demo_genesis ''abc''] (chain_new [] () (), []))) = map (\<lambda>c. (''udp-'' @ [c], demo_key c)) ''abc''"
    by code_simp
  then show ?thesis using demo_chain_view by (simp add: ledger_view_eq)
qed

lemma demo_key_inject [simp]: "demo_key c = demo_key d \<longleftrightarrow> c = d"
  by (simp add: demo_key_def)

lemma demo_getPeer [simp]:
  "getPeer (demo_chain ''abc'') (demo_key c) = (if c \<in> set ''abc'' then Some (demo_peer c) else None)"
  by (auto simp: getPeer_def jm_get_def demo_mapPeer)

lemma demo_hasPeer [simp]: "hasPeer (demo_chain ''abc'') (demo_key c) \<longleftrightarrow> c \<in> set ''abc''"
  by (simp add: hasPeer_def jm_get_def demo_mapPeer)

section \<open>Codec and wallet\<close>

lemma hex_digit_plain: "d < 16 \<Longrightarrow> \<not> is_space (hex_digit d) \<and> hex_digit d \<noteq> CHR '';''"
proof -
  have "\<forall>d \<in> set [0..<16]. \<not> is_space (hex_digit d) \<and> hex_digit d \<noteq> CHR '';''" by code_simp
  then show "d < 16 \<Longrightarrow> ?thesis" by simp
qed

lemma demo_decode_encode: "demo_decode (demo_encode s) = Some s"
proof (induction s)
  case (Cons c s)
  have "(of_char c :: nat) div 16 < 16" using nat_of_char_less_256 by (simp add: less_mult_imp_div_less)
  moreover have "char_of (16 * (of_char c div 16) + of_char c mod 16 :: nat) = c" by simp
  ultimately show ?case using Cons by (simp add: unhex_hex_digit)
qed simp

lemma demo_codec_ok: "codec_ok demo_crypto"
proof -
  have "\<not> is_space c \<and> c \<noteq> CHR '';''" if "c \<in> set (demo_encode s)" for c s
    using that
  proof (induction s)
    case (Cons x s)
    have "(of_char x :: nat) div 16 < 16" using nat_of_char_less_256 by (simp add: less_mult_imp_div_less)
    then show ?case using Cons hex_digit_plain by auto
  qed simp
  then show ?thesis by (simp add: codec_ok_def demo_crypto_def demo_decode_encode)
qed

lemma demo_wallet_ok: "is_b64url c \<Longrightarrow> wallet_ok demo_crypto (demo_wallet c)"
proof -
  assume c: "is_b64url c"
  have "pattern_sig (demo_sign m (demo_key c))" for m
  proof -
    let ?n = "dec_of_nat (length m mod 1000)"
    have "list_all is_b64url ?n" using digits_dec_of_nat [of "length m mod 1000"]
      by (auto simp: list_all_iff is_b64url_def)
    moreover have "length ?n \<le> 43"
    proof -
      have "\<forall>k \<in> set [0..<1000]. length (dec_of_nat k) \<le> 43" by (simp add: dec_of_nat.simps)
      then show ?thesis by simp
    qed
    moreover have "is_b64url CHR ''0''" by (simp add: is_b64url_def is_digit_def)
    ultimately show ?thesis using c by (auto simp: pattern_b64_def demo_sign_def demo_key_def padStart_def list_all_iff)
  qed
  moreover have "pattern_key (demo_key c)" using c by (simp add: pattern_b64_def demo_key_def list_all_iff)
  ultimately show ?thesis
    using demo_sign_ok [of c] by (simp add: wallet_ok_def demo_crypto_def demo_wallet_def getPublicKey_def wallet_sign_def)
qed

section \<open>The node at work\<close>

lemma demo_online: "isOnline demo_cfg own 100000 demo_net (demo_key c) \<longleftrightarrow> own = demo_key c \<or> c \<in> set ''abc''"
  by (auto simp: isOnline_def demo_net_def demo_cfg_def jm_get_or_def jm_get_def)

lemma demo_calcValidator:
  assumes "nd_net s = Some demo_net"
  shows "calcValidator demo_crypto demo_cfg demo_env (demo_chain ''abc'') s
    = Inr (upd_fac (\<lambda>f. f\<lparr>validator := demo_key CHR ''b''\<rparr>) s)"
proof -
  have a: "map p_publicKey (arrayNetwork demo_net) = map demo_key ''abc''" by (simp add: demo_net_def demo_peer_def)
  have i: "nat (ch_height (demo_chain ''abc'') mod int (length (map demo_key ''abc''))) = 1"
    by (simp add: demo_chain_fields)
  have n: "map demo_key ''abc'' ! 1 = demo_key CHR ''b''" by simp
  have o: "isOnline demo_cfg own 100000 demo_net (map demo_key ''abc'' ! 1)" for own
    unfolding n by (simp add: demo_online)
  have "next_online (isOnline demo_cfg own 100000 demo_net) (map demo_key ''abc'') 1 = Some 1" for own
    by (rule next_online_stop) (use o in simp_all)
  then show ?thesis
    using assms o unfolding calcValidator_def calcValidator_of_def net_of_def
    by (simp only: option.case bindr_simps a i Let_def demo_env_def env.select_convs) simp
qed

lemma demo_send_all:
  assumes "msg_origin m = demo_key CHR ''a''"
  shows "\<exists>xs. broadcast (demo_chain ''abc'') demo_net m False = Inr xs"
  using send_all_Inr [of "demo_chain ''abc''" demo_net m "map demo_key ''bc''"] assms
  by (simp add: broadcast_def demo_net_def)

lemma demo_own_key: "own_key demo_crypto demo_node = demo_key CHR ''a''" "getPublicKey demo_crypto (demo_wallet c) = demo_key c"
  by (simp_all add: own_key_def demo_node_def getPublicKey_def demo_crypto_def demo_wallet_def)

lemma demo_stack:
  assumes "validateTx demo_crypto (chain_new [] [] []) 2 (Transaction_make demo_crypto (demo_wallet CHR ''a'') 2 ''ident123'' cs)"
    and "\<forall>c \<in> set cs. case c of Decision s n h d \<Rightarrow> False | _ \<Rightarrow> True"
  shows "\<exists>s'. stack demo_crypto demo_cfg demo_env (demo_chain ''abc'') cs [] demo_node = Inr (Some ''ident123'', s') \<and>
    ownTx (nd_fac s') \<noteq> None \<and> nd_net s' = Some demo_net"
proof -
  let ?tx = "Transaction_make demo_crypto (demo_wallet CHR ''a'') 2 ''ident123'' cs"
  have h: "ch_height (demo_chain ''abc'') = 1" by (rule demo_chain_fields)
  have v: "validateTx demo_crypto (demo_chain ''abc'') 2 ?tx"
    using assms by (auto simp: validateTx_iff Transaction_make_def command_allowed_def split: command.splits)
  let ?s = "upd_fac (\<lambda>f. f\<lparr>stackTransaction := [], ownTx := Some (2, ?tx), validator := demo_key CHR ''b''\<rparr>) demo_node"
  obtain xs where x: "broadcast (demo_chain ''abc'') demo_net (AddTx_create demo_crypto (demo_wallet CHR ''a'') 100000 (demo_key CHR ''b'') 2 ?tx)
      False = Inr xs"
    using demo_send_all [of "AddTx_create demo_crypto (demo_wallet CHR ''a'') 100000 (demo_key CHR ''b'') 2 ?tx"]
    by (auto simp: AddTx_create_def Message_init_def demo_own_key)
  have "calcValidator demo_crypto demo_cfg demo_env (demo_chain ''abc'')
      (demo_node\<lparr>nd_fac := (nd_fac demo_node)\<lparr>stackTransaction := [], ownTx := Some (2, ?tx)\<rparr>\<rparr>) = Inr ?s"
    by (subst demo_calcValidator) (simp_all add: demo_node_def)
  then show ?thesis
    using v x by (simp add: stack_def doAddTx_def h Let_def demo_env_def demo_node_def factory_new_def isValidator_def
        own_key_def demo_own_key send_def net_of_def)
qed

end
