(* ===== verification/Bootstrap_Theorems.thy ===== *)
theory Bootstrap_Theorems
  imports Bootstrap Node_Samples
begin

text \<open>
  Properties of \<open>src/net/bootstrap.ts\<close>: whom a node proposes as a peer, what an answer to a
  challenge proves, what can go wrong between two joins, and when \<open>syncWithNetwork\<close> does
  not return.
\<close>

section \<open>Joining\<close>

text \<open>A refused stack changes nothing.\<close>

lemma stackTx_refused: "stackTx C cfg env ch cs ident s = Inr (None, s') \<Longrightarrow> s' = s"
  by (auto simp: stackTx_def stack_def Let_def split: if_splits)

lemma Bootstrap_confirm_cases:
  assumes "Bootstrap_confirm C cfg env ch http udp k g (bt, s) = Inr (ok, bt', s')"
  obtains (refused) "\<not> ok" "bt' = bt" "s' = s"
    | (proposed) token sig r where "ok" "jm_get (mapToken bt) k = Some token" "token \<noteq> []" "g = Some sig"
        "verifySignature C k sig token"
        "stackTx C cfg env ch [AddPeer (Some 1) http udp k] [] s = Inr (Some r, s')"
        "bt' = bt\<lparr>mapToken := jm_delete k (mapToken bt)\<rparr>"
proof (cases ok)
  case True
  then show ?thesis using assms proposed
    by (auto simp: Bootstrap_confirm_def Let_def jm_get_or_def split: if_splits option.splits)
next
  case False
  then have "bt' = bt" "s' = s"
    using assms by (auto simp: Bootstrap_confirm_def Let_def dest: stackTx_refused split: if_splits)
  then show ?thesis using False refused by blast
qed



text \<open>The number of retries is never counted up: in every state a node can reach, a challenge under way has the
  count 0, so every failing answer leads to another \<open>join\<close> for the same key, without the limit of 10.\<close>

theorem retry_is_never_counted:
  assumes "boot_run C cfg (ch, bt, s)" and "c \<in> set (asked bt)" and "json_truthy j"
    and "Bootstrap_confirm C cfg env ch (c_http c) (c_udp c) (c_publicKey c) (str_field ''token'' j)
      (bt\<lparr>asked := remove1 c (asked bt)\<rparr>, s) = Inr (False, bt1, s1)"
  shows "c_retry c = 0 \<and> (\<exists>bt'. challenge_reply C cfg env ch c (Some j) (bt, s) = Inr (bt', s) \<and> rejoin bt' = rejoin bt @ [c])"
proof -
  have r: "c_retry c = 0" using boot_run_no_retry [OF assms(1)] assms(2) by (auto simp: no_retry_def)
  from assms(4) have "bt1 = bt\<lparr>asked := remove1 c (asked bt)\<rparr>" "s1 = s"
    by (cases rule: Bootstrap_confirm_cases; simp)+
  then show ?thesis using r assms(3,4) by (simp add: challenge_reply_def MAX_RETRY_JOIN_def)
qed

text \<open>A join ends the challenge of the join before it: if a node accepted the join of one key, any further join for
  another key within the waiting time, accepted or not, cancels the pending challenge and leaves its token behind, so
  that the first key is refused when it asks again.\<close>

theorem join_ends_pending_challenge:
  assumes "Bootstrap_join t1 ch h1 u1 k1 0 bt = (True, bt1)" and "Bootstrap_join t2 ch h2 u2 k2 0 bt1 = (ok, bt2)"
    and "k1 \<noteq> k2"
  shows "(\<forall>c. timeoutChallenge bt2 = Some c \<longrightarrow> c_publicKey c \<noteq> k1) \<and> asked bt2 = asked bt \<and>
    fst (Bootstrap_join t3 ch h1 u1 k1 0 bt2) = False"
  using assms by (auto simp: Bootstrap_join_def Let_def split: if_splits)

section \<open>Texts that are signed\<close>

lemma length_concat_esc: "length s \<le> length (concat (map esc_char s))"
proof (induction s)
  case (Cons c s)
  have "1 \<le> length (esc_char c)" by (simp add: esc_char_def)
  then show ?case using Cons by simp
qed simp

lemma length_quote: "length s + 2 \<le> length (quote s)"
  using length_concat_esc [of s] by (simp add: quote_def)

lemma length_join_ge: "sum_list (map length xs) \<le> length (join sep xs)"
  by (induction sep xs rule: join.induct) auto

lemma length_object: "sum_list (map (\<lambda>(k, v). length k + length (stringify v) + 3) fs) + 2 \<le> length (stringify (JObj fs))"
proof -
  have "sum_list (map (\<lambda>(k, v). length k + length (stringify v) + 3) fs)
      \<le> sum_list (map (\<lambda>(k, v). length (quote k @ '':'' @ stringify v)) fs)"
    by (rule sum_list_mono) (use length_quote in \<open>auto simp: add.commute intro: order_trans\<close>)
  also have "\<dots> = sum_list (map length (map (\<lambda>(k, v). quote k @ '':'' @ stringify v) fs))"
    by (simp add: split_def o_def)
  also have "\<dots> \<le> length (join '','' (map (\<lambda>(k, v). quote k @ '':'' @ stringify v) fs))" by (rule length_join_ge)
  finally show ?thesis by simp
qed

text \<open>The text of a command that passes the schema is longer than a token.\<close>

lemma length_fields:
  assumes "32 \<le> sum_list (map (\<lambda>(k, v). length k + length (stringify v) + 3) fs)"
  shows "32 < length (stringify (JObj fs))"
  using length_object [of fs] assms by linarith

lemma length_seq_field: "7 \<le> sum_list (map (\<lambda>(k, v). length k + length (stringify v) + 3) (seq_field (Some i)))"
proof -
  have "0 < length (dec_of_int i)" by simp
  then show ?thesis by (simp add: seq_field_def del: length_greater_0_conv)
qed

lemma length_command:
  assumes "cmd_seq c = Some i" and "schema_command c"
  shows "32 < length (stringify (json_of_command c))"
proof -
  note q = length_quote and l = length_seq_field [of i]
  show ?thesis
  proof (cases c)
    case (AddPeer s h u k)
    then show ?thesis using assms l q [of "''addPeer''"] q [of h] q [of u] q [of k]
      unfolding AddPeer json_of_command.simps by (intro length_fields) simp
  next
    case (RemovePeer s k)
    then show ?thesis using assms l q [of "''removePeer''"] q [of k]
      unfolding RemovePeer json_of_command.simps by (intro length_fields) simp
  next
    case (ModifyStake s k j n)
    then show ?thesis using assms l q [of "''modifyStake''"] q [of k] q [of j]
      unfolding ModifyStake json_of_command.simps by (intro length_fields) simp
  next
    case (Data s n d)
    then show ?thesis using assms l q [of "''data''"] q [of n] q [of d]
      unfolding Data json_of_command.simps by (intro length_fields) simp
  next
    case (Decision s n h d)
    then show ?thesis using assms l q [of "''decision''"] q [of n] q [of d]
      unfolding Decision json_of_command.simps by (intro length_fields) simp
  qed (use assms in simp)
qed

lemma length_signed_data:
  assumes "commands \<noteq> []" and "list_all schema_command commands"
  shows "32 < length (signed_data h commands)"
proof -
  obtain c cs where c: "commands = c # cs" using assms(1) by (cases commands) auto
  then have "schema_command c" using assms(2) by simp
  then obtain i where "cmd_seq c = Some i"
    by (cases c) (auto simp: schema_add_peer_def schema_remove_peer_def schema_modify_stake_def schema_data_def
        schema_decision_def schema_seq_def split: option.splits)
  then have "32 < length (stringify (json_of_command c))" using \<open>schema_command c\<close> by (rule length_command)
  moreover have "length (stringify (json_of_command c)) \<le> length (stringify (json_of_commands commands))"
    using length_join_ge [of "map stringify (map json_of_command commands)" "'',''"] by (simp add: json_of_commands_def c)
  ultimately show ?thesis by (simp add: signed_data_def)
qed

text \<open>What a node signs in answer to a challenge is never a vote nor a transaction: the signed token equals neither
  the hash of a block nor the signed text of any height with a list of valid commands, so a challenger cannot use the
  answer on the chain.\<close>

theorem challenge_signs_no_vote_or_transaction:
  assumes "Bootstrap_challenge C w token bt = (answer, bt')" and "answer \<noteq> []"
  shows "answer = wallet_sign C w token \<and> \<not> pattern_key token \<and>
    (\<forall>h commands. commands \<noteq> [] \<and> list_all schema_command commands \<longrightarrow> token \<noteq> signed_data h commands)"
proof -
  have t: "answer = wallet_sign C w token" "length token = 32"
    using assms by (auto simp: Bootstrap_challenge_def Let_def LENGTH_TOKEN_def split: if_splits)
  then have "\<not> pattern_key token" by (simp add: pattern_b64_def)
  moreover have "token \<noteq> signed_data h cs" if "cs \<noteq> []" "list_all schema_command cs" for h cs
    using length_signed_data [OF that, of h] t(2) by auto
  ultimately show ?thesis using t(1) by blast
qed

section \<open>Synchronisation that does not return\<close>

lemma add_each_refused:
  assumes "\<And>b cr s. chain_add C L cfg (proposeModifyStake C cfg env) (env_now env) b (ch, cr, s) = Inr (False, b, ch, cr, s)"
  shows "add_each C L cfg env bs (ch, cr, s) = Inr (ch, cr, s)"
  by (induction bs) (simp_all add: assms)

lemma fetch_loop_known:
  "\<forall>pk \<in> set pks. hasPeer ch pk \<Longrightarrow> \<exists>r. fetch_loop fetch toB32 ch endpoint pks = Inr r"
  by (induction pks) (auto simp: hasPeer_def getPeer_def split: option.split sum.split)

lemma fetchFromApi_known:
  "\<forall>pk \<in> set (arrayBroadcast n). hasPeer ch pk \<Longrightarrow> \<exists>r. fetchFromApi fetch toB32 ch n endpoint = Inr r"
  using fetch_loop_known by (auto simp: fetchFromApi_def)

text \<open>Rounds that leave the state alone go on for ever.\<close>

lemma sync_loop_stuck:
  assumes round: "\<And>k h. sync_round C L cfg env (fetch k) toB32 h st = Inr st"
    and latest: "latestBlock (fst st) = Some b" "blk_height b < height" and h: "h < height"
  shows "sync_loop C L cfg env fetch toB32 height k h st = None"
proof (rule ccontr)
  assume "sync_loop C L cfg env fetch toB32 height k h st \<noteq> None"
  then obtain r where r: "sync_loop C L cfg env fetch toB32 height k h st = Some r" by blast
  have "C = C \<longrightarrow> L = L \<longrightarrow> cfg = cfg \<longrightarrow> env = env \<longrightarrow> fetch = fetch \<longrightarrow> toB32 = toB32 \<longrightarrow> height = height \<longrightarrow> h < height
      \<longrightarrow> st = st \<longrightarrow> False"
    by (rule sync_loop.raw_induct [where P = "\<lambda>C0 L0 cfg0 env0 fetch0 toB0 height0 k h st0 r.
          C0 = C \<longrightarrow> L0 = L \<longrightarrow> cfg0 = cfg \<longrightarrow> env0 = env \<longrightarrow> fetch0 = fetch \<longrightarrow> toB0 = toB32 \<longrightarrow> height0 = height \<longrightarrow> h < height
          \<longrightarrow> st0 = st \<longrightarrow> False", OF _ r])
      (use round latest in \<open>fastforce split: if_splits\<close>)
  then show False using h by simp
qed

lemma chain_reset_latest:
  assumes "level_ok L" and "chain_reset L cfg propose now g (ch, cr, s) = Inr (ch', cr', s')"
  shows "\<exists>b. latestBlock ch' = Some b \<and> blk_height b = blk_height g"
proof -
  let ?ch = "updateBlockData L (block_key 1) (block_text g) (chain_clear L ch)"
  have v: "lv_values L (dbBlockchain ?ch) = [block_text g]"
    using level_put_last [OF assms(1), of "lv_clear L (dbBlockchain ch)" "block_key 1" "block_text g"] level_okD(5) [OF assms(1)]
    by (simp add: lv_values_def updateBlockData_def chain_clear_def)
  obtain ch0 where "init_loop L cfg propose now [block_text g] (ch0, cr, s) = Inr (ch', cr', s')"
    using assms(2) v by (auto simp: chain_reset_def chain_init_def Let_def)
  then obtain ch1 cr1 s1 where "(case processState L cfg now g (ch1, cr1) of (b', ch2, cr2) \<Rightarrow>
      Inr (refresh_cached b' ch2, cr2, s1)) = (Inr (ch', cr', s') :: _ result)"
    unfolding init_loop_one by auto
  then show ?thesis using processState_block(1) [of L cfg now g "(ch1, cr1)"]
    by (auto simp: refresh_cached_def split: prod.splits)
qed

text \<open>C26: A node whose chain is in use, which \<open>Server.start\<close> has made of every bootstrapping node by resetting it to its
  genesis file, never returns from \<open>syncWithNetwork\<close> once it finds another latest block in the network: the second
  reset leaves the old total in \<open>quorumWeighted\<close>, no fetched block is accepted, and the loop asks on for ever,
  whatever the network answers.\<close>

theorem bootstrap_sync_never_returns:
  assumes run: "chain_run C L cfg (proposeModifyStake C cfg env) pk bs ch cr0 s0" and L: "level_ok L"
    and m: "1 \<le> blockchain_max_blocks_in_memory cfg" and n: "nd_net s = Some n"
    and latest: "fetchFromApi (fetch 0) toB32 ch n ''block/latest'' = Inr j1" "reply_block j1 = Some bn"
      "map_option blk_hash (latestBlock ch) \<noteq> Some (blk_hash bn)"
    and genesis: "fetchFromApi (fetch 1) toB32 ch n ''block/genesis'' = Inr j2" "reply_block j2 = Some g"
    and ahead: "blk_height g < blk_height bn" "1 < blk_height bn"
    and reset: "chain_reset L cfg (proposeModifyStake C cfg env) (env_now env) g (ch, cr, s) = Inr (ch', cr', s')"
    and total: "jm.total p_stake (mapPeer ch') \<le> quorumWeighted ch"
    and known: "nd_net s' = Some n'" "\<forall>pk \<in> set (arrayBroadcast n'). hasPeer ch' pk"
  shows "syncWithNetwork C L cfg env fetch toB32 (ch, cr, s) = Inl NoReturn"
proof -
  have "sync_round C L cfg env (fetch k) toB32 h (ch', cr', s') = Inr (ch', cr', s')" for k h
  proof -
    obtain j where "fetchFromApi (fetch k) toB32 ch' n' (''sync/'' @ dec_of_int (h + 1)) = Inr j"
      using fetchFromApi_known [OF known(2)] by blast
    moreover have "add_each C L cfg env blocks (ch', cr', s') = Inr (ch', cr', s')" for blocks
      by (intro add_each_refused reset_refuses [OF chain_run.other [OF run, of cr s] L m reset total, THEN conjunct2])
    ultimately show ?thesis by (simp add: sync_round_def net_of_def known(1))
  qed
  moreover obtain b where "latestBlock ch' = Some b" "blk_height b = blk_height g"
    using chain_reset_latest [OF L reset] by blast
  ultimately have "sync_loop C L cfg env fetch toB32 (blk_height bn) 2 1 (ch', cr', s') = None"
    using ahead by (intro sync_loop_stuck [where b = b]) simp_all
  then show ?thesis using n latest genesis reset by (simp add: syncWithNetwork_def net_of_def)
qed

section \<open>Concrete runs\<close>

definition demo_token :: string where
  "demo_token = replicate 32 (CHR ''t'')"

definition demo_boot_state :: boot where
  "demo_boot_state = snd (Bootstrap_join demo_token (demo_chain ''abc'') ''http-d'' ''udp-d'' (demo_key CHR ''d'') 0 boot_new)"

definition demo_challenge :: challenge where
  "demo_challenge = \<lparr>c_http = ''http-d'', c_udp = ''udp-d'', c_publicKey = demo_key CHR ''d'', c_token = demo_token, c_retry = 0\<rparr>"

lemma pattern_demo_key: "is_b64url c \<Longrightarrow> pattern_key (demo_key c)"
  by (simp add: pattern_b64_def demo_key_def list_all_iff)

lemma b64url_d: "is_b64url CHR ''d''" "is_b64url CHR ''e''"
  by code_simp+

lemma demo_join:
  "Bootstrap_join demo_token (demo_chain ''abc'') ''http-d'' ''udp-d'' (demo_key CHR ''d'') 0 boot_new = (True, demo_boot_state)"
  "jm_get (mapToken demo_boot_state) (demo_key CHR ''d'') = Some demo_token"
  "timeoutChallenge demo_boot_state = Some demo_challenge" "asked demo_boot_state = []" "rejoin demo_boot_state = []"
  using pattern_demo_key [OF b64url_d(1)]
  by (simp_all add: demo_boot_state_def Bootstrap_join_def boot_new_def demo_challenge_def Let_def)

definition demo_asked :: boot where
  "demo_asked = fire_challenge demo_boot_state"

lemma demo_asked:
  "asked demo_asked = [demo_challenge]" "mapToken demo_asked = mapToken demo_boot_state" "rejoin demo_asked = []"
  by (simp_all add: demo_asked_def fire_challenge_def demo_join)

lemma demo_asked_run: "boot_run demo_crypto demo_cfg (demo_chain ''abc'', demo_asked, demo_node)"
proof -
  have "boot_run demo_crypto demo_cfg (demo_chain ''abc'', demo_boot_state, demo_node)"
    unfolding demo_boot_state_def by (rule boot_run.step [OF boot_run.init boot_step.join])
  then show ?thesis unfolding demo_asked_def by (rule boot_run.step) (rule boot_step.timer)
qed

definition demo_answer :: string where
  "demo_answer = wallet_sign demo_crypto (demo_wallet CHR ''d'') demo_token"

lemma demo_stack_peer:
  "\<exists>s'. stackTx demo_crypto demo_cfg demo_env (demo_chain ''abc'') [AddPeer (Some 1) ''http-d'' ''udp-d'' (demo_key CHR ''d'')] []
     demo_node = Inr (Some ''ident123'', s') \<and> s' \<noteq> demo_node"
proof -
  let ?c = "AddPeer (Some 1) ''http-d'' ''udp-d'' (demo_key CHR ''d'')"
  have "validateTx demo_crypto (chain_new [] [] [] :: (string \<times> string) list chain) 2
      (Transaction_make demo_crypto (demo_wallet CHR ''a'') 2 ''ident123'' [?c])" by code_simp
  from demo_stack [OF this] show ?thesis by (auto simp: stackTx_def demo_node_def factory_new_def)
qed

lemma demo_reply_runs:
  "\<exists>bt' s'. challenge_reply demo_crypto demo_cfg demo_env (demo_chain ''abc'') demo_challenge
     (Some (JObj [(''token'', JStr demo_answer)])) (demo_asked, demo_node) = Inr (bt', s') \<and> s' \<noteq> demo_node"
proof -
  have "verifySignature demo_crypto (demo_key CHR ''d'') demo_answer demo_token"
    using verify_own [OF demo_sign_ok [of "CHR ''d''"], of demo_token] by (simp add: demo_answer_def demo_own_key)
  moreover have "demo_token \<noteq> []" by (simp add: demo_token_def)
  moreover obtain s' where "stackTx demo_crypto demo_cfg demo_env (demo_chain ''abc'')
      [AddPeer (Some 1) ''http-d'' ''udp-d'' (demo_key CHR ''d'')] [] demo_node = Inr (Some ''ident123'', s')" "s' \<noteq> demo_node"
    using demo_stack_peer by blast
  ultimately show ?thesis
    by (simp add: challenge_reply_def Bootstrap_confirm_def jm_get_or_def demo_asked demo_join Let_def
        demo_challenge_def str_field_def)
qed



theorem retry_is_never_counted_witness:
  "\<exists>bt'. challenge_reply demo_crypto demo_cfg demo_env (demo_chain ''abc'') demo_challenge (Some (JObj [])) (demo_asked, demo_node)
     = Inr (bt', demo_node) \<and> rejoin bt' = [demo_challenge]"
proof -
  have c: "Bootstrap_confirm demo_crypto demo_cfg demo_env (demo_chain ''abc'') (c_http demo_challenge) (c_udp demo_challenge)
      (c_publicKey demo_challenge) (str_field ''token'' (JObj [])) (demo_asked\<lparr>asked := remove1 demo_challenge (asked demo_asked)\<rparr>, demo_node)
      = Inr (False, demo_asked\<lparr>asked := remove1 demo_challenge (asked demo_asked)\<rparr>, demo_node)"
    by (simp add: Bootstrap_confirm_def str_field_def Let_def)
  have "demo_challenge \<in> set (asked demo_asked)" by (simp add: demo_asked)
  from retry_is_never_counted [OF demo_asked_run this _ c] show ?thesis by (simp add: demo_asked)
qed

theorem join_ends_pending_challenge_witness:
  "fst (Bootstrap_join demo_token (demo_chain ''abc'') ''http-d'' ''udp-d'' (demo_key CHR ''d'') 0
     (snd (Bootstrap_join demo_token (demo_chain ''abc'') [] [] (demo_key CHR ''e'') 0 demo_boot_state))) = False"
proof -
  have "Bootstrap_join demo_token (demo_chain ''abc'') [] [] (demo_key CHR ''e'') 0 demo_boot_state
      = (False, snd (Bootstrap_join demo_token (demo_chain ''abc'') [] [] (demo_key CHR ''e'') 0 demo_boot_state))"
    by (simp add: Bootstrap_join_def Let_def)
  from join_ends_pending_challenge [OF demo_join(1) this] show ?thesis by simp
qed

theorem challenge_signs_no_vote_or_transaction_witness:
  "demo_answer \<noteq> [] \<and> \<not> pattern_key demo_token"
proof -
  have a: "Bootstrap_challenge demo_crypto (demo_wallet CHR ''d'') demo_token (boot_new\<lparr>isJoiningNetwork := True\<rparr>)
      = (demo_answer, boot_new)"
    by (simp add: Bootstrap_challenge_def demo_answer_def demo_token_def LENGTH_TOKEN_def boot_new_def Let_def)
  have n: "demo_answer \<noteq> []"
    by (simp add: demo_answer_def wallet_sign_def demo_crypto_def demo_sign_def demo_wallet_def demo_key_def)
  from challenge_signs_no_vote_or_transaction [OF a n] n show ?thesis by blast
qed

text \<open>The sample chain on a node, reset a second time while the network holds one more block.\<close>

lemma demo_reset_node:
  fixes s :: 's and ch :: "(string \<times> string) list chain"
  assumes "ledger_view ch = ledger_view (demo_chain ''abc'')"
  shows "\<exists>ch' cr'. chain_reset mem_level demo_cfg propose now (demo_genesis ''abc'') (ch, cr, s) = Inr (ch', cr', s) \<and>
    jm.total p_stake (mapPeer ch') = 3 \<and> mapPeer ch' = mapPeer (demo_chain ''abc'')"
proof -
  let ?ch = "(updateBlockData mem_level (block_key 1) (block_text (demo_genesis ''abc''))
      (chain_clear mem_level ch))\<lparr>ch_height := 0, mapBlocks := jm_empty, latestBlock := None,
        dbState := lv_clear mem_level (dbState (updateBlockData mem_level (block_key 1)
          (block_text (demo_genesis ''abc'')) (chain_clear mem_level ch)))\<rparr>"
  have v: "lv_values mem_level (dbBlockchain ?ch) = [block_text (demo_genesis ''abc'')]"
    by (simp add: updateBlockData_def chain_clear_def lv_values_def mem_level_def mem_entries_def)
  have "list_all quiet [demo_genesis ''abc'']" using demo_quiet by simp
  from init_loop_quiet [OF this, of mem_level demo_cfg propose now ?ch cr s] obtain ch' cr' where
    i: "init_loop mem_level demo_cfg propose now [block_text (demo_genesis ''abc'')] (?ch, cr, s) = Inr (ch', cr', s)"
    by auto
  let ?r = "fst (replay null_level [demo_genesis ''abc''] (chain_new [] () (), []))"
  let ?o = "fst (replay null_level [demo_genesis ''abc''] (?r\<lparr>mapPeer := jm_empty\<rparr>, []))"
  have "ledger_view ?ch = ledger_view (?r\<lparr>mapPeer := jm_empty\<rparr>)"
    using demo_chain_view assms by (simp add: ledger_view_eq updateBlockData_def chain_clear_def)
  with i have "ledger_view ch' = ledger_view ?o" by (rule init_loop_one_view)
  moreover have "jm.total p_stake (mapPeer ?o) = 3" "mapPeer ?o = map (\<lambda>c. (demo_key c, demo_peer c)) ''abc''"
    unfolding jm.total_def by code_simp+
  ultimately have "jm.total p_stake (mapPeer ch') = 3" "mapPeer ch' = mapPeer (demo_chain ''abc'')"
    by (simp_all add: ledger_view_eq demo_mapPeer)
  moreover have "chain_reset mem_level demo_cfg propose now (demo_genesis ''abc'') (ch, cr, s) = Inr (ch', cr', s)"
    unfolding chain_reset_def chain_init_def Let_def prod.case v by (rule i)
  ultimately show ?thesis by blast
qed

definition demo_fetch :: "nat \<Rightarrow> string \<Rightarrow> string option" where
  "demo_fetch k url = Some (block_text (if k = 0 then demo_block2 else demo_genesis ''abc''))"

lemma demo_fetched:
  assumes "mapPeer ch = mapPeer (demo_chain ''abc'')" and "\<not> is_prefix ''http://'' endpoint"
  shows "fetchFromApi (demo_fetch k) id ch demo_net endpoint
    = Inr (Some (json_of_block (if k = 0 then demo_block2 else demo_genesis ''abc'')))"
proof -
  have "getPeer ch (demo_key CHR ''b'') = Some (demo_peer CHR ''b'')"
    using demo_getPeer [of "CHR ''b''"] assms(1) by (simp add: getPeer_def)
  then show ?thesis using assms(2)
    by (simp add: fetchFromApi_def demo_fetch_def demo_net_def block_text_def)
qed

theorem bootstrap_sync_never_returns_witness:
  "\<exists>ch cr. syncWithNetwork demo_crypto mem_level demo_cfg demo_env demo_fetch id (ch, cr, demo_node) = Inl NoReturn"
proof -
  let ?p = "proposeModifyStake demo_crypto demo_cfg demo_env"
  let ?m = "blockchain_max_blocks_in_memory demo_cfg"
  obtain ch cr where b: "chain_reset mem_level demo_cfg ?p 0 (demo_genesis ''abc'')
      (chain_new (demo_key CHR ''a'') [] [], [], demo_node) = Inr (ch, cr, demo_node)"
    using chain_reset_quiet [OF mem_level_ok demo_quiet [of "''abc''"], of demo_cfg ?p 0 "demo_key CHR ''a''" "[]" "[]" "[]" demo_node]
    by blast
  have run: "chain_run demo_crypto mem_level demo_cfg ?p (demo_key CHR ''a'') [demo_genesis ''abc''] ch cr demo_node"
    using demo_genesis_height b by (rule chain_run.boot)
  have ok: "chain_ok ?m [demo_genesis ''abc''] ch" using chain_run_ok [OF run mem_level_ok demo_max] by simp
  then have v: "ledger_view ch = ledger_view (demo_chain ''abc'')" using demo_chain_ok(1) by (simp add: chain_ok_def)
  obtain ch' cr' where r: "chain_reset mem_level demo_cfg ?p (env_now demo_env) (demo_genesis ''abc'') (ch, cr, demo_node)
      = Inr (ch', cr', demo_node)" "jm.total p_stake (mapPeer ch') = 3" "mapPeer ch' = mapPeer (demo_chain ''abc'')"
    using demo_reset_node [OF v, of ?p "env_now demo_env" cr demo_node] by blast
  have q: "quorumWeighted ch = 3"
  proof -
    have "quorumWeighted (fst (replay null_level [demo_genesis ''abc''] (chain_new [] () (), []))) = 3" by code_simp
    then show ?thesis using v demo_chain_view by (simp add: ledger_view_eq)
  qed
  have mp: "mapPeer ch = mapPeer (demo_chain ''abc'')" using v by (simp add: ledger_view_eq)
  have ne: "map_option blk_hash (latestBlock ch) \<noteq> Some (blk_hash demo_block2)"
  proof -
    have "map_option blk_hash (latestBlock ch) = Some (demo_hash [])"
      using ok by (simp add: chain_ok_def latest_is_def demo_genesis_def Let_def)
    moreover have "blk_hash demo_block2 = demo_hash (block_hash_input 7 (demo_hash []) [demo_data CHR ''a'' 2] 2)"
      by (simp add: demo_block2_def demo_next_def demo_block_def Block_make_def demo_genesis_def Util_hash_def demo_crypto_def
          Let_def BLOCK_VERSION_def)
    ultimately show ?thesis by (auto simp: demo_hash_eq block_hash_input_def)
  qed
  have known: "\<forall>pk \<in> set (arrayBroadcast demo_net). hasPeer ch' pk"
    using r(3) demo_hasPeer by (simp add: demo_net_def hasPeer_def)
  have f: "fetchFromApi (demo_fetch 0) id ch demo_net ''block/latest'' = Inr (Some (json_of_block demo_block2))"
    "fetchFromApi (demo_fetch 1) id ch demo_net ''block/genesis'' = Inr (Some (json_of_block (demo_genesis ''abc'')))"
    using demo_fetched [OF mp, of "''block/latest''" 0] demo_fetched [OF mp, of "''block/genesis''" 1] by simp_all
  have n: "nd_net demo_node = Some demo_net" by (simp add: demo_node_def)
  have rb: "reply_block (Some (json_of_block b)) = Some b" for b by (simp add: reply_block_def)
  have a: "blk_height (demo_genesis ''abc'') < blk_height demo_block2" "1 < blk_height demo_block2"
    by (simp_all add: demo_genesis_height demo_block2_height)
  have t: "jm.total p_stake (mapPeer ch') \<le> quorumWeighted ch" using r(2) q by simp
  show ?thesis
    using bootstrap_sync_never_returns [OF run mem_level_ok demo_max n f(1) rb ne f(2) rb a r(1) t n known] by blast
qed

end
