(* ===== verification/Node_Theorems.thy ===== *)
theory Node_Theorems
  imports Node_Frame Bootstrap_Theorems Chain_Queries
begin

text \<open>
  Properties of the node: the choice of the validator, what runs of any events keep (stored
  blocks, sequence numbers, own transactions), packets on their way between nodes, and three
  ways in which the exchange of a block can fail.
\<close>

section \<open>The validator\<close>

lemma next_online_finds:
  assumes "i < length a" and "\<exists>x \<in> set a. on x"
  shows "\<exists>k. next_online on a i = Some ((i + k) mod length a) \<and> on (a ! ((i + k) mod length a)) \<and>
    (\<forall>j < k. \<not> on (a ! ((i + j) mod length a)))"
proof -
  define P where "P = (\<lambda>k. on (a ! ((i + k) mod length a)))"
  obtain j where j: "j < length a" "on (a ! j)" using assms(2) by (auto simp: in_set_conv_nth)
  then have "(i + (j + length a - i)) mod length a = j" using assms(1) by simp
  then have "P (j + length a - i)" using j by (simp add: P_def)
  then have l: "P (LEAST k. P k)" "\<And>k. k < (LEAST k. P k) \<Longrightarrow> \<not> P k" by (auto intro: LeastI dest: not_less_Least)
  then have "next_online on a i = Some ((i + (LEAST k. P k)) mod length a)"
    using next_online_first [OF assms(1), of on "LEAST k. P k"] unfolding P_def by blast
  with l show ?thesis unfolding P_def by blast
qed

lemma calcValidator_of_decides:
  assumes b: "latestBlock ch = Some b" and l: "blk_hash b \<noteq> []" "length (blk_hash b) = length (blk_previousHash b)"
    and h: "h = nat (ch_height ch mod int (length a))"
    and d: "d = nat (diff_loop (blk_hash b) (blk_previousHash b) 0 mod int (length a))"
  shows "case calcValidator_of on a ch of
      Inl e \<Rightarrow> e = NoReturn \<and> (\<forall>x \<in> set a. \<not> on x)
    | Inr v \<Rightarrow> v \<in> set a \<and> on v \<and> (if on (a ! h) then v = a ! h
        else \<exists>k. v = a ! ((d + k) mod length a) \<and> (\<forall>j < k. \<not> on (a ! ((d + j) mod length a))))"
proof (cases "a = []")
  case True
  then show ?thesis using l next_online_None_iff [of 0 a on] by (simp add: calcValidator_of_def b stringDiff_def)
next
  case False
  then have N: "h < length a" "d < length a" by (simp_all add: h d nat_less_iff)
  show ?thesis
  proof (cases "on (a ! h)")
    case True
    then have "calcValidator_of on a ch = Inr (a ! h)"
      using False N(1) next_online_stop [of h a on] by (simp add: calcValidator_of_def h)
    then show ?thesis using True N(1) by simp
  next
    case off: False
    have v: "calcValidator_of on a ch = (case next_online on a d of None \<Rightarrow> Inl NoReturn | Some j \<Rightarrow> Inr (a ! j))"
      using False off l by (simp add: calcValidator_of_def b stringDiff_def h d)
    show ?thesis
    proof (cases "\<exists>x \<in> set a. on x")
      case True
      from next_online_finds [OF N(2) this] obtain k where "next_online on a d = Some ((d + k) mod length a)"
        "on (a ! ((d + k) mod length a))" "\<forall>j < k. \<not> on (a ! ((d + j) mod length a))" by blast
      moreover have "(d + k) mod length a < length a" using False by simp
      ultimately show ?thesis using off by (auto simp: v)
    next
      case none: False
      then have "next_online on a d = None" using next_online_None_iff [of d a on] N(2) by blast
      then show ?thesis using none by (simp add: v)
    qed
  qed
qed

text \<open>C19: \<open>calcValidator\<close> on a chain whose latest hash and previous hash have one length does not come back exactly
  when no peer of the network is online. Otherwise the validator is the peer at the height modulo the number of peers if
  that one is online, and else the first one online at or after, cyclically, the index that the two hashes give.\<close>

theorem calcValidator_decides:
  assumes n: "nd_net s = Some n" and b: "latestBlock ch = Some b"
    and l: "blk_hash b \<noteq> []" "length (blk_hash b) = length (blk_previousHash b)"
  shows "let a = map p_publicKey (arrayNetwork n); on = isOnline cfg (own_key C s) (env_now env) n; N = length a;
      h = nat (ch_height ch mod int N); d = nat (diff_loop (blk_hash b) (blk_previousHash b) 0 mod int N)
    in case calcValidator C cfg env ch s of
         Inl e \<Rightarrow> e = NoReturn \<and> (\<forall>x \<in> set a. \<not> on x)
       | Inr s' \<Rightarrow> \<exists>v. s' = upd_fac (\<lambda>f. f\<lparr>validator := v\<rparr>) s \<and> v \<in> set a \<and> on v \<and>
           (if on (a ! h) then v = a ! h
            else \<exists>k. v = a ! ((d + k) mod N) \<and> (\<forall>j < k. \<not> on (a ! ((d + j) mod N))))"
proof -
  define a on where "a = map p_publicKey (arrayNetwork n)" and "on = isOnline cfg (own_key C s) (env_now env) n"
  have c: "calcValidator C cfg env ch s = bindr (calcValidator_of on a ch) (\<lambda>v. Inr (upd_fac (\<lambda>f. f\<lparr>validator := v\<rparr>) s))"
    by (simp add: calcValidator_def net_of_def n a_def on_def)
  note d = calcValidator_of_decides [OF b l refl refl, where on = on and a = a]
  show ?thesis
  proof (cases "calcValidator_of on a ch")
    case (Inl e)
    with d c show ?thesis unfolding Let_def a_def [symmetric] on_def [symmetric] by simp
  next
    case (Inr v)
    with c have "calcValidator C cfg env ch s = Inr (upd_fac (\<lambda>f. f\<lparr>validator := v\<rparr>) s)" by simp
    with d Inr show ?thesis unfolding Let_def a_def [symmetric] on_def [symmetric] by (simp only: sum.case) blast
  qed
qed

section \<open>Runs\<close>


text \<open>C12: Once a node has processed a message, it never again processes one of the same type and origin with this or a
  lower sequence number, however its copies arrive and whatever happens in between.\<close>

theorem message_processed_once:
  assumes n: "nd_net s = Some n" and r: "receive C ch n data from = Inr (Some (pk, m))"
    and i: "incomingData C L cfg env data from (ch, cr, s) = Inr st1"
    and run: "node_run C L cfg st1 (ch2, cr2, s2)" and n2: "nd_net s2 = Some n2"
    and r2: "receive C ch2 n2 data2 from2 = Inr (Some (pk2, m2))" and k: "message_key m2 = message_key m"
  shows "msg_seq m < msg_seq m2"
proof -
  let ?n = "note_message (env_now env) pk m n"
  obtain ch1 cr1 s1 where st1: "st1 = (ch1, cr1, s1)" by (cases st1)
  obtain ch0 cr0 s0 where p: "processMessage C L cfg env m (ch, cr, s\<lparr>nd_net := Some ?n\<rparr>) = Inr (ch0, cr0, s0)"
    and e: "(ch1, cr1, s1) = (ch0, cr0, s0) \<or> (ch1 = ch0 \<and> cr1 = cr0 \<and> send ch0 m True s0 = Inr s1)"
    using i r n by (auto simp: incomingData_def net_of_def st1 split: if_splits)
  have "seq_grows (ch_height ch, s\<lparr>nd_net := Some ?n\<rparr>) (ch_height ch0, s0)" using p by (rule msg_seq.processMessage_rel)
  moreover have "seq_grows (ch_height ch0, s0) (ch_height ch1, s1)"
    using e msg_seq.send_rel msg_seq.refl by blast
  moreover have "seq_grows (ch_height ch1, s1) (ch_height ch2, s2)" using msg_seq.node_run_rel [OF run] by (simp add: st1)
  ultimately have "seq_grows (ch_height ch, s\<lparr>nd_net := Some ?n\<rparr>) (ch_height ch2, s2)" using msg_seq.trans by blast
  then have "jm_get_or (mapMsgSeq ?n) (message_key m) 0 \<le> jm_get_or (mapMsgSeq n2) (message_key m) 0"
    using n2 by (simp add: seq_le_def)
  then show ?thesis using receive_newer [OF r2] k by (simp add: note_message_def is_newer_def)
qed


section \<open>Packets\<close>

lemma receive_packed:
  assumes C: "codec_ok C" and w: "wallet_ok C w" and m: "msg_origin m = getPublicKey C w"
    and p: "Message_pack C w VERSION_4 m = Inr text"
    and n: "\<not> isClosing n" "arrayNetwork n \<noteq> []" and k: "getPublicKeyByUdp ch from \<noteq> []"
  shows "receive C ch n text from
    = Inr (if schema_message m \<and> is_newer n m then Some (getPublicKeyByUdp ch from, m) else None)"
proof -
  have u: "Message_unpack C text = json_of_message m" using C w m p by (rule unpack_pack)
  have "validateMessage (json_of_message m) = Inr (schema_message m)"
    using data_type_known [of "msg_data m"] by (simp add: validateMessage_def Message_type_of)
  then show ?thesis using n k by (simp add: receive_def u Let_def)
qed

text \<open>C22: A packet that one node made from its own message is read by a node that knows the sender's address as that
  message when it satisfies the schema and is newer than the last one of its type and origin, and ignored otherwise.\<close>

theorem packet_roundtrip:
  assumes C: "codec_ok C" and w: "wallet_ok C w" and m: "msg_origin m = getPublicKey C w"
    and p: "Message_pack C w VERSION_4 m = Inr text"
    and n: "\<not> isClosing n" "arrayNetwork n \<noteq> []" and k: "getPublicKeyByUdp ch from \<noteq> []"
  shows "receive C ch n text from
    = Inr (if schema_message m \<and> is_newer n m then Some (getPublicKeyByUdp ch from, m) else None)"
  using assms by (rule receive_packed)

text \<open>A datagram from the address of a known peer that is no packet, or whose version, coding or signature is wrong,
  makes \<open>incomingData\<close> throw instead of being ignored; the empty datagram does.\<close>

lemma garbage_throws:
  assumes n: "nd_net s = Some n" "\<not> isClosing n" "arrayNetwork n \<noteq> []" and k: "getPublicKeyByUdp ch from \<noteq> []"
    and g: "data = [] \<or> match_packet (trim data) = None \<or>
      (\<exists>v t g. match_packet (trim data) = Some (v, t, g) \<and> (int (nat_of_dec v) \<noteq> VERSION_4 \<or> b64_parse C False t = None \<or>
         (\<exists>j r. Option.bind (b64_parse C False t) (inflate_raw C) = Some (stringify j) \<and> str_field ''origin'' j = Some r \<and>
            \<not> verifySignature C r g t)))"
  shows "incomingData C L cfg env data from (ch, cr, s) = Inl TypeError"
proof -
  have "match_packet (trim []) = None" by code_simp
  then have "Message_unpack C data = empty_message"
    using g by (auto simp: Message_unpack_def json_parse_stringify)
  then show ?thesis using n k validateMessage_empty by (simp add: incomingData_def net_of_def receive_def Let_def)
qed

section \<open>Blocks that fail\<close>

text \<open>C33: The validator keeps transactions by the origin of the message that brought them. A peer that sends a
  transaction of another one under its own name gets a second transaction of one origin into the pool, and the block
  proposed from such a pool is invalid for every node.\<close>

theorem pool_takes_two_of_one_origin:
  assumes "h = ch_height ch + 1" and "\<not> hasBlock (nd_fac s)" and "current (nd_fac s) = jm_empty" and "r1 \<noteq> r2"
    and "validateTx C ch h t1" and "validateTx C ch h t2" and "tx_origin t1 = tx_origin t2"
  shows "let s' = processAddTx C ch r2 h t2 (processAddTx C ch r1 h t1 s)
    in mset (arrayPoolTx (nd_fac s')) = {#t1, t2#} \<and> timeoutProposeBlock (nd_fac s') \<and>
       (\<forall>latest votes. \<not> validateBlock C ch (Block_make C latest (arrayPoolTx (nd_fac s'))) votes)"
proof -
  let ?s1 = "processAddTx C ch r1 h t1 s"
  have c1: "current (nd_fac ?s1) = [(r1, t1)]" "hasBlock (nd_fac ?s1) = hasBlock (nd_fac s)"
    using assms(1-3,5) by (simp_all add: processAddTx_def Let_def hasBlock_def) (simp add: jm_set_def jm_empty_def)
  let ?s2 = "processAddTx C ch r2 h t2 ?s1"
  have "\<not> jm_has [(r1, t1)] r2" using assms(4) by (simp add: jm_get_def)
  then have p: "arrayPoolTx (nd_fac ?s2) = js_sort cmp_sig [t1, t2]" "timeoutProposeBlock (nd_fac ?s2)"
    using assms(1,2,4,6) c1 by (simp_all add: processAddTx_def [of C ch r2] Let_def) (simp add: jm_set_def jm_values_def)
  have "\<not> distinct (map tx_origin (js_sort cmp_sig [t1, t2]))"
    unfolding distinct_map_js_sort using assms(7) by simp
  then have "\<not> validateBlock C ch (Block_make C latest (arrayPoolTx (nd_fac ?s2))) votes" for latest votes
    unfolding p(1) validateBlock_iff by (simp add: Block_make_def Let_def)
  then show ?thesis using p by (simp add: Let_def del: js_sort_Nil_iff)
qed


text \<open>The schema of messages allows 16 votes. With 32 or more peers of equal stake no \<open>ConfirmBlock\<close> with the votes
  of a quorum satisfies it, so that every node ignores it.\<close>

theorem confirm_needs_few_peers:
  assumes inv: "stake_inv 0 ch" and n: "32 \<le> jm_size (mapPeer ch)" and c: "0 < c"
    and e: "\<And>p. p \<in> set (jm_values (mapPeer ch)) \<Longrightarrow> p_stake p = c"
    and q: "hasQuorumWeighted ch (map vote_origin votes)"
  shows "validateMessage (json_of_message (ConfirmBlock_create C w now hash votes)) = Inr False"
proof -
  have "sum_list (map f xs) = c * int (length xs)" if "\<And>x. x \<in> set xs \<Longrightarrow> f x = c" for f :: "string \<times> peer \<Rightarrow> int" and xs
  proof -
    have e: "map f xs = map (\<lambda>x. c) xs" using that by simp
    show ?thesis unfolding e by (simp add: sum_list_triv)
  qed
  then have "jm.total p_stake (mapPeer ch) = c * int (jm_size (mapPeer ch))"
    using e by (auto simp: jm.total_def jm_size_def jm_values_def)
  then have "c * 32 \<le> quorumWeighted ch" using stake_invD(4) [OF inv] n c by simp
  moreover have "getStake ch k \<le> c" for k
  proof (cases "jm_get (mapPeer ch) k")
    case None
    then show ?thesis using c by (simp add: getStake_get)
  next
    case (Some p)
    then have "p \<in> set (jm_values (mapPeer ch))"
      using jm.entries_get [OF stake_invD(1) [OF inv], of k p] by (force simp: jm_values_def)
    then show ?thesis using Some e by (simp add: getStake_get)
  qed
  then have "sum_list (map (getStake ch) ks) \<le> c * int (length ks)" for ks
    by (induction ks) (auto simp: algebra_simps intro: add_mono)
  ultimately have "c * 16 < c * int (length votes)"
    using q [unfolded hasQuorumWeighted_iff] by (smt (verit) length_map)
  then have "16 < length votes" using c by simp
  then have "\<not> schema_message (ConfirmBlock_create C w now hash votes)"
    by (simp add: schema_message_def ConfirmBlock_create_def Message_init_def schema_votes_def)
  then show ?thesis using data_type_known by (simp add: validateMessage_def Message_type_of)
qed

section \<open>Witnesses\<close>

lemma b64url_b: "is_b64url CHR ''b''"
  by (simp add: is_b64url_def is_alpha_dash_def char_in_def)

theorem calcValidator_decides_witness:
  "\<exists>s'. calcValidator demo_crypto demo_cfg demo_env
      ((chain_new [] [] [] :: (string \<times> string) list chain)\<lparr>ch_height := 1, latestBlock := Some (demo_genesis ''abc'')\<rparr>) demo_node = Inr s'"
proof -
  let ?ch = "(chain_new [] [] [] :: (string \<times> string) list chain)\<lparr>ch_height := 1, latestBlock := Some (demo_genesis ''abc'')\<rparr>"
  have n: "nd_net demo_node = Some demo_net" by (simp add: demo_node_def)
  have l: "blk_hash (demo_genesis ''abc'') \<noteq> []"
    "length (blk_hash (demo_genesis ''abc'')) = length (blk_previousHash (demo_genesis ''abc''))" by code_simp+
  have o: "demo_key CHR ''a'' \<in> set (map p_publicKey (arrayNetwork demo_net))"
    "isOnline demo_cfg (own_key demo_crypto demo_node) (env_now demo_env) demo_net (demo_key CHR ''a'')"
    by (simp_all add: demo_net_def demo_peer_def isOnline_def demo_own_key)
  have b: "latestBlock ?ch = Some (demo_genesis ''abc'')" by simp
  note t = calcValidator_decides [OF n b l, of demo_cfg demo_crypto demo_env, unfolded Let_def]
  show ?thesis
  proof (cases "calcValidator demo_crypto demo_cfg demo_env ?ch demo_node")
    case (Inl e)
    then show ?thesis using t o by fastforce
  qed blast
qed

text \<open>The sample node is asked to bring a new peer into the chain.\<close>

lemma demo_put: "\<exists>s'. node_step demo_crypto mem_level demo_cfg (demo_chain ''abc'', cr, demo_node) (demo_chain ''abc'', cr, s') \<and> s' \<noteq> demo_node"
  using demo_stack_peer node_step.put by blast



text \<open>Status messages of the second peer arrive at the sample node.\<close>

definition demo_status :: "int \<Rightarrow> message" where
  "demo_status t = Status_create demo_crypto (demo_wallet CHR ''b'') t ONLINE 1"

definition demo_packet :: "int \<Rightarrow> string" where
  "demo_packet t = (case Message_pack demo_crypto (demo_wallet CHR ''b'') VERSION_4 (demo_status t) of Inl e \<Rightarrow> [] | Inr x \<Rightarrow> x)"

lemma demo_status:
  "msg_origin (demo_status t) = getPublicKey demo_crypto (demo_wallet CHR ''b'')"
  "Message_pack demo_crypto (demo_wallet CHR ''b'') VERSION_4 (demo_status t) = Inr (demo_packet t)"
  "0 < t \<Longrightarrow> schema_message (demo_status t)"
  "getPublicKeyByUdp (demo_chain ''abc'') ''udp-b'' = demo_key CHR ''b''" "demo_key CHR ''b'' \<noteq> []"
  "msg_data (demo_status t) = StatusData ONLINE 1" "msg_seq (demo_status t) = t"
  using pattern_demo_key [OF b64url_b]
  by (simp_all add: demo_status_def Status_create_def Message_init_def demo_packet_def Message_pack_def Let_def
      schema_message_def demo_own_key ONLINE_def getPublicKeyByUdp_def jm_get_or_def jm_get_def demo_mapUdp) (simp add: demo_key_def)

lemma demo_receive:
  assumes "0 < t" and "\<not> isClosing n" and "arrayNetwork n \<noteq> []" and "is_newer n (demo_status t)"
  shows "receive demo_crypto (demo_chain ''abc'') n (demo_packet t) ''udp-b'' = Inr (Some (demo_key CHR ''b'', demo_status t))"
  using receive_packed [OF demo_codec_ok demo_wallet_ok [OF b64url_b] demo_status(1,2) assms(2,3), of "demo_chain ''abc''" "''udp-b''"]
    demo_status(3) [OF assms(1)] assms(4) by (simp add: demo_status(4,5))

lemma demo_newer: "0 < t \<Longrightarrow> is_newer demo_net (demo_status t)"
  by (simp add: is_newer_def demo_net_def jm_get_or_def demo_status(7))

theorem packet_roundtrip_witness:
  "receive demo_crypto (demo_chain ''abc'') demo_net (demo_packet 5) ''udp-b'' = Inr (Some (demo_key CHR ''b'', demo_status 5))"
proof -
  have n: "\<not> isClosing demo_net" "arrayNetwork demo_net \<noteq> []" "getPublicKeyByUdp (demo_chain ''abc'') ''udp-b'' \<noteq> []"
    by (simp_all add: demo_net_def demo_status(4,5))
  from packet_roundtrip [OF demo_codec_ok demo_wallet_ok [OF b64url_b] demo_status(1,2) n]
  show ?thesis using demo_status(3) [of 5] demo_newer [of 5] by (simp add: demo_status(4))
qed

lemma demo_heard:
  "\<exists>s1. incomingData demo_crypto mem_level demo_cfg demo_env (demo_packet 5) ''udp-b'' (demo_chain ''abc'', [], demo_node)
      = Inr (demo_chain ''abc'', [], s1) \<and> nd_net s1 = Some (note_message (env_now demo_env) (demo_key CHR ''b'') (demo_status 5) demo_net)"
proof -
  have c: "\<not> isClosing demo_net" "arrayNetwork demo_net \<noteq> []" by (simp_all add: demo_net_def)
  have "receive demo_crypto (demo_chain ''abc'') demo_net (demo_packet 5) ''udp-b'' = Inr (Some (demo_key CHR ''b'', demo_status 5))"
    by (rule demo_receive [OF _ c demo_newer]) simp_all
  then show ?thesis by (simp add: incomingData_def net_of_def processMessage_def demo_status(6) processStatus_def Let_def
      jm_get_or_def demo_node_def factory_new_def STAKE_PING_SAMPLE_SIZE_def demo_chain_fields)
qed

theorem message_processed_once_witness:
  "\<exists>n2 m2. receive demo_crypto (demo_chain ''abc'') n2 (demo_packet 6) ''udp-b'' = Inr (Some (demo_key CHR ''b'', m2)) \<and> 5 < msg_seq m2"
proof -
  have n: "nd_net demo_node = Some demo_net" by (simp add: demo_node_def)
  have c: "\<not> isClosing demo_net" "arrayNetwork demo_net \<noteq> []" by (simp_all add: demo_net_def)
  have r: "receive demo_crypto (demo_chain ''abc'') demo_net (demo_packet 5) ''udp-b'' = Inr (Some (demo_key CHR ''b'', demo_status 5))"
    by (rule demo_receive [OF _ c demo_newer]) simp_all
  let ?n = "note_message (env_now demo_env) (demo_key CHR ''b'') (demo_status 5) demo_net"
  obtain s1 where i: "incomingData demo_crypto mem_level demo_cfg demo_env (demo_packet 5) ''udp-b'' (demo_chain ''abc'', [], demo_node)
      = Inr (demo_chain ''abc'', [], s1)" and s1: "nd_net s1 = Some ?n" using demo_heard by blast
  have k: "message_key (demo_status 6) = message_key (demo_status 5)"
    by (simp add: message_key_def demo_status(1,6))
  have "is_newer ?n (demo_status 6)" by (simp add: is_newer_def note_message_def k demo_status(7))
  then have r2: "receive demo_crypto (demo_chain ''abc'') ?n (demo_packet 6) ''udp-b'' = Inr (Some (demo_key CHR ''b'', demo_status 6))"
    by (intro demo_receive) (simp_all add: note_message_def demo_net_def)
  from message_processed_once [OF n r i node_run.start s1 r2 k] have "5 < msg_seq (demo_status 6)" by (simp add: demo_status(7))
  with r2 show ?thesis by blast
qed

theorem pool_takes_two_of_one_origin_witness:
  "\<exists>s :: node. arrayPoolTx (nd_fac s) \<noteq> [] \<and>
    \<not> validateBlock demo_crypto (demo_chain ''abc'') (Block_make demo_crypto (demo_genesis ''abc'') (arrayPoolTx (nd_fac s))) False"
proof -
  have "validateTx demo_crypto (chain_new [] [] []) 2 (demo_data CHR ''a'' 2)" by code_simp
  then have v: "validateTx demo_crypto (demo_chain ''abc'') 2 (demo_data CHR ''a'' 2)"
    unfolding demo_data_def by (rule demo_tx_valid) simp
  have h: "2 = ch_height (demo_chain ''abc'') + 1" by (simp add: demo_chain_fields)
  have f: "\<not> hasBlock (nd_fac demo_node)" "current (nd_fac demo_node) = jm_empty" "demo_key CHR ''b'' \<noteq> demo_key CHR ''c''"
    by (simp_all add: demo_node_def factory_new_def hasBlock_def)
  let ?s = "processAddTx demo_crypto (demo_chain ''abc'') (demo_key CHR ''c'') 2 (demo_data CHR ''a'' 2)
    (processAddTx demo_crypto (demo_chain ''abc'') (demo_key CHR ''b'') 2 (demo_data CHR ''a'' 2) demo_node)"
  note t = pool_takes_two_of_one_origin [OF h f v v refl, unfolded Let_def]
  from conjunct1 [OF t] have "arrayPoolTx (nd_fac ?s) \<noteq> []" by (cases "arrayPoolTx (nd_fac ?s)") simp_all
  with conjunct2 [OF conjunct2 [OF t]] show ?thesis by blast
qed


text \<open>A ledger of 32 peers, each with the stake of a new one.\<close>

definition demo_crowd :: "unit chain" where
  "demo_crowd = (chain_new [] () ())\<lparr>mapPeer := map (\<lambda>c. ([c], \<lparr>p_publicKey = [c], p_http = [c], p_udp = [c], p_stake = 1\<rparr>))
     ''ABCDEFGHIJKLMNOPQRSTUVWXYZabcdef'', quorumWeighted := 32\<rparr>"

lemma demo_crowd_values: "p \<in> set (jm_values (mapPeer demo_crowd)) \<Longrightarrow> p_stake p = 1"
  by (auto simp: demo_crowd_def jm_values_def)

lemma demo_crowd_stake: "getStake demo_crowd [c] = (if c \<in> set ''ABCDEFGHIJKLMNOPQRSTUVWXYZabcdef'' then 1 else 0)"
proof -
  have "map_of (map (\<lambda>c. ([c], \<lparr>p_publicKey = [c], p_http = [c], p_udp = [c], p_stake = 1\<rparr>)) cs) [c]
      = (if c \<in> set cs then Some \<lparr>p_publicKey = [c], p_http = [c], p_udp = [c], p_stake = 1\<rparr> else None)" for cs
    by (induction cs) auto
  then show ?thesis by (simp add: getStake_get jm_get_def demo_crowd_def del: list.map set_simps)
qed

lemma demo_crowd_inv: "stake_inv 0 demo_crowd"
proof -
  have "distinct ''ABCDEFGHIJKLMNOPQRSTUVWXYZabcdef''" by simp
  then have "jm_wf (mapPeer demo_crowd)" by (simp add: demo_crowd_def jm_wf_def distinct_map inj_on_def o_def del: list.map)
  moreover have "p_publicKey p = k \<and> 0 \<le> p_stake p" if "jm_get (mapPeer demo_crowd) k = Some p" for k p
    using map_of_SomeD [OF that [unfolded jm_get_def]] by (auto simp: demo_crowd_def)
  moreover have "jm.total p_stake (mapPeer demo_crowd) = 32" by (simp add: demo_crowd_def jm.total_def)
  ultimately show ?thesis by (simp add: stake_inv_def) (simp add: demo_crowd_def)
qed

theorem confirm_needs_few_peers_witness:
  "validateMessage (json_of_message (ConfirmBlock_create demo_crypto (demo_wallet CHR ''a'') 1 []
    (map (\<lambda>c. \<lparr>vote_origin = [c], vote_sig = []\<rparr>) ''ABCDEFGHIJKLMNOPQ''))) = Inr False"
proof (rule confirm_needs_few_peers [OF demo_crowd_inv _ _ demo_crowd_values])
  show "32 \<le> jm_size (mapPeer demo_crowd)" by (simp add: demo_crowd_def jm_size_def)
  show "hasQuorumWeighted demo_crowd (map vote_origin (map (\<lambda>c. \<lparr>vote_origin = [c], vote_sig = []\<rparr>) ''ABCDEFGHIJKLMNOPQ''))"
    by (simp add: hasQuorumWeighted_iff demo_crowd_stake) (simp add: demo_crowd_def)
qed simp_all

end
