(* ===== verification/Chain_Async.thy ===== *)
theory Chain_Async
  imports Ledger_Theorems
begin

text \<open>
  \<open>Blockchain.add\<close> as the code runs it: an asynchronous function that gives up control at every
  \<open>await\<close>. A call checks the block and starts the write to the store; each later turn runs one
  command; the last one updates the cache and the height. Several calls can be under way at once
  (a confirmed block and the same block from a synchronisation, or a block whose validator receives
  further votes), and nothing orders their turns. Each call here has a block object of its own.
  The lemmas show that a call left alone is \<open>chain_add\<close>, which invariants survive every
  interleaving, and which do not.
\<close>

section \<open>Calls under way\<close>

text \<open>
  \<open>tk_debug\<close>: the performance record is still to be written. \<open>tk_todo\<close>: the commands that the two
  loops of \<open>processState\<close> have before them, each with the origin of its transaction; \<open>tk_done\<close>: those
  behind them, as \<open>modifyStake\<close> left them.
\<close>

record add_task =
  tk_block :: block
  tk_debug :: bool
  tk_todo :: "(string \<times> command) list"
  tk_done :: "command list"

datatype add_event = Call block | Resume nat int

type_synonym ('db, 's) adding = "'db chain \<times> credits \<times> 's \<times> add_task list"

definition block_commands :: "transaction list \<Rightarrow> (string \<times> command) list" where
  "block_commands ts = concat (map (\<lambda>t. map (Pair (tx_origin t)) (tx_commands t)) ts)"

fun put_commands :: "transaction list \<Rightarrow> command list \<Rightarrow> transaction list" where
  "put_commands [] cs = []"
| "put_commands (t # ts) cs =
     t\<lparr>tx_commands := take (length (tx_commands t)) cs\<rparr> # put_commands ts (drop (length (tx_commands t)) cs)"

definition add_task_of :: "config \<Rightarrow> block \<Rightarrow> add_task" where
  "add_task_of cfg b =
     \<lparr>tk_block = b, tk_debug = debug_performance cfg, tk_todo = block_commands (blk_tx b), tk_done = []\<rparr>"

text \<open>
  \<open>Call\<close>: the code up to the first \<open>await\<close>. \<open>Resume i now\<close>: the next turn of the call number \<open>i\<close>, at the
  time \<open>now\<close>. A write takes effect when it is started.
\<close>

fun add_step ::
    "crypto \<Rightarrow> 'db level \<Rightarrow> config \<Rightarrow> ('db, 's) propose \<Rightarrow> add_event \<Rightarrow> ('db, 's) adding \<Rightarrow> ('db, 's) adding result" where
  "add_step C L cfg propose (Call b) (ch, cr, s, ts) =
     (if \<not> add_guard C ch b then Inr (ch, cr, s, ts)
      else Inr (updateBlockData L (block_key (blk_height b)) (block_text b) ch, cr, s, ts @ [add_task_of cfg b]))"
| "add_step C L cfg propose (Resume i now) (ch, cr, s, ts) =
     (if length ts \<le> i then Inr (ch, cr, s, ts)
      else
        let t = ts ! i
        in if tk_debug t then
             Inr (updateStateData L (debug_key (ch_height ch)) (dec_of_int now) ch, cr, s, ts[i := t\<lparr>tk_debug := False\<rparr>])
           else case tk_todo t of
             (origin, c) # rest \<Rightarrow>
               (case process_command L origin c (ch, cr) of
                  (c', ch, cr) \<Rightarrow> Inr (ch, cr, s, ts[i := t\<lparr>tk_todo := rest, tk_done := tk_done t @ [c']\<rparr>]))
           | [] \<Rightarrow>
               (let b = (tk_block t)\<lparr>blk_tx := put_commands (blk_tx (tk_block t)) (tk_done t)\<rparr>
                in bindr (updateCache cfg propose b (ch, cr, s))
                     (\<lambda>(ch, cr, s). Inr (ch, cr, s, take i ts @ drop (i + 1) ts))))"

fun add_exec ::
    "crypto \<Rightarrow> 'db level \<Rightarrow> config \<Rightarrow> ('db, 's) propose \<Rightarrow> add_event list \<Rightarrow> ('db, 's) adding \<Rightarrow> ('db, 's) adding result" where
  "add_exec C L cfg propose [] st = Inr st"
| "add_exec C L cfg propose (e # es) st =
     bindr (add_step C L cfg propose e st) (\<lambda>st. add_exec C L cfg propose es st)"

text \<open>The number of turns after the call.\<close>

definition add_turns :: "config \<Rightarrow> block \<Rightarrow> nat" where
  "add_turns cfg b = (if debug_performance cfg then 1 else 0) + length (block_commands (blk_tx b)) + 1"

lemma add_exec_append:
  "add_exec C L cfg propose (es @ fs) st
    = bindr (add_exec C L cfg propose es st) (\<lambda>st. add_exec C L cfg propose fs st)"
  by (induction es arbitrary: st) (auto simp: bindr_def split: sum.split)

section \<open>A call left alone\<close>

text \<open>The two loops of \<open>processState\<close> as one loop.\<close>

fun process_list ::
    "'db level \<Rightarrow> (string \<times> command) list \<Rightarrow> 'db chain \<times> credits \<Rightarrow> command list \<times> 'db chain \<times> credits" where
  "process_list L [] st = ([], st)"
| "process_list L ((origin, c) # cs) st =
     (case process_command L origin c st of
        (c', st) \<Rightarrow> case process_list L cs st of (cs', st) \<Rightarrow> (c' # cs', st))"

lemma process_list_append:
  "process_list L (cs @ ds) st
    = (case process_list L cs st of (cs', st) \<Rightarrow> case process_list L ds st of (ds', st) \<Rightarrow> (cs' @ ds', st))"
  by (induction L cs st rule: process_list.induct) (auto split: prod.split)

lemma process_list_map: "process_list L (map (Pair origin) cs) st = process_commands L origin cs st"
  by (induction cs arbitrary: st) (simp_all split: prod.split)

lemma length_process_commands: "length (fst (process_commands L origin cs st)) = length cs"
  by (induction cs arbitrary: st) (simp_all split: prod.split, metis fst_conv)

lemma process_txs_list:
  "process_txs L ts st = (case process_list L (block_commands ts) st of (cs, st) \<Rightarrow> (put_commands ts cs, st))"
proof (induction ts arbitrary: st)
  case (Cons t ts)
  obtain cs st1 where 1: "process_commands L (tx_origin t) (tx_commands t) st = (cs, st1)"
    by (cases "process_commands L (tx_origin t) (tx_commands t) st") auto
  have "length cs = length (tx_commands t)"
    using length_process_commands [of L "tx_origin t" "tx_commands t" st] 1 by simp
  then show ?case using Cons [of st1] 1
    by (simp add: block_commands_def process_list_append process_list_map split: prod.split)
qed (simp add: block_commands_def)

lemma resume_commands:
  assumes "ts = us @ [t] @ vs" and "\<not> tk_debug t"
  shows "add_exec C L cfg propose (replicate (length (tk_todo t)) (Resume (length us) now)) (ch, cr, s, ts)
    = (case process_list L (tk_todo t) (ch, cr) of
         (cs, ch, cr) \<Rightarrow> Inr (ch, cr, s, us @ [t\<lparr>tk_todo := [], tk_done := tk_done t @ cs\<rparr>] @ vs))"
  using assms
proof (induction "tk_todo t" arbitrary: t ts ch cr)
  case Nil
  then have "t\<lparr>tk_todo := [], tk_done := tk_done t @ []\<rparr> = t" by (cases t) simp
  then show ?case using Nil by simp
next
  case (Cons oc todo)
  obtain origin c where oc: "oc = (origin, c)" by (cases oc)
  obtain c' ch1 cr1 where p: "process_command L origin c (ch, cr) = (c', ch1, cr1)"
    by (cases "process_command L origin c (ch, cr)") auto
  let ?t = "t\<lparr>tk_todo := todo, tk_done := tk_done t @ [c']\<rparr>"
  have "add_step C L cfg propose (Resume (length us) now) (ch, cr, s, ts) = Inr (ch1, cr1, s, us @ [?t] @ vs)"
    using Cons.prems Cons.hyps(2) [symmetric] oc p by (simp add: Let_def)
  moreover have "add_exec C L cfg propose (replicate (length todo) (Resume (length us) now)) (ch1, cr1, s, us @ [?t] @ vs)
      = (case process_list L todo (ch1, cr1) of
           (cs, ch, cr) \<Rightarrow> Inr (ch, cr, s, us @ [t\<lparr>tk_todo := [], tk_done := tk_done t @ [c'] @ cs\<rparr>] @ vs))"
    using Cons.hyps(1) [of ?t] Cons.prems(2) by simp
  ultimately show ?case
    using Cons.hyps(2) [symmetric] oc p by (simp del: add_step.simps split: prod.split)
qed

lemma resume_all:
  "add_exec C L cfg propose (replicate (add_turns cfg b) (Resume (length us) now)) (ch, cr, s, us @ [add_task_of cfg b] @ vs)
    = (case processState L cfg now b (ch, cr) of
         (b', ch, cr) \<Rightarrow> bindr (updateCache cfg propose b' (ch, cr, s)) (\<lambda>(ch, cr, s). Inr (ch, cr, s, us @ vs)))"
proof -
  let ?t = "(add_task_of cfg b)\<lparr>tk_debug := False\<rparr>" and ?e = "Resume (length us) now"
  let ?ch = "if debug_performance cfg then updateStateData L (debug_key (ch_height ch)) (dec_of_int now) ch else ch"
  let ?n = "length (block_commands (blk_tx b))"
  have start: "add_exec C L cfg propose (replicate (if debug_performance cfg then 1 else 0) ?e) (ch, cr, s, us @ [add_task_of cfg b] @ vs)
      = Inr (?ch, cr, s, us @ [?t] @ vs)"
    by (cases "debug_performance cfg") (simp_all add: add_task_of_def)
  obtain cs ch1 cr1 where p: "process_list L (block_commands (blk_tx b)) (?ch, cr) = (cs, ch1, cr1)"
    by (cases "process_list L (block_commands (blk_tx b)) (?ch, cr)") auto
  let ?u = "?t\<lparr>tk_todo := [], tk_done := cs\<rparr>"
  have mid: "add_exec C L cfg propose (replicate ?n ?e) (?ch, cr, s, us @ [?t] @ vs) = Inr (ch1, cr1, s, us @ [?u] @ vs)"
    using resume_commands [OF refl, of ?t C L cfg propose us now ?ch cr s vs] p by (simp add: add_task_of_def)
  have fin: "add_exec C L cfg propose [?e] (ch1, cr1, s, us @ [?u] @ vs)
      = bindr (updateCache cfg propose (b\<lparr>blk_tx := put_commands (blk_tx b) cs\<rparr>) (ch1, cr1, s))
          (\<lambda>(ch, cr, s). Inr (ch, cr, s, us @ vs))"
    by (simp add: add_task_of_def bindr_def split: sum.split prod.split)
  have ps: "processState L cfg now b (ch, cr) = (b\<lparr>blk_tx := put_commands (blk_tx b) cs\<rparr>, ch1, cr1)"
    using p by (simp add: processState_def process_txs_list Let_def)
  have "replicate (add_turns cfg b) ?e
      = replicate (if debug_performance cfg then 1 else 0) ?e @ replicate ?n ?e @ [?e]"
    by (simp add: add_turns_def replicate_append_same flip: replicate_add)
  then show ?thesis by (simp only: add_exec_append start mid fin ps bindr_simps prod.case)
qed

section \<open>What every interleaving keeps\<close>

text \<open>
  A property of the ledger that commands keep, and that storing and caching leave alone, holds after
  any schedule, whatever calls overlap.
\<close>

locale adding_invariant = ledger_invariant L admissible P
  for L :: "'db level" and admissible :: "string \<Rightarrow> command \<Rightarrow> bool" and P :: "'db chain \<times> credits \<Rightarrow> bool" +
  assumes keep_store: "P (ch, cr) \<Longrightarrow> P (updateBlockData L k v ch, cr)"
    and keep_cache: "P (ch, cr) \<Longrightarrow> P ((cache_block cfg b ch)\<lparr>mapVoteStake := vm\<rparr>, cr')"
    and guarded: "schema_command c \<Longrightarrow> admissible origin c"
begin

definition todo_ok :: "add_task list \<Rightarrow> bool" where
  "todo_ok ts \<longleftrightarrow> (\<forall>t \<in> set ts. \<forall>(origin, c) \<in> set (tk_todo t). admissible origin c)"

lemma todo_ok_call: "add_guard C ch b \<Longrightarrow> todo_ok ts \<Longrightarrow> todo_ok (ts @ [add_task_of cfg b])"
  using schema_commands_valid [of C ch b]
  by (auto simp: todo_ok_def add_task_of_def block_commands_def schema_commands_def list_all_iff intro: guarded)

lemma todo_ok_update:
  assumes "todo_ok ts" and "i < length ts" and "set (tk_todo t) \<subseteq> set (tk_todo (ts ! i))"
  shows "todo_ok (ts[i := t])"
  unfolding todo_ok_def
proof (intro ballI)
  fix u e
  assume u: "u \<in> set (ts[i := t])" "e \<in> set (tk_todo u)"
  have "\<exists>w \<in> set ts. set (tk_todo u) \<subseteq> set (tk_todo w)"
    using u(1) set_update_subset_insert [of ts i t] assms(2,3) nth_mem [OF assms(2)] by blast
  then show "case e of (origin, c) \<Rightarrow> admissible origin c" using u(2) assms(1) by (auto simp: todo_ok_def)
qed

lemma keep_step:
  assumes "add_step C L cfg propose e (ch, cr, s, ts) = Inr (ch', cr', s', ts')" and "P (ch, cr)" and "todo_ok ts"
  shows "P (ch', cr') \<and> todo_ok ts'"
proof (cases e)
  case (Call b)
  then show ?thesis using assms by (auto simp: keep_store todo_ok_call split: if_splits)
next
  case (Resume i now)
  consider "length ts \<le> i" | "i < length ts" "tk_debug (ts ! i)"
    | "i < length ts" "\<not> tk_debug (ts ! i)" "tk_todo (ts ! i) = []"
    | origin c rest where "i < length ts" "\<not> tk_debug (ts ! i)" "tk_todo (ts ! i) = (origin, c) # rest"
    by (cases "i < length ts"; cases "tk_debug (ts ! i)"; cases "tk_todo (ts ! i)") auto
  then show ?thesis
  proof cases
    case 1
    then show ?thesis using assms Resume by simp
  next
    case 2
    then show ?thesis using assms Resume by (auto simp: keep_debug Let_def intro!: todo_ok_update)
  next
    case 3
    then obtain b ch1 cr1 where u: "updateCache cfg propose b (ch, cr, s) = Inr (ch', cr', s')" and t: "ts' = take i ts @ drop (i + 1) ts"
      using assms(1) Resume by (auto simp: Let_def)
    have "P (ch', cr')" using u assms(2) by (auto elim!: updateCache_Inr intro: keep_cache)
    moreover have "todo_ok ts'" using assms(3) set_take_subset [of i ts] set_drop_subset [of "i + 1" ts]
      by (auto simp: t todo_ok_def)
    ultimately show ?thesis ..
  next
    case 4
    obtain c' ch1 cr1 where p: "process_command L origin c (ch, cr) = (c', ch1, cr1)"
      by (cases "process_command L origin c (ch, cr)") auto
    have "\<forall>(origin, c) \<in> set (tk_todo (ts ! i)). admissible origin c" 
      using assms(3) nth_mem [OF 4(1)] unfolding todo_ok_def by blast
    then have "admissible origin c" using 4(3) by simp
    then have "P (ch1, cr1)" using keep_command [of "(ch, cr)" origin c] assms(2) p by simp
    then show ?thesis using assms Resume 4 p by (auto simp: Let_def intro!: todo_ok_update)
  qed
qed

lemma keep_exec:
  "add_exec C L cfg propose es (ch, cr, s, ts) = Inr (ch', cr', s', ts') \<Longrightarrow> P (ch, cr) \<Longrightarrow> todo_ok ts \<Longrightarrow>
    P (ch', cr') \<and> todo_ok ts'"
proof (induction es arbitrary: ch cr s ts)
  case (Cons e es)
  then obtain ch1 cr1 s1 ts1 where 1: "add_step C L cfg propose e (ch, cr, s, ts) = Inr (ch1, cr1, s1, ts1)"
    and 2: "add_exec C L cfg propose es (ch1, cr1, s1, ts1) = Inr (ch', cr', s', ts')" by auto
  then show ?case using Cons.IH keep_step [OF 1] Cons.prems by blast
qed simp

lemma keep_schedule:
  "add_exec C L cfg propose es (ch, cr, s, []) = Inr (ch', cr', s', ts') \<Longrightarrow> P (ch, cr) \<Longrightarrow> P (ch', cr')"
  using keep_exec [of C cfg propose es ch cr s "[]"] by (simp add: todo_ok_def)

end

interpretation adding_stake: adding_invariant L "\<lambda>_ _. True" "\<lambda>s. stake_inv d (fst s)" for L :: "'db level" and d
  by unfold_locales (auto simp: updateBlockData_def stake_inv_def cache_block_def Let_def)

interpretation adding_mirror: adding_invariant L "\<lambda>_ c. schema_command c" "\<lambda>s. level_ok L \<and> state_mirror L (fst s)"
  for L :: "'db level"
  by unfold_locales (auto simp: updateBlockData_def state_mirror_def cache_block_def Let_def)

section \<open>Several calls for one block\<close>

lemma level_put_again:
  assumes L: "level_ok L" and e: "lv_entries L d = es @ [(k, v)]"
  shows "lv_entries L (lv_put L k v d) = es @ [(k, v)]"
proof (rule sorted_entries_unique)
  show "sorted_wrt (<) (map fst (lv_entries L (lv_put L k v d)))" by (rule level_okD [OF L])
  show "sorted_wrt (<) (map fst (es @ [(k, v)]))" using level_okD(1) [OF L, of d] by (simp add: e)
  have "lv_get L d k = Some v"
    unfolding level_okD(2) [OF L] using level_distinct [OF L, of d] by (intro map_of_is_SomeI) (simp_all add: e)
  then show "map_of (lv_entries L (lv_put L k v d)) = map_of (es @ [(k, v)])"
    using level_okD(2,3) [OF L] by (auto simp: fun_eq_iff simp flip: e)
qed

text \<open>The calls: each passes the check, because the height is still the old one.\<close>

lemma add_guard_store: "add_guard C (updateBlockData L k v ch) b' = add_guard C ch b'"
  by (simp add: add_guard_def validateBlock_iff votes_ok_def hasQuorumWeighted_def getStake_def getPeer_def updateBlockData_def
      validateTx_cong [of "ch\<lparr>dbBlockchain := lv_put L k v (dbBlockchain ch)\<rparr>" ch])

definition stored :: "'db level \<Rightarrow> block list \<Rightarrow> 'db chain \<Rightarrow> 'db chain \<Rightarrow> bool" where
  "stored L bs ch ch' \<longleftrightarrow> stores L bs ch' \<and> (\<exists>d. ch' = ch\<lparr>dbBlockchain := d\<rparr>)"

lemma calls:
  assumes L: "level_ok L" and "add_guard C ch b" and "stores L (bs @ [b]) ch"
  shows "\<exists>ch'. add_exec C L cfg propose (replicate m (Call b)) (ch, cr, s, ts) = Inr (ch', cr, s, ts @ replicate m (add_task_of cfg b)) \<and>
    stored L (bs @ [b]) ch ch'"
  using assms(2,3)
proof (induction m arbitrary: ch ts)
  case 0
  then show ?case by (auto simp: stored_def intro: exI [of _ "dbBlockchain ch"])
next
  case (Suc m)
  let ?ch = "updateBlockData L (block_key (blk_height b)) (block_text b) ch"
  have "add_guard C ?ch b" using Suc.prems(1) by (simp add: add_guard_store)
  moreover have "stores L (bs @ [b]) ?ch"
    using Suc.prems(2) level_put_again [OF L] by (simp add: stores_def updateBlockData_def)
  ultimately obtain ch' where "add_exec C L cfg propose (replicate m (Call b)) (?ch, cr, s, ts @ [add_task_of cfg b])
      = Inr (ch', cr, s, (ts @ [add_task_of cfg b]) @ replicate m (add_task_of cfg b))" "stored L (bs @ [b]) ?ch ch'"
    using Suc.IH by blast
  then show ?case using Suc.prems(1)
    by (auto simp: stored_def updateBlockData_def)
qed

text \<open>The turns of one call, the others waiting.\<close>

lemma finish_quiet:
  assumes q: "quiet b"
  shows "\<exists>ch' cr'. add_exec C L cfg propose (replicate (add_turns cfg b) (Resume (length us) now)) (ch, cr, s, us @ [add_task_of cfg b] @ vs)
      = Inr (ch', cr', s, us @ vs) \<and> dbBlockchain ch' = dbBlockchain ch \<and> ch_height ch' = blk_height b \<and>
    map_option blk_hash (latestBlock ch') = Some (blk_hash b) \<and> (\<forall>bs. ledger_view ch = ledger_of bs \<longrightarrow> ledger_view ch' = ledger_of (bs @ [b]))"
proof -
  obtain b1 ch1 cr1 where p: "processState L cfg now b (ch, cr) = (b1, ch1, cr1)"
    by (cases "processState L cfg now b (ch, cr)") auto
  have "hash_match_count b1 = hash_match_count b" by (simp only: hash_match_count_def processState_block [OF p])
  then have "quiet b1" using q by (simp add: quiet_def)
  from updateCache_quiet [OF this, of cfg propose ch1 cr1 s]
  obtain ch2 where u: "updateCache cfg propose b1 (ch1, cr1, s) = Inr (ch2, cr1, s)" by blast
  then obtain vm where ch2: "ch2 = (cache_block cfg b1 ch1)\<lparr>mapVoteStake := vm\<rparr>" by (rule updateCache_Inr)
  have v: "ledger_view ch2 = ledger_view ch1" unfolding ch2 by (simp add: ledger_view_def cache_block_def Let_def)
  have "\<forall>bs. ledger_view ch = ledger_of bs \<longrightarrow> ledger_view ch2 = ledger_of (bs @ [b])"
    using ledger_of_snoc [OF p] v by simp
  moreover have "dbBlockchain ch2 = dbBlockchain ch"
    using processState_frame [OF p] by (simp add: ch2 cache_block_fields same_frame_def)
  ultimately show ?thesis
    using p u processState_block [OF p] unfolding resume_all by (simp add: ch2 cache_block_fields)
qed

lemma finish_all:
  assumes q: "quiet b" and "ledger_view ch = ledger_of bs"
    and "m = 0 \<longrightarrow> ch_height ch = blk_height b \<and> map_option blk_hash (latestBlock ch) = Some (blk_hash b)"
  shows "\<exists>ch' cr'. add_exec C L cfg propose (replicate (m * add_turns cfg b) (Resume 0 now)) (ch, cr, s, replicate m (add_task_of cfg b))
      = Inr (ch', cr', s, []) \<and> dbBlockchain ch' = dbBlockchain ch \<and> ch_height ch' = blk_height b \<and>
    map_option blk_hash (latestBlock ch') = Some (blk_hash b) \<and> ledger_view ch' = ledger_of (bs @ replicate m b)"
  using assms(2,3)
proof (induction m arbitrary: ch cr bs)
  case (Suc m)
  let ?ts = "replicate m (add_task_of cfg b)"
  from finish_quiet [OF q, of C L cfg propose "[]" now ch cr s ?ts] obtain ch1 cr1 where
    1: "add_exec C L cfg propose (replicate (add_turns cfg b) (Resume 0 now)) (ch, cr, s, add_task_of cfg b # ?ts) = Inr (ch1, cr1, s, ?ts)"
      "dbBlockchain ch1 = dbBlockchain ch" "ch_height ch1 = blk_height b" "map_option blk_hash (latestBlock ch1) = Some (blk_hash b)"
      "ledger_view ch1 = ledger_of (bs @ [b])"
    using Suc.prems(1) by auto
  from Suc.IH [OF 1(5), of cr1] 1(3,4) obtain ch2 cr2 where
    2: "add_exec C L cfg propose (replicate (m * add_turns cfg b) (Resume 0 now)) (ch1, cr1, s, ?ts) = Inr (ch2, cr2, s, [])"
      "dbBlockchain ch2 = dbBlockchain ch1" "ch_height ch2 = blk_height b" "map_option blk_hash (latestBlock ch2) = Some (blk_hash b)"
      "ledger_view ch2 = ledger_of ((bs @ [b]) @ replicate m b)"
    by auto
  have "replicate (Suc m * add_turns cfg b) (Resume 0 now)
      = replicate (add_turns cfg b) (Resume 0 now) @ replicate (m * add_turns cfg b) (Resume 0 now)"
    by (simp add: replicate_add)
  then have "add_exec C L cfg propose (replicate (Suc m * add_turns cfg b) (Resume 0 now)) (ch, cr, s, replicate (Suc m) (add_task_of cfg b))
      = Inr (ch2, cr2, s, [])"
    by (simp only: add_exec_append replicate_Suc 1(1) 2(1) bindr_simps)
  then show ?case using 1(2) 2(2-5) by auto
qed auto

end
