(* ===== verification/Async_Theorems.thy ===== *)
theory Async_Theorems
  imports Chain_Async
begin

text \<open>
  What overlapping calls of \<open>Blockchain.add\<close> do: a call that is left alone is the \<open>chain_add\<close> of the
  other theories; the stakes add up and the state store shows them under every interleaving; but a
  block that is added while it is being added counts again, and a call that ends late takes the
  chain back.
\<close>


text \<open>C9: However the turns of calls of \<open>add\<close> interleave, at every moment \<open>quorumWeighted\<close> is the sum of the
  stakes, no stake is negative, and the state store shows the stake of every peer.\<close>

theorem stakes_add_up_under_interleaving:
  assumes r: "chain_run C L cfg propose pk bs ch cr s" and L: "level_ok L"
    and m: "1 \<le> blockchain_max_blocks_in_memory cfg" and g: "schema_commands (hd bs)"
    and e: "add_exec C L cfg propose es (ch, cr, s, []) = Inr (ch', cr', s', ts)"
  shows "quorumWeighted ch' = (\<Sum>k \<in> dom (getPeer ch'). getStake ch' k) \<and> 0 \<le> getStake ch' k \<and>
    (CHR '':'' \<notin> set k \<longrightarrow>
       lv_get L (dbState ch') (STATE_PEER_IDENT @ k) = map_option (\<lambda>p. dec_of_int (p_stake p)) (getPeer ch' k))"
proof -
  have "stake_inv 0 ch" using chain_run_ok [OF r L m] by (simp add: chain_ok_def)
  then have i: "stake_inv 0 ch'" using adding_stake.keep_schedule [OF e] by simp
  have "state_mirror L ch" using chain_run_mirror [OF r L m g] by blast
  then have "state_mirror L ch'" using adding_mirror.keep_schedule [OF e] L by simp
  moreover have "getPeer ch' = jm_get (mapPeer ch')" by (rule ext) (simp add: getPeer_def)
  ultimately show ?thesis using wq.total_weight [OF i] wq.weight_nonneg [OF i] by (simp add: state_mirror_def)
qed

theorem stakes_add_up_under_interleaving_witness:
  "\<exists>ch' ts. add_exec demo_crypto mem_level demo_cfg no_propose [Call demo_block2, Call demo_block2] (demo_chain ''abc'', [], (), [])
      = Inr (ch', [], (), ts) \<and> length ts = 2 \<and> quorumWeighted ch' = (\<Sum>k \<in> dom (getPeer ch'). getStake ch' k)"
proof -
  obtain cr where "chain_run demo_crypto mem_level demo_cfg no_propose (demo_key CHR ''a'')
    [demo_genesis ''abc''] (demo_chain ''abc'') cr ()" using demo_run1 by blast
  then have r: "chain_run demo_crypto mem_level demo_cfg no_propose (demo_key CHR ''a'')
    [demo_genesis ''abc''] (demo_chain ''abc'') [] ()" by (rule chain_run.other)
  have g: "schema_commands (hd [demo_genesis ''abc''])" by code_simp
  have "\<exists>ch' ts. add_exec demo_crypto mem_level demo_cfg no_propose [Call demo_block2, Call demo_block2]
      (demo_chain ''abc'', [], (), []) = Inr (ch', [], (), ts) \<and> length ts = 2"
    using demo_guard by (simp add: add_guard_store)
  then obtain ch' ts where e: "add_exec demo_crypto mem_level demo_cfg no_propose [Call demo_block2, Call demo_block2]
      (demo_chain ''abc'', [], (), []) = Inr (ch', [], (), ts)" "length ts = 2" by blast
  from stakes_add_up_under_interleaving [OF r mem_level_ok demo_max g e(1)] e show ?thesis by blast
qed

section \<open>The same block several times\<close>

lemma add_guard_cong:
  assumes "ch_height ch = ch_height ch'" and "map_option blk_hash (latestBlock ch) = map_option blk_hash (latestBlock ch')"
    and "ledger_view ch = ledger_view ch'"
  shows "add_guard C ch b = add_guard C ch' b"
  using assms validateBlock_view [OF assms(3)] by (simp only: add_guard_def)

lemma stores_first_call:
  assumes L: "level_ok L" and ok: "chain_ok m bs ch" and st: "stores L bs ch" and b: "blk_height b < 10 ^ 16"
    and g: "add_guard C ch b"
  shows "stores L (bs @ [b]) (updateBlockData L (block_key (blk_height b)) (block_text b) ch)"
proof -
  have hs: "map blk_height bs = [1 .. ch_height ch]" "0 \<le> ch_height ch" using ok by (simp_all add: chain_ok_def)
  have h: "blk_height b = ch_height ch + 1" using g by (simp add: add_guard_def)
  have "block_key (blk_height a) < block_key (blk_height b)" if "a \<in> set bs" for a
  proof -
    have "blk_height a \<in> set [1 .. ch_height ch]" using that hs(1) by (metis image_eqI set_map)
    then show ?thesis using b h by (subst block_key_less) auto
  qed
  then show ?thesis using st level_put_last [OF L, of "dbBlockchain ch" "block_key (blk_height b)"]
    by (auto simp: stores_def updateBlockData_def)
qed

text \<open>C8: While a block is being added the height is still the old one, so that further calls with the same block
  pass the check too. When all are done the store has the block once, and the height is right; but the block has been
  processed once per call: peers, stakes and pending votes are those of a chain that contains it \<open>m\<close> times.\<close>

theorem overlapping_adds_count_again:
  assumes r: "chain_run C L cfg propose pk bs ch cr s" and L: "level_ok L"
    and m: "1 \<le> blockchain_max_blocks_in_memory cfg" and b: "blk_height b < 10 ^ 16" "add_guard C ch b" "quiet b" and n: "1 \<le> n"
  shows "\<exists>ch' cr'. add_exec C L cfg propose (replicate n (Call b) @ replicate (n * add_turns cfg b) (Resume 0 now)) (ch, cr, s, [])
      = Inr (ch', cr', s, []) \<and> ch_height ch' = blk_height b \<and> map_option blk_hash (latestBlock ch') = Some (blk_hash b) \<and>
    lv_values L (dbBlockchain ch') = map block_text (bs @ [b]) \<and> ledger_view ch' = ledger_of (bs @ replicate n b)"
proof -
  have ok: "chain_ok (blockchain_max_blocks_in_memory cfg) bs ch" "stores L bs ch" using chain_run_ok [OF r L m] by simp_all
  obtain k where k: "n = Suc k" using n by (cases n) simp_all
  let ?ch = "updateBlockData L (block_key (blk_height b)) (block_text b) ch"
  have "add_guard C ?ch b" "stores L (bs @ [b]) ?ch"
    using b(2) stores_first_call [OF L ok b(1,2)] by (simp_all add: add_guard_store)
  from calls [OF L this, of cfg propose k cr s "[add_task_of cfg b]"] obtain ch1 where
    1: "add_exec C L cfg propose (replicate k (Call b)) (?ch, cr, s, [add_task_of cfg b])
        = Inr (ch1, cr, s, replicate n (add_task_of cfg b))" "stored L (bs @ [b]) ?ch ch1"
    by (auto simp: k)
  have "add_exec C L cfg propose (replicate n (Call b)) (ch, cr, s, [])
      = add_exec C L cfg propose (replicate k (Call b)) (?ch, cr, s, [add_task_of cfg b])"
    using b(2) by (simp add: k)
  with 1(1) have c: "add_exec C L cfg propose (replicate n (Call b)) (ch, cr, s, []) = Inr (ch1, cr, s, replicate n (add_task_of cfg b))"
    by simp
  have "ledger_view ch1 = ledger_of bs"
    using 1(2) ok(1) by (auto simp: stored_def updateBlockData_def chain_ok_def ledger_view_def)
  from finish_all [OF b(3) this, of n C L cfg propose now cr s] n obtain ch2 cr2 where
    2: "add_exec C L cfg propose (replicate (n * add_turns cfg b) (Resume 0 now)) (ch1, cr, s, replicate n (add_task_of cfg b))
        = Inr (ch2, cr2, s, [])" "dbBlockchain ch2 = dbBlockchain ch1" "ch_height ch2 = blk_height b"
      "map_option blk_hash (latestBlock ch2) = Some (blk_hash b)" "ledger_view ch2 = ledger_of (bs @ replicate n b)"
    by auto
  have "lv_values L (dbBlockchain ch2) = map block_text (bs @ [b])"
    using 1(2) stores_values [of L "bs @ [b]" ch1] by (simp add: 2(2) stored_def)
  then show ?thesis using c 2 by (auto simp: add_exec_append)
qed

text \<open>Three peers vote twice over: \<open>a\<close> and \<open>b\<close> for \<open>c\<close>, \<open>b\<close> and \<open>c\<close> for \<open>a\<close>.\<close>

definition demo_votes :: "transaction list" where
  "demo_votes =
     [demo_tx CHR ''a'' 2 [ModifyStake (Some 1) (demo_key CHR ''c'') ''vote'' 1],
      demo_tx CHR ''b'' 2 [ModifyStake (Some 1) (demo_key CHR ''c'') ''vote'' 1, ModifyStake (Some 2) (demo_key CHR ''a'') ''vote'' 1],
      demo_tx CHR ''c'' 2 [ModifyStake (Some 1) (demo_key CHR ''a'') ''vote'' 1]]"

lemma demo_votes_guard: "add_guard demo_crypto (demo_chain ''abc'') (demo_next demo_votes)"
proof (rule demo_next_guard)
  show "distinct (map tx_origin demo_votes)" by code_simp
  have v: "\<forall>t \<in> set demo_votes. validateTx demo_crypto (chain_new [] [] []) 2 t" by code_simp
  show "\<forall>t \<in> set demo_votes. validateTx demo_crypto (demo_chain ''abc'') 2 t"
  proof
    fix t
    assume t: "t \<in> set demo_votes"
    then obtain c cs where e: "t = demo_tx c 2 cs" and d: "\<forall>c \<in> set cs. case c of Decision s n h d \<Rightarrow> False | _ \<Rightarrow> True"
      by (auto simp: demo_votes_def)
    show "validateTx demo_crypto (demo_chain ''abc'') 2 t"
      using bspec [OF v t] d unfolding e by (rule demo_tx_valid)
  qed
qed (simp add: demo_votes_def)

theorem overlapping_adds_count_again_witness:
  "\<exists>ch1 ch2 cr1 cr2. add_exec demo_crypto mem_level demo_cfg no_propose
      (Call (demo_next demo_votes) # replicate (add_turns demo_cfg (demo_next demo_votes)) (Resume 0 0)) (demo_chain ''abc'', [], (), [])
      = Inr (ch1, cr1, (), []) \<and>
    add_exec demo_crypto mem_level demo_cfg no_propose
      (Call (demo_next demo_votes) # Call (demo_next demo_votes) #
        replicate (2 * add_turns demo_cfg (demo_next demo_votes)) (Resume 0 0)) (demo_chain ''abc'', [], (), [])
      = Inr (ch2, cr2, (), []) \<and>
    getStake ch1 (demo_key CHR ''c'') = 2 \<and> getStake ch2 (demo_key CHR ''c'') = 3 \<and>
    ch_height ch1 = 2 \<and> ch_height ch2 = 2"
proof -
  let ?b = "demo_next demo_votes"
  obtain cr where "chain_run demo_crypto mem_level demo_cfg no_propose (demo_key CHR ''a'')
    [demo_genesis ''abc''] (demo_chain ''abc'') cr ()" using demo_run1 by blast
  then have r: "chain_run demo_crypto mem_level demo_cfg no_propose (demo_key CHR ''a'')
    [demo_genesis ''abc''] (demo_chain ''abc'') [] ()" by (rule chain_run.other)
  have h: "blk_height ?b < 10 ^ 16" by (simp add: demo_next_fields)
  note o = overlapping_adds_count_again [OF r mem_level_ok demo_max h demo_votes_guard demo_next_quiet, where now = 0]
  have e: "getStake (fst (replay null_level ([demo_genesis ''abc''] @ replicate 1 ?b) (chain_new [] () (), []))) (demo_key CHR ''c'') = 2"
    "getStake (fst (replay null_level ([demo_genesis ''abc''] @ replicate 2 ?b) (chain_new [] () (), []))) (demo_key CHR ''c'') = 3"
    by (simp_all add: numeral_2_eq_2 demo_next_fields del: One_nat_def) (code_simp+)
  have s: "ledger_view ch = ledger_of bs \<Longrightarrow> getStake ch k = getStake (fst (replay null_level bs (chain_new [] () (), []))) k"
    for ch :: "(string \<times> string) list chain" and bs k
    by (simp add: ledger_of_def ledger_view_eq getStake_def getPeer_def)
  from o [of 1] obtain ch1 cr1 where 1: "add_exec demo_crypto mem_level demo_cfg no_propose
      (Call ?b # replicate (add_turns demo_cfg ?b) (Resume 0 0)) (demo_chain ''abc'', [], (), []) = Inr (ch1, cr1, (), [])"
    "ch_height ch1 = blk_height ?b" "ledger_view ch1 = ledger_of ([demo_genesis ''abc''] @ replicate 1 ?b)" by auto
  have "replicate 2 (Call ?b) = [Call ?b, Call ?b]" by (simp add: numeral_2_eq_2)
  with o [of 2] obtain ch2 cr2 where 2: "add_exec demo_crypto mem_level demo_cfg no_propose
      (Call ?b # Call ?b # replicate (2 * add_turns demo_cfg ?b) (Resume 0 0)) (demo_chain ''abc'', [], (), []) = Inr (ch2, cr2, (), [])"
    "ch_height ch2 = blk_height ?b" "ledger_view ch2 = ledger_of ([demo_genesis ''abc''] @ replicate 2 ?b)" by auto
  show ?thesis using 1(1) 2(1) s [OF 1(3)] s [OF 2(3)] e 1(2) 2(2) demo_next_fields(1) by metis
qed

text \<open>Of two calls with one block the first finishes; the second is left.\<close>

lemma first_of_two:
  assumes ok: "chain_ok m bs ch" "stores L bs ch" and L: "level_ok L" and b: "add_guard C ch b" "quiet b" "blk_height b < 10 ^ 16"
  obtains ch3 cr3 where
    "add_exec C L cfg propose ([Call b, Call b] @ replicate (add_turns cfg b) (Resume 0 now)) (ch, cr, s, [])
      = Inr (ch3, cr3, s, [add_task_of cfg b])"
    "stores L (bs @ [b]) ch3" "ch_height ch3 = blk_height b" "map_option blk_hash (latestBlock ch3) = Some (blk_hash b)"
    "ledger_view ch3 = ledger_of (bs @ [b])"
proof -
  let ?ch = "updateBlockData L (block_key (blk_height b)) (block_text b) ch"
  have "add_guard C ?ch b" "stores L (bs @ [b]) ?ch"
    using b(1) stores_first_call [OF L ok b(3,1)] by (simp_all add: add_guard_store)
  from calls [OF L this, of cfg propose 1 cr s "[add_task_of cfg b]"] obtain ch2 where
    "add_exec C L cfg propose [Call b] (?ch, cr, s, [add_task_of cfg b]) = Inr (ch2, cr, s, [add_task_of cfg b, add_task_of cfg b])"
    and st2: "stored L (bs @ [b]) ?ch ch2" by auto
  then have 2: "add_exec C L cfg propose [Call b, Call b] (ch, cr, s, []) = Inr (ch2, cr, s, [add_task_of cfg b, add_task_of cfg b])"
    using b(1) by simp
  have v2: "ledger_view ch2 = ledger_of bs"
    using st2 ok(1) by (auto simp: stored_def updateBlockData_def chain_ok_def ledger_view_def)
  from finish_quiet [OF b(2), of C L cfg propose "[]" now ch2 cr s "[add_task_of cfg b]"] v2 obtain ch3 cr3 where
    3: "add_exec C L cfg propose (replicate (add_turns cfg b) (Resume 0 now)) (ch2, cr, s, [add_task_of cfg b, add_task_of cfg b])
        = Inr (ch3, cr3, s, [add_task_of cfg b])"
      "dbBlockchain ch3 = dbBlockchain ch2" "ch_height ch3 = blk_height b" "map_option blk_hash (latestBlock ch3) = Some (blk_hash b)"
      "ledger_view ch3 = ledger_of (bs @ [b])" by auto
  have "stores L (bs @ [b]) ch3" using st2 by (simp add: stored_def stores_def 3(2))
  then show ?thesis using that 3(3-5) by (simp only: add_exec_append 2 3(1) bindr_simps)
qed

text \<open>A call stores its block behind the others also when the store is shared with a chain object in another state.\<close>

lemma stores_next_call:
  fixes ch ch' :: "'db chain"
  assumes L: "level_ok L" and ok: "chain_ok m bs ch" and b: "blk_height b < 10 ^ 16" "add_guard C ch b" and st: "stores L bs ch'"
  shows "stores L (bs @ [b]) (updateBlockData L (block_key (blk_height b)) (block_text b) ch')"
proof -
  let ?c = "ch\<lparr>dbBlockchain := dbBlockchain ch'\<rparr>"
  have "stores L bs ?c" "chain_ok m bs ?c"
    using st ok by (simp_all add: stores_def chain_ok_cong [of ?c ch] ledger_view_def)
  then have "stores L (bs @ [b]) (updateBlockData L (block_key (blk_height b)) (block_text b) ?c)"
    using b(2) add_guard_cong [of ?c ch C b] by (intro stores_first_call [OF L _ _ b(1)]) (simp_all add: ledger_view_def)
  then show ?thesis by (simp add: stores_def updateBlockData_def)
qed

text \<open>C20: A second call that is still under way when the next block has been added takes the chain back: it sets height
  and latest block to the block before, although the store holds the next one, and the node then refuses every block
  of the height that follows.\<close>

theorem late_call_takes_chain_back:
  assumes r: "chain_run C L cfg propose pk bs ch cr s" and L: "level_ok L" and m: "1 \<le> blockchain_max_blocks_in_memory cfg"
    and b: "add_guard C ch b" "quiet b"
    and r1: "chain_run C L cfg propose pk (bs @ [b]) ch1 cr1 s1"
    and c: "add_guard C ch1 c" "quiet c" "blk_height c < 10 ^ 16"
  shows "\<exists>ch' cr'. add_exec C L cfg propose
        ([Call b, Call b] @ replicate (add_turns cfg b) (Resume 0 now) @ [Call c] @ replicate (add_turns cfg c) (Resume 1 now) @
         replicate (add_turns cfg b) (Resume 0 now)) (ch, cr, s, []) = Inr (ch', cr', s, []) \<and>
    lv_values L (dbBlockchain ch') = map block_text (bs @ [b, c]) \<and>
    ch_height ch' = blk_height c - 1 \<and> map_option blk_hash (latestBlock ch') = Some (blk_hash b) \<and>
    ledger_view ch' = ledger_of (bs @ [b, c, b]) \<and> (\<forall>d. blk_height d = blk_height c + 1 \<longrightarrow> \<not> add_guard C ch' d)"
proof -
  have ok: "chain_ok (blockchain_max_blocks_in_memory cfg) bs ch" "stores L bs ch"
    "chain_ok (blockchain_max_blocks_in_memory cfg) (bs @ [b]) ch1" using chain_run_ok r r1 L m by metis+
  have h: "blk_height b = ch_height ch + 1" "ch_height ch1 = blk_height b" "blk_height c = blk_height b + 1"
    using b(1) c(1) chain_ok_height [OF ok(1)] chain_ok_height [OF ok(3)] by (simp_all add: add_guard_def)
  have hb: "blk_height b < 10 ^ 16" using h c(3) by simp
  obtain ch3 cr3 where
    3: "add_exec C L cfg propose ([Call b, Call b] @ replicate (add_turns cfg b) (Resume 0 now)) (ch, cr, s, [])
        = Inr (ch3, cr3, s, [add_task_of cfg b])"
      "stores L (bs @ [b]) ch3" "ch_height ch3 = blk_height b" "map_option blk_hash (latestBlock ch3) = Some (blk_hash b)"
      "ledger_view ch3 = ledger_of (bs @ [b])"
    by (rule first_of_two [OF ok(1,2) L b hb])
  have "ledger_view ch3 = ledger_view ch1" "map_option blk_hash (latestBlock ch3) = map_option blk_hash (latestBlock ch1)"
    using 3(4,5) ok(3) by (auto simp: chain_ok_def latest_is_def)
  then have g3: "add_guard C ch3 c" using c(1) 3(3) h(2) add_guard_cong [of ch3 ch1 C c] by simp
  let ?ch3 = "updateBlockData L (block_key (blk_height c)) (block_text c) ch3"
  have 4: "add_exec C L cfg propose [Call c] (ch3, cr3, s, [add_task_of cfg b]) = Inr (?ch3, cr3, s, [add_task_of cfg b, add_task_of cfg c])"
    using g3 by simp
  have st4: "stores L (bs @ [b, c]) ?ch3" using stores_next_call [OF L ok(3) c(3,1) 3(2)] by simp
  from finish_quiet [OF c(2), of C L cfg propose "[add_task_of cfg b]" now ?ch3 cr3 s "[]"] obtain ch5 cr5 where
    5: "add_exec C L cfg propose (replicate (add_turns cfg c) (Resume 1 now)) (?ch3, cr3, s, [add_task_of cfg b, add_task_of cfg c])
        = Inr (ch5, cr5, s, [add_task_of cfg b])"
      "dbBlockchain ch5 = dbBlockchain ?ch3" "\<forall>bs. ledger_view ?ch3 = ledger_of bs \<longrightarrow> ledger_view ch5 = ledger_of (bs @ [c])" by auto
  have v5: "ledger_view ch5 = ledger_of (bs @ [b, c])"
    using 5(3) 3(5) by (auto simp: ledger_view_def updateBlockData_def)
  from finish_quiet [OF b(2), of C L cfg propose "[]" now ch5 cr5 s "[]"] obtain ch6 cr6 where
    6: "add_exec C L cfg propose (replicate (add_turns cfg b) (Resume 0 now)) (ch5, cr5, s, [add_task_of cfg b]) = Inr (ch6, cr6, s, [])"
      "dbBlockchain ch6 = dbBlockchain ch5" "ch_height ch6 = blk_height b" "map_option blk_hash (latestBlock ch6) = Some (blk_hash b)"
      "\<forall>bs. ledger_view ch5 = ledger_of bs \<longrightarrow> ledger_view ch6 = ledger_of (bs @ [b])" by auto
  have "lv_values L (dbBlockchain ch6) = map block_text (bs @ [b, c])"
    using stores_values [OF st4] by (simp add: 6(2) 5(2))
  moreover have "ledger_view ch6 = ledger_of (bs @ [b, c, b])" using 6(5) v5 by auto
  moreover have "\<not> add_guard C ch6 d" if "blk_height d = blk_height c + 1" for d
    using that 6(3) h(3) by (simp add: add_guard_def)
  moreover have "add_exec C L cfg propose
        ([Call b, Call b] @ replicate (add_turns cfg b) (Resume 0 now) @ [Call c] @ replicate (add_turns cfg c) (Resume 1 now) @
         replicate (add_turns cfg b) (Resume 0 now)) (ch, cr, s, []) = Inr (ch6, cr6, s, [])"
    using 3(1) by (simp only: add_exec_append append_assoc [symmetric] 4 5(1) 6(1) bindr_simps)
  ultimately show ?thesis using 6(3,4) h(3) by auto
qed

text \<open>A third block: its hash, like that of the second, starts no stake vote.\<close>

definition demo_third :: block where
  "demo_third = demo_block demo_block2 [demo_data CHR ''b'' 3] ''ab''"

lemma demo_third_quiet: "quiet demo_third"
proof -
  obtain t where h: "blk_hash demo_third = demo_hash t"
    by (simp add: demo_third_def demo_block_def Block_make_def Util_hash_def demo_crypto_def Let_def)
  let ?d = "padStart 4 (CHR ''0'') (dec_of_nat (length t))"
  have "is_digit CHR ''0''" by (simp add: is_digit_def)
  then have "list_all is_digit ?d"
    using digits_dec_of_nat [of "length t"] by (auto simp: padStart_def list_all_iff)
  then have "count_list ?d CHR ''D'' = 0" by (auto simp: count_list_0_iff list_all_iff is_digit_def)
  then have "count_list (demo_hash t) CHR ''D'' = 1" by (simp add: demo_hash_def)
  moreover have "demo_hash t ! 3 = CHR ''D''" "demo_hash t \<noteq> []" "3 < length (demo_hash t)" by (simp_all add: demo_hash_def)
  moreover have "blk_height demo_third = 3"
    by (simp add: demo_third_def demo_block_def Block_make_def demo_block2_height Let_def)
  ultimately have "hash_match_count demo_third = 1" by (simp add: hash_match_count_def h)
  then show ?thesis by (simp add: quiet_def STAKE_VOTE_MATCH_THRESHOLD_def)
qed

lemma demo_third_guard:
  assumes "chain_run demo_crypto mem_level demo_cfg no_propose (demo_key CHR ''a'') [demo_genesis ''abc'', demo_block2] ch cr ()"
  shows "add_guard demo_crypto ch demo_third"
proof -
  have ok: "chain_ok (blockchain_max_blocks_in_memory demo_cfg) [demo_genesis ''abc'', demo_block2] ch"
    using chain_run_ok [OF assms mem_level_ok demo_max] by simp
  then have v: "ledger_view ch = ledger_view (fst (replay null_level [demo_genesis ''abc'', demo_block2] (chain_new [] () (), [])))"
    by (simp add: chain_ok_def ledger_of_def)
  have "hasQuorumWeighted (fst (replay null_level [demo_genesis ''abc'', demo_block2] (chain_new [] () (), [])))
      [demo_key CHR ''a'', demo_key CHR ''b'']"
    unfolding demo_block2_def replay.simps demo_next_fields by code_simp
  then have q: "hasQuorumWeighted ch [demo_key CHR ''a'', demo_key CHR ''b'']" using view_hasQuorum [OF v] by blast
  have f: "blk_height demo_third = 3" "blk_previousHash demo_third = blk_hash demo_block2" "blk_tx demo_third = [demo_data CHR ''b'' 3]"
    "blk_votes demo_third = [demo_vote demo_third CHR ''a'', demo_vote demo_third CHR ''b'']" "block_hash_ok demo_crypto demo_third"
    by (simp_all add: demo_third_def demo_block_def Block_make_def demo_block2_height block_hash_ok_def demo_vote_def Let_def)
  have "distinct [demo_key CHR ''a'', demo_key CHR ''b'']" by (simp add: demo_key_def)
  then have "votes_ok demo_crypto ch demo_third"
    using q demo_vote_ok [of demo_third] by (simp add: votes_ok_def f(4)) (simp add: demo_vote_def)
  moreover have "validateTx demo_crypto (chain_new [] [] []) 3 (demo_data CHR ''b'' 3)" by code_simp
  then have "validateTx demo_crypto ch 3 (demo_data CHR ''b'' 3)"
    unfolding demo_data_def by (rule demo_tx_valid) simp
  moreover have "ch_height ch = 2" "map_option blk_hash (latestBlock ch) = Some (blk_hash demo_block2)"
    using chain_ok_height [OF ok] ok by (simp_all add: chain_ok_def latest_is_def)
  ultimately show ?thesis using f by (auto simp: add_guard_def validateBlock_iff)
qed

theorem late_call_takes_chain_back_witness:
  "\<exists>es ch' cr'. add_exec demo_crypto mem_level demo_cfg no_propose es (demo_chain ''abc'', [], (), []) = Inr (ch', cr', (), []) \<and>
     lv_values mem_level (dbBlockchain ch') = map block_text [demo_genesis ''abc'', demo_block2, demo_third] \<and> ch_height ch' = 2"
proof -
  obtain cr where "chain_run demo_crypto mem_level demo_cfg no_propose (demo_key CHR ''a'')
    [demo_genesis ''abc''] (demo_chain ''abc'') cr ()" using demo_run1 by blast
  then have r: "chain_run demo_crypto mem_level demo_cfg no_propose (demo_key CHR ''a'')
    [demo_genesis ''abc''] (demo_chain ''abc'') [] ()" by (rule chain_run.other)
  obtain ch1 cr1 where r1: "chain_run demo_crypto mem_level demo_cfg no_propose (demo_key CHR ''a'')
    ([demo_genesis ''abc''] @ [demo_block2]) ch1 cr1 ()" using demo_run2 by auto
  then have g: "add_guard demo_crypto ch1 demo_third" by (intro demo_third_guard) simp
  have h: "blk_height demo_third = 3"
    by (simp add: demo_third_def demo_block_def Block_make_def demo_block2_height Let_def)
  then have "blk_height demo_third < 10 ^ 16" by simp
  from late_call_takes_chain_back [OF r mem_level_ok demo_max demo_guard demo_block2_quiet r1 g demo_third_quiet this] h
  show ?thesis by (simp del: add_exec.simps) blast
qed

end
