(* ===== verification/Node_Round.thy ===== *)
theory Node_Round
  imports Node_Theorems Async_Theorems
begin

text \<open>
  A round of the protocol among honest nodes, from the proposal of the validator to the block in
  every chain. Each node has its own store, configuration, clock and credits (record \<open>site\<close>); that
  they agree on the blocks so far, take the same peer for the validator and can send is the predicate
  \<open>follows\<close>. Here are the handlers one by one and what the nodes say, with the schemas that it satisfies;
  \<open>Wire_Round\<close> puts the packets on the wire.
\<close>

section \<open>The latest block\<close>

definition latest_height :: "'db chain \<Rightarrow> bool" where
  "latest_height ch \<longleftrightarrow> (\<forall>b. latestBlock ch = Some b \<longrightarrow> blk_height b = ch_height ch)"

lemma updateCache_latest:
  "updateCache cfg propose b (ch, cr, s) = Inr (ch', cr', s') \<Longrightarrow> latestBlock ch' = Some b \<and> ch_height ch' = blk_height b"
  by (elim updateCache_Inr) (simp add: cache_block_fields)

lemma init_loop_latest:
  "init_loop L cfg propose now vs (ch, cr, s) = Inr (ch', cr', s') \<Longrightarrow> latest_height ch \<Longrightarrow> latest_height ch'"
proof (induction vs arbitrary: ch cr s)
  case (Cons v vs)
  obtain b ch1 cr1 s1 where u: "updateCache cfg propose b (ch, cr, s) = Inr (ch1, cr1, s1)"
    and r: "(case processState L cfg now b (ch1, cr1) of (b', ch2, cr2) \<Rightarrow>
       init_loop L cfg propose now vs (refresh_cached b' ch2, cr2, s1)) = Inr (ch', cr', s')"
    using Cons.prems(1) by auto
  obtain b' ch2 cr2 where p: "processState L cfg now b (ch1, cr1) = (b', ch2, cr2)"
    by (cases "processState L cfg now b (ch1, cr1)") auto
  have "latest_height (refresh_cached b' ch2)"
    using updateCache_latest [OF u] processState_frame [OF p] processState_block [OF p]
    by (simp add: latest_height_def refresh_cached_def same_frame_def)
  then show ?case using Cons.IH r p by simp
qed simp

lemma chain_init_latest:
  assumes "chain_init L cfg propose now (ch, cr, s) = Inr (ch', cr', s')"
  shows "latest_height ch'"
proof -
  have "latest_height (ch\<lparr>ch_height := 0, mapBlocks := jm_empty, latestBlock := None, dbState := d\<rparr>)" for d
    by (simp add: latest_height_def)
  then show ?thesis using assms by (auto simp: chain_init_def elim: init_loop_latest)
qed

lemma chain_add_latest:
  "chain_add C L cfg propose now b (ch, cr, s) = Inr (True, b', ch', cr', s') \<Longrightarrow> latest_height ch'"
  by (auto simp: chain_add_def Let_def latest_height_def split: if_splits prod.splits dest!: updateCache_latest)

lemma chain_run_latest: "chain_run C L cfg propose pk bs ch cr s \<Longrightarrow> latest_height ch"
proof (induction rule: chain_run.induct)
  case (boot g now dbb dbs cr s ch' cr' s')
  then show ?case by (auto simp: chain_reset_def elim: chain_init_latest)
next
  case (restart bs ch cr s now cr0 s0 ch' cr' s')
  then show ?case by (auto elim: chain_init_latest)
qed (auto intro: chain_add_latest)

section \<open>Nodes that take part\<close>

record 'db site =
  si_level :: "'db level"
  si_cfg :: config
  si_env :: env
  si_chain :: "'db chain"
  si_credits :: credits
  si_node :: node

definition si_key :: "crypto \<Rightarrow> 'db site \<Rightarrow> string" where
  "si_key C x = own_key C (si_node x)"

text \<open>What a node needs of its network object: it sees \<open>v\<close> as validator, and reaches every other peer.\<close>

definition in_touch :: "crypto \<Rightarrow> config \<Rightarrow> env \<Rightarrow> 'db chain \<Rightarrow> string \<Rightarrow> node \<Rightarrow> bool" where
  "in_touch C cfg env ch v s \<longleftrightarrow> (\<exists>n. nd_net s = Some n \<and> samReady n \<and>
     set (arrayBroadcast n) = dom (getPeer ch) - {own_key C s} \<and>
     own_key C s \<in> set (map p_publicKey (arrayNetwork n)) \<and>
     calcValidator_of (isOnline cfg (own_key C s) (env_now env) n) (map p_publicKey (arrayNetwork n)) ch = Inr v)"

definition holds_blocks :: "'db level \<Rightarrow> config \<Rightarrow> block list \<Rightarrow> 'db chain \<Rightarrow> bool" where
  "holds_blocks L cfg bs ch \<longleftrightarrow> chain_ok (blockchain_max_blocks_in_memory cfg) bs ch \<and> stores L bs ch"

definition follows :: "crypto \<Rightarrow> block list \<Rightarrow> string \<Rightarrow> 'db site \<Rightarrow> bool" where
  "follows C bs v x \<longleftrightarrow> level_ok (si_level x) \<and> 1 \<le> blockchain_max_blocks_in_memory (si_cfg x) \<and>
     holds_blocks (si_level x) (si_cfg x) bs (si_chain x) \<and> sign_ok C (nd_wallet (si_node x)) \<and>
     in_touch C (si_cfg x) (si_env x) (si_chain x) v (si_node x)"

text \<open>The message is among the datagrams sent to the address of the peer \<open>pk\<close>.\<close>

definition sent_to :: "'db chain \<Rightarrow> string \<Rightarrow> message \<Rightarrow> node \<Rightarrow> bool" where
  "sent_to ch pk m s \<longleftrightarrow> (p_udp (the (getPeer ch pk)), m) \<in> set (nd_out s)"

text \<open>The connection does not depend on the block factory and what was sent.\<close>

lemma in_touch_other:
  "in_touch C cfg env ch v s \<Longrightarrow> nd_net s' = nd_net s \<Longrightarrow> nd_wallet s' = nd_wallet s \<Longrightarrow> in_touch C cfg env ch v s'"
  by (simp add: in_touch_def own_key_def)

lemma in_touch_calc:
  "in_touch C cfg env ch v s \<Longrightarrow> calcValidator C cfg env ch s = Inr (upd_fac (\<lambda>f. f\<lparr>validator := v\<rparr>) s)"
  by (auto simp: in_touch_def calcValidator_def net_of_def)

lemma in_touch_send:
  assumes "in_touch C cfg env ch v s" and "msg_origin m = own_key C s"
  shows "\<exists>xs. send ch m False s = Inr (s\<lparr>nd_out := nd_out s @ xs\<rparr>) \<and>
    (\<forall>pk. hasPeer ch pk \<longrightarrow> pk \<noteq> own_key C s \<longrightarrow> (p_udp (the (getPeer ch pk)), m) \<in> set xs)"
proof -
  obtain n where n: "nd_net s = Some n" "samReady n" "set (arrayBroadcast n) = dom (getPeer ch) - {own_key C s}"
    using assms(1) by (auto simp: in_touch_def)
  have d: "pk \<in> dom (getPeer ch) \<longleftrightarrow> hasPeer ch pk" for pk by (auto simp: hasPeer_def getPeer_def)
  then have "\<exists>xs. send_all ch n m (arrayBroadcast n) = Inr xs"
    unfolding send_all_Inr using n by auto
  then obtain xs where xs: "send_all ch n m (arrayBroadcast n) = Inr xs" by blast
  have "(p_udp (the (getPeer ch pk)), m) \<in> set xs" if "hasPeer ch pk" "pk \<noteq> own_key C s" for pk
  proof -
    have "pk \<in> set (filter (\<lambda>pk. pk \<noteq> msg_origin m) (arrayBroadcast n))" using that n(3) d assms(2) by simp
    then have "p_udp (the (getPeer ch pk)) \<in> set (map fst xs)" unfolding send_all_sends [OF xs, THEN conjunct1] by auto
    then obtain u where "(p_udp (the (getPeer ch pk)), u) \<in> set xs" by auto
    moreover from this have "u = m" using send_all_sends [OF xs] by (force simp: list_all_iff)
    ultimately show ?thesis by simp
  qed
  then show ?thesis using xs n(1) by (auto simp: send_def net_of_def broadcast_def)
qed

section \<open>Adding the block\<close>

lemma calcValidator_of_own:
  assumes "own \<in> set a" and "on own" and "latestBlock ch = Some b"
    and "blk_hash b \<noteq> []" and "length (blk_hash b) = length (blk_previousHash b)"
  shows "\<exists>v. calcValidator_of on a ch = Inr v"
proof -
  have N: "0 < length a" using assms(1) by (cases a) auto
  define h d where "h = nat (ch_height ch mod int (length a))"
    and "d = nat (diff_loop (blk_hash b) (blk_previousHash b) 0 mod int (length a))"
  have hd: "h < length a" "d < length a" using N by (simp_all add: h_def d_def nat_less_iff)
  have ex: "\<exists>j. next_online on a i = Some j" if "i < length a" for i
    using next_online_None_iff [of i a on] that assms(1,2) by (cases "next_online on a i") auto
  have s: "stringDiff (blk_hash b) (blk_previousHash b) = Inr (diff_loop (blk_hash b) (blk_previousHash b) 0)"
    using assms(4,5) by (simp add: stringDiff_def)
  obtain j k where "next_online on a h = Some j" "next_online on a d = Some k" using ex hd by blast
  then show ?thesis using N assms(3) s
    by (cases "on (a ! h)") (simp_all add: calcValidator_of_def Let_def flip: h_def d_def)
qed

lemma addBlock_quiet:
  assumes L: "level_ok L" and m: "1 \<le> blockchain_max_blocks_in_memory cfg" and st: "holds_blocks L cfg bs ch"
    and c: "in_touch C cfg env ch v s" and g: "add_guard C ch b" and q: "quiet b" and h: "blk_height b < 10 ^ 16"
    and l: "blk_hash b \<noteq> []" "length (blk_hash b) = length (blk_previousHash b)"
  shows "\<exists>ch' cr' s'. addBlock C L cfg env b (ch, cr, s) = Inr (ch', cr', s') \<and> holds_blocks L cfg (bs @ [b]) ch' \<and>
    nd_out s' = nd_out s \<and> nd_net s' = nd_net s"
proof -
  let ?ch = "updateBlockData L (block_key (blk_height b)) (block_text b) ch"
  obtain b1 ch1 cr1 where p: "processState L cfg (env_now env) b (?ch, cr) = (b1, ch1, cr1)"
    by (cases "processState L cfg (env_now env) b (?ch, cr)") auto
  have "hash_match_count b1 = hash_match_count b" by (simp only: hash_match_count_def processState_block [OF p])
  then have "quiet b1" using q by (simp add: quiet_def)
  from updateCache_quiet [OF this, of cfg "proposeModifyStake C cfg env" ch1 cr1 s]
  obtain ch2 where u: "updateCache cfg (proposeModifyStake C cfg env) b1 (ch1, cr1, s) = Inr (ch2, cr1, s)" by blast
  have a: "chain_add C L cfg (proposeModifyStake C cfg env) (env_now env) b (ch, cr, s) = Inr (True, b1, ch2, cr1, s)"
    using g p u by (simp add: chain_add_def)
  have ok: "holds_blocks L cfg (bs @ [b]) ch2"
    using chain_add_ok [OF L refl m _ _ h a] st by (simp add: holds_blocks_def)
  let ?s = "upd_fac (factory_clear (Some b1)) s"
  obtain n where n: "nd_net s = Some n" "own_key C s \<in> set (map p_publicKey (arrayNetwork n))"
    using c by (auto simp: in_touch_def)
  have b1: "latestBlock ch2 = Some b1" "blk_hash b1 \<noteq> []" "length (blk_hash b1) = length (blk_previousHash b1)"
    using updateCache_latest [OF u] processState_block [OF p] l by simp_all
  have "isOnline cfg (own_key C s) (env_now env) n (own_key C s)" by (simp add: isOnline_def)
  from calcValidator_of_own [where on = "isOnline cfg (own_key C s) (env_now env) n", OF n(2) this b1] obtain w where
    "calcValidator_of (isOnline cfg (own_key C s) (env_now env) n) (map p_publicKey (arrayNetwork n)) ch2 = Inr w" by blast
  then have "calcValidator C cfg env ch2 ?s = Inr (upd_fac (\<lambda>f. f\<lparr>validator := w\<rparr>) ?s)"
    using n(1) by (simp add: calcValidator_def net_of_def own_key_def)
  then show ?thesis using a ok by (simp add: addBlock_def Let_def)
qed

section \<open>The handlers, one by one\<close>

lemma quiet_votes: "quiet (b\<lparr>blk_votes := vs\<rparr>) = quiet b"
proof -
  have "hash_match_count (b\<lparr>blk_votes := vs\<rparr>) = hash_match_count b" by (simp add: hash_match_count_def Let_def)
  then show ?thesis by (simp only: quiet_def)
qed

text \<open>A peer that receives the proposal signs it.\<close>

lemma peer_signs:
  assumes c: "in_touch C cfg env ch v s" and k: "own_key C s \<noteq> v" "hasPeer ch v"
    and b: "blk_height b = ch_height ch + 1" "Some (blk_previousHash b) = map_option blk_hash (latestBlock ch)" "validateBlock C ch b False"
    and m: "msg_origin m = v" "msg_data m = ProposeBlockData b"
  shows "\<exists>s'. processMessage C L cfg env m (ch, cr, s) = Inr (ch, cr, s') \<and> fac_block (nd_fac s') = Some b \<and>
    nd_net s' = nd_net s \<and> nd_wallet s' = nd_wallet s \<and>
    sent_to ch v (SignBlock_create C (nd_wallet s) (env_now env) v (blk_hash b)) s'"
proof -
  let ?s = "upd_fac (\<lambda>f. f\<lparr>validator := v\<rparr>) s"
  let ?s2 = "upd_fac (\<lambda>f. f\<lparr>fac_block := Some b, validator := v\<rparr>) s"
  let ?g = "SignBlock_create C (nd_wallet s) (env_now env) v (blk_hash b)"
  have c2: "in_touch C cfg env ch v ?s" "in_touch C cfg env ch v ?s2"
    "in_touch C cfg env ch v (upd_fac (\<lambda>f. f\<lparr>fac_block := Some b\<rparr>) ?s)"
    by (rule in_touch_other [OF c]; simp)+
  have "msg_origin ?g = own_key C ?s2" by (simp add: SignBlock_create_def Message_init_def own_key_def)
  from in_touch_send [OF c2(2) this] obtain xs where xs: "send ch ?g False ?s2 = Inr (?s2\<lparr>nd_out := nd_out s @ xs\<rparr>)"
    "(p_udp (the (getPeer ch v)), ?g) \<in> set xs" using k by (auto simp: own_key_def)
  have v: "isValidator ?s v" "\<not> isValidator ?s2 (own_key C ?s2)"
    using k by (simp_all add: isValidator_def own_key_def)
  have "processProposeBlock C L cfg env b (ch, cr, ?s)
      = Inr (ch, cr, upd_fac (\<lambda>f. f\<lparr>timeoutRetry := True\<rparr>) (?s2\<lparr>nd_out := nd_out s @ xs\<rparr>))"
    using b xs(1) v(2) in_touch_calc [OF c2(3)] by (simp add: processProposeBlock_def Let_def)
  then show ?thesis
    using in_touch_calc [OF c] v(1) m xs(2) by (simp add: processMessage_def sent_to_def type_defs)
qed

text \<open>A node that has the block adds it when the votes are confirmed.\<close>

lemma peer_confirms:
  assumes "level_ok L" and "1 \<le> blockchain_max_blocks_in_memory cfg" and "holds_blocks L cfg bs ch"
    and c: "in_touch C cfg env ch v s" and f: "fac_block (nd_fac s) = Some b" and p: "0 < blk_height b"
    and g: "add_guard C ch (b\<lparr>blk_votes := votes\<rparr>)" and "quiet b" and "blk_height b < 10 ^ 16"
    and "blk_hash b \<noteq> []" and "length (blk_hash b) = length (blk_previousHash b)"
    and m: "msg_origin m = v" "msg_data m = ConfirmBlockData (blk_hash b) votes"
  shows "\<exists>ch' cr' s'. processMessage C L cfg env m (ch, cr, s) = Inr (ch', cr', s') \<and>
    holds_blocks L cfg (bs @ [b\<lparr>blk_votes := votes\<rparr>]) ch' \<and> nd_net s' = nd_net s"
proof -
  let ?b = "b\<lparr>blk_votes := votes\<rparr>"
  let ?s = "upd_fac (\<lambda>f. f\<lparr>validator := v\<rparr>) s"
  let ?s2 = "upd_fac (\<lambda>f. f\<lparr>validator := v, fac_block := Some ?b\<rparr>) s"
  have "in_touch C cfg env ch v ?s2" by (rule in_touch_other [OF c]) simp_all
  moreover have "quiet ?b" using assms(8) by (simp add: quiet_votes)
  ultimately obtain ch' cr' s' where "addBlock C L cfg env ?b (ch, cr, ?s2) = Inr (ch', cr', s')"
    "holds_blocks L cfg (bs @ [?b]) ch'" "nd_net s' = nd_net s"
    using addBlock_quiet [OF assms(1-3) _ g, of env v ?s2 cr] assms(9-11) by auto
  then show ?thesis using in_touch_calc [OF c] m f p
    by (simp add: processMessage_def processConfirmBlock_def hasBlock_def isValidator_def type_defs Let_def)
qed

text \<open>The validator counts a vote; with the quorum it confirms and adds the block.\<close>

definition vote_of :: "message \<Rightarrow> vote" where
  "vote_of m = \<lparr>vote_origin = msg_origin m,
     vote_sig = (case msg_data m of SignBlockData h g \<Rightarrow> g | _ \<Rightarrow> [])\<rparr>"

definition signs :: "string \<Rightarrow> message \<Rightarrow> bool" where
  "signs hash m \<longleftrightarrow> (\<exists>g. msg_data m = SignBlockData hash g)"

lemma count_step:
  assumes c: "in_touch C cfg env ch v s" and v: "own_key C s = v" and f: "fac_block (nd_fac s) = Some b"
    and m: "signs (blk_hash b) m" "msg_origin m \<notin> vote_origin ` set (blk_votes b)"
    and b': "b' = b\<lparr>blk_votes := blk_votes b @ [vote_of m]\<rparr>" "s' = upd_fac (\<lambda>f. f\<lparr>validator := v, fac_block := Some b'\<rparr>) s"
  shows "processMessage C L cfg env m (ch, cr, s)
      = (if hasQuorumWeighted ch (map vote_origin (blk_votes b'))
         then bindr (send ch (ConfirmBlock_create C (nd_wallet s) (env_now env) (blk_hash b) (blk_votes b')) False s')
                (\<lambda>s. addBlock C L cfg env b' (ch, cr, s))
         else Inr (ch, cr, s'))"
proof -
  obtain sig where d: "msg_data m = SignBlockData (blk_hash b) sig" using m(1) by (auto simp: signs_def)
  then have "vote_of m = \<lparr>vote_origin = msg_origin m, vote_sig = sig\<rparr>" by (simp add: vote_of_def)
  moreover have "\<not> list_ex (\<lambda>v. vote_origin v = msg_origin m) (blk_votes b)" using m(2) by (force simp: list_ex_iff)
  ultimately show ?thesis using in_touch_calc [OF c] v f d
    by (simp add: processMessage_def processSignBlock_def isValidator_def own_key_def type_defs b' Let_def)
qed

lemma quorum_step:
  assumes L: "level_ok L" "1 \<le> blockchain_max_blocks_in_memory cfg" "holds_blocks L cfg bs ch"
    and c: "in_touch C cfg env ch v s" and v: "own_key C s = v" and f: "fac_block (nd_fac s) = Some b"
    and m: "signs (blk_hash b) m" "msg_origin m \<notin> vote_origin ` set (blk_votes b)"
    and b': "b' = b\<lparr>blk_votes := blk_votes b @ [vote_of m]\<rparr>" and g: "add_guard C ch b'"
    and q: "quiet b" "blk_height b < 10 ^ 16" "blk_hash b \<noteq> []" "length (blk_hash b) = length (blk_previousHash b)"
  shows "\<exists>ch' cr' s'. processMessage C L cfg env m (ch, cr, s) = Inr (ch', cr', s') \<and> holds_blocks L cfg (bs @ [b']) ch' \<and>
    nd_net s' = nd_net s \<and> (\<forall>pk. hasPeer ch pk \<longrightarrow> pk \<noteq> v \<longrightarrow>
      sent_to ch pk (ConfirmBlock_create C (nd_wallet s) (env_now env) (blk_hash b) (blk_votes b')) s')"
proof -
  let ?s = "upd_fac (\<lambda>f. f\<lparr>validator := v, fac_block := Some b'\<rparr>) s"
  let ?m = "ConfirmBlock_create C (nd_wallet s) (env_now env) (blk_hash b) (blk_votes b')"
  have c2: "in_touch C cfg env ch v ?s" by (rule in_touch_other [OF c]) simp_all
  have quo: "hasQuorumWeighted ch (map vote_origin (blk_votes b'))" using g by (simp add: add_guard_def validateBlock_iff votes_ok_def)
  have "msg_origin ?m = own_key C ?s" by (simp add: ConfirmBlock_create_def Message_init_def own_key_def)
  from in_touch_send [OF c2 this] obtain xs where xs: "send ch ?m False ?s = Inr (?s\<lparr>nd_out := nd_out s @ xs\<rparr>)"
    "\<forall>pk. hasPeer ch pk \<longrightarrow> pk \<noteq> v \<longrightarrow> (p_udp (the (getPeer ch pk)), ?m) \<in> set xs"
    using v by (auto simp: own_key_def)
  have c3: "in_touch C cfg env ch v (?s\<lparr>nd_out := nd_out s @ xs\<rparr>)" by (rule in_touch_other [OF c2]) simp_all
  have "quiet b'" "blk_height b' < 10 ^ 16" "blk_hash b' \<noteq> []" "length (blk_hash b') = length (blk_previousHash b')"
    using q by (simp_all add: b' quiet_votes)
  from addBlock_quiet [OF L c3 g this, of cr] obtain ch' cr' s' where
    "addBlock C L cfg env b' (ch, cr, ?s\<lparr>nd_out := nd_out s @ xs\<rparr>) = Inr (ch', cr', s')"
    "holds_blocks L cfg (bs @ [b']) ch'" "nd_out s' = nd_out s @ xs" "nd_net s' = nd_net s" by auto
  then show ?thesis using count_step [OF c v f m b' refl, of L cr] quo xs by (simp add: sent_to_def)
qed

text \<open>The validator proposes.\<close>

lemma validator_proposes:
  assumes c: "in_touch C cfg env ch v s" and v: "own_key C s = v" and lb: "latestBlock ch = Some latest"
    and b: "b = Block_make C latest (arrayPoolTx (nd_fac s))" "b1 = b\<lparr>blk_votes := [own_vote C (nd_wallet s) (blk_hash b)]\<rparr>"
  shows "\<exists>s1. fire_proposeBlock C env ch s = Inr s1 \<and> fac_block (nd_fac s1) = Some b1 \<and> nd_net s1 = nd_net s \<and> nd_wallet s1 = nd_wallet s \<and>
    (\<forall>pk. hasPeer ch pk \<longrightarrow> pk \<noteq> v \<longrightarrow> sent_to ch pk (ProposeBlock_create C (nd_wallet s) (env_now env) b1) s1)"
proof -
  let ?s = "upd_fac (\<lambda>f. f\<lparr>fac_block := Some b1, timeoutProposeBlock := False\<rparr>) s"
  let ?m = "ProposeBlock_create C (nd_wallet s) (env_now env) b1"
  have c1: "in_touch C cfg env ch v ?s" by (rule in_touch_other [OF c]) simp_all
  have "msg_origin ?m = own_key C ?s" by (simp add: ProposeBlock_create_def Message_init_def own_key_def)
  from in_touch_send [OF c1 this] obtain xs where xs: "send ch ?m False ?s = Inr (?s\<lparr>nd_out := nd_out s @ xs\<rparr>)"
    "\<forall>pk. hasPeer ch pk \<longrightarrow> pk \<noteq> v \<longrightarrow> (p_udp (the (getPeer ch pk)), ?m) \<in> set xs"
    using v by (auto simp: own_key_def)
  have b1: "b1 = b\<lparr>blk_votes := blk_votes b @ [own_vote C (nd_wallet s) (blk_hash b)]\<rparr>"
    by (simp add: b Block_make_def Let_def)
  have "fire_proposeBlock C env ch s = Inr (?s\<lparr>nd_out := nd_out s @ xs\<rparr>)"
    using xs(1) unfolding fire_proposeBlock_def lb option.case Let_def b(1) [symmetric] b1 [symmetric] by simp
  then show ?thesis using xs(2) by (auto simp: sent_to_def)
qed

section \<open>The round\<close>

text \<open>What the nodes say in the round of the block on \<open>latest\<close> with the transactions \<open>txs\<close>.\<close>

definition round_proposal :: "crypto \<Rightarrow> block \<Rightarrow> transaction list \<Rightarrow> 'db site \<Rightarrow> message" where
  "round_proposal C latest txs x =
     (let b = Block_make C latest txs; w = nd_wallet (si_node x)
      in ProposeBlock_create C w (env_now (si_env x)) (b\<lparr>blk_votes := [own_vote C w (blk_hash b)]\<rparr>))"

definition round_signature :: "crypto \<Rightarrow> block \<Rightarrow> transaction list \<Rightarrow> string \<Rightarrow> 'db site \<Rightarrow> message" where
  "round_signature C latest txs v x =
     SignBlock_create C (nd_wallet (si_node x)) (env_now (si_env x)) v (blk_hash (Block_make C latest txs))"

definition round_block :: "crypto \<Rightarrow> block \<Rightarrow> transaction list \<Rightarrow> 'db site list \<Rightarrow> block" where
  "round_block C latest txs xs =
     (let b = Block_make C latest txs in b\<lparr>blk_votes := map (\<lambda>x. own_vote C (nd_wallet (si_node x)) (blk_hash b)) xs\<rparr>)"

definition round_confirmation :: "crypto \<Rightarrow> block \<Rightarrow> transaction list \<Rightarrow> 'db site list \<Rightarrow> 'db site \<Rightarrow> message" where
  "round_confirmation C latest txs xs x =
     (let b = round_block C latest txs xs
      in ConfirmBlock_create C (nd_wallet (si_node x)) (env_now (si_env x)) (blk_hash b) (blk_votes b))"

lemma follows_view:
  assumes "follows C bs v x" and "follows C bs v y"
  shows "ledger_view (si_chain x) = ledger_view (si_chain y)" and "ch_height (si_chain x) = ch_height (si_chain y)"
    and "map_option blk_hash (latestBlock (si_chain x)) = map_option blk_hash (latestBlock (si_chain y))"
proof -
  have o: "chain_ok (blockchain_max_blocks_in_memory (si_cfg x)) bs (si_chain x)"
    "chain_ok (blockchain_max_blocks_in_memory (si_cfg y)) bs (si_chain y)"
    using assms by (simp_all add: follows_def holds_blocks_def)
  show "ledger_view (si_chain x) = ledger_view (si_chain y)"
    and "map_option blk_hash (latestBlock (si_chain x)) = map_option blk_hash (latestBlock (si_chain y))"
    using o unfolding chain_ok_def latest_is_def by metis+
  show "ch_height (si_chain x) = ch_height (si_chain y)" using o [THEN chain_ok_height] by simp
qed

lemma getPeer_view: "ledger_view ch = ledger_view ch' \<Longrightarrow> getPeer ch = getPeer ch'"
  by (rule ext) (simp add: getPeer_def ledger_view_eq)

lemma round_block_fields:
  "blk_hash (round_block C latest txs xs) = blk_hash (Block_make C latest txs)"
  "blk_height (round_block C latest txs xs) = blk_height latest + 1"
  "blk_previousHash (round_block C latest txs xs) = blk_hash latest" "blk_tx (round_block C latest txs xs) = txs"
  "block_hash_ok C (round_block C latest txs xs)"
  "map vote_origin (blk_votes (round_block C latest txs xs)) = map (si_key C) xs"
  by (simp_all add: round_block_def Block_make_def block_hash_ok_def own_vote_def si_key_def own_key_def Let_def)

lemma round_block_guard:
  assumes b: "latestBlock (si_chain V) = Some latest" "blk_height latest = ch_height (si_chain V)"
    and t: "txs \<noteq> []" "distinct (map tx_origin txs)" "\<forall>t \<in> set txs. validateTx C (si_chain V) (ch_height (si_chain V) + 1) t"
    and xs: "\<forall>x \<in> set xs. sign_ok C (nd_wallet (si_node x))" "distinct (map (si_key C) xs)"
    and q: "hasQuorumWeighted (si_chain V) (map (si_key C) xs)"
  shows "add_guard C (si_chain V) (round_block C latest txs xs)"
proof -
  have "\<forall>v \<in> set (blk_votes (round_block C latest txs xs)).
      verifySignature C (vote_origin v) (vote_sig v) (blk_hash (Block_make C latest txs))"
    using xs(1) verify_own by (auto simp: round_block_def own_vote_def Let_def)
  then have "votes_ok C (si_chain V) (round_block C latest txs xs)"
    using xs(2) q by (simp add: votes_ok_def round_block_fields)
  then show ?thesis using b t by (simp add: add_guard_def validateBlock_iff round_block_fields)
qed

section \<open>The messages of a round against the schemas\<close>

lemma round_schemas:
  assumes w: "\<forall>x \<in> set (V # ps). wallet_ok C (nd_wallet (si_node x)) \<and> 1 \<le> env_now (si_env x)" and v: "v = si_key C V"
    and k: "distinct (map (si_key C) (V # ps))" and h: "pattern_key (blk_hash (Block_make C latest txs))" "pattern_key (blk_hash latest)" "1 \<le> blk_height latest"
    and txs: "txs \<noteq> []" "distinct (map tx_origin txs)" "\<forall>t \<in> set txs. validateTx C ch (blk_height latest + 1) t"
  shows "(\<forall>x \<in> set ps. schema_message (round_signature C latest txs v x)) \<and>
    schema_message (round_proposal C latest txs V) = (length txs \<le> 16) \<and>
    schema_message (round_confirmation C latest txs (V # ps) V) = (length (V # ps) \<le> 16)"
proof -
  have wk: "pattern_key (getPublicKey C (nd_wallet (si_node x)))" "pattern_sig (wallet_sign C (nd_wallet (si_node x)) d)" "1 \<le> env_now (si_env x)"
    if "x \<in> set (V # ps)" for x d using w that by (auto simp: wallet_ok_def)
  have s: "list_all schema_tx txs" using txs(3) by (simp add: validateTx_def list_all_iff)
  have d: "distinct txs" using txs(2) by (simp add: distinct_map)
  let ?b = "round_block C latest txs (V # ps)"
  note b = h(1)
  have n: "1 \<le> length txs" using txs(1) by (cases txs) simp_all
  have "map vote_origin (blk_votes ?b) = map (si_key C) (V # ps)" by (rule round_block_fields)
  then have "distinct (blk_votes ?b)" "length (blk_votes ?b) = length (V # ps)" using k by (metis distinct_map, metis length_map)
  moreover have "list_all schema_vote (blk_votes ?b)"
    using wk by (auto simp: round_block_def own_vote_def schema_vote_def list_all_iff Let_def)
  ultimately have "schema_votes (blk_votes ?b) = (length (V # ps) \<le> 16)" by (simp add: schema_votes_def)
  then have c: "schema_message (round_confirmation C latest txs (V # ps) V) = (length (V # ps) \<le> 16)"
    using b wk [of V] unfolding round_confirmation_def ConfirmBlock_create_def Message_init_def Let_def schema_message_def
    by (simp add: round_block_fields)
  have "schema_vote (own_vote C (nd_wallet (si_node V)) (blk_hash (Block_make C latest txs)))"
    using wk [of V] by (simp add: own_vote_def schema_vote_def)
  then have p: "schema_message (round_proposal C latest txs V) = (length txs \<le> 16)"
    using b wk [of V] h(2,3) s d n
    by (simp add: round_proposal_def ProposeBlock_create_def Message_init_def schema_message_def schema_block_def schema_votes_def Let_def)
      (simp add: Block_make_def BLOCK_VERSION_def Let_def)
  have "schema_message (round_signature C latest txs v x)" if "x \<in> set ps" for x
    using b wk [of V] wk [of x] that by (simp add: v round_signature_def SignBlock_create_def Message_init_def schema_message_def si_key_def own_key_def)
  with c p show ?thesis by blast
qed

text \<open>C23: Of the messages of a round among well-formed wallets, every signature satisfies the schema; the proposal satisfies it
  exactly when the pool has at most 16 transactions, and the confirmation exactly when at most 16 peers voted. Larger
  ones are sent all the same, and every receiver ignores them.\<close>

theorem round_messages_typed:
  assumes w: "\<forall>x \<in> set (V # ps). wallet_ok C (nd_wallet (si_node x)) \<and> 1 \<le> env_now (si_env x)" and v: "v = si_key C V"
    and k: "distinct (map (si_key C) (V # ps))" and h: "pattern_key (blk_hash (Block_make C latest txs))" "pattern_key (blk_hash latest)" "1 \<le> blk_height latest"
    and txs: "txs \<noteq> []" "distinct (map tx_origin txs)" "\<forall>t \<in> set txs. validateTx C ch (blk_height latest + 1) t"
  shows "(\<forall>x \<in> set ps. schema_message (round_signature C latest txs v x)) \<and>
    schema_message (round_proposal C latest txs V) = (length txs \<le> 16) \<and>
    schema_message (round_confirmation C latest txs (V # ps) V) = (length (V # ps) \<le> 16)"
  using assms by (rule round_schemas)

section \<open>An instance\<close>

text \<open>Two of the three sample nodes; the second one is the validator of the second block.\<close>

definition demo_site :: "char \<Rightarrow> transaction list \<Rightarrow> (string \<times> string) list site" where
  "demo_site c txs =
     \<lparr>si_level = mem_level, si_cfg = demo_cfg, si_env = demo_env, si_chain = demo_chain ''abc'', si_credits = jm_empty,
      si_node = demo_node\<lparr>nd_wallet := demo_wallet c,
        nd_net := Some (demo_net\<lparr>arrayBroadcast := map demo_key (filter (\<lambda>d. d \<noteq> c) ''abc'')\<rparr>),
        nd_fac := factory_new\<lparr>arrayPoolTx := txs\<rparr>\<rparr>\<rparr>"

lemma demo_site_key: "si_key demo_crypto (demo_site c txs) = demo_key c"
  by (simp add: si_key_def own_key_def demo_site_def demo_own_key)

lemma demo_peers: "dom (getPeer (demo_chain ''abc'')) = demo_key ` set ''abc''"
proof -
  have "getPeer (demo_chain ''abc'') k = map_of (map (\<lambda>c. (demo_key c, demo_peer c)) ''abc'') k" for k
    by (simp add: getPeer_def jm_get_def demo_mapPeer)
  then have "dom (getPeer (demo_chain ''abc'')) = dom (map_of (map (\<lambda>c. (demo_key c, demo_peer c)) ''abc''))"
    by (auto simp: dom_def)
  then show ?thesis by (auto simp: dom_def split: if_splits)
qed

lemma demo_site_follows:
  assumes "c \<in> set ''abc''"
  shows "follows demo_crypto [demo_genesis ''abc''] (demo_key CHR ''b'') (demo_site c txs)"
proof -
  let ?s = "si_node (demo_site c txs)" and ?n = "demo_net\<lparr>arrayBroadcast := map demo_key (filter (\<lambda>d. d \<noteq> c) ''abc'')\<rparr>"
  have n: "nd_net ?s = Some ?n" "samReady ?n" by (simp_all add: demo_site_def demo_net_def)
  have k: "own_key demo_crypto ?s = demo_key c" using demo_site_key by (simp add: si_key_def)
  have b: "set (arrayBroadcast ?n) = dom (getPeer (demo_chain ''abc'')) - {own_key demo_crypto ?s}"
    unfolding demo_peers k by auto
  have m: "map p_publicKey (arrayNetwork ?n) = map demo_key ''abc''" by (simp add: demo_net_def demo_peer_def)
  have o: "own_key demo_crypto ?s \<in> set (map p_publicKey (arrayNetwork ?n))" unfolding m k using assms by auto
  have v: "calcValidator_of (isOnline demo_cfg (own_key demo_crypto ?s) 100000 ?n) (map demo_key ''abc'') (demo_chain ''abc'')
      = Inr (demo_key CHR ''b'')"
  proof -
    let ?on = "isOnline demo_cfg (own_key demo_crypto ?s) 100000 ?n"
    have "?on (map demo_key ''abc'' ! 1)" using demo_online by (simp add: isOnline_def)
    then have "next_online ?on (map demo_key ''abc'') 1 = Some 1" by (intro next_online_stop) simp_all
    moreover have i: "nat (ch_height (demo_chain ''abc'') mod int (length (map demo_key ''abc''))) = 1"
      by (simp add: demo_chain_fields)
    ultimately show ?thesis using \<open>?on (map demo_key ''abc'' ! 1)\<close> unfolding calcValidator_of_def i Let_def by simp
  qed
  have "in_touch demo_crypto demo_cfg demo_env (demo_chain ''abc'') (demo_key CHR ''b'') ?s"
    unfolding in_touch_def
    by (intro exI [of _ ?n] conjI n b o) (use v in \<open>simp only: m demo_env_def env.select_convs\<close>)
  then show ?thesis
    using mem_level_ok demo_max demo_chain_ok demo_sign_ok [of c] by (simp add: follows_def holds_blocks_def) (simp add: demo_site_def)
qed

theorem round_messages_typed_witness:
  "schema_message (round_confirmation demo_crypto (demo_genesis ''abc'') [demo_data CHR ''a'' 2] [demo_site CHR ''b'' [], demo_site CHR ''a'' []] (demo_site CHR ''b'' []))"
proof -
  let ?V = "demo_site CHR ''b'' []" and ?ps = "[demo_site CHR ''a'' []]" and ?txs = "[demo_data CHR ''a'' 2]"
  have "is_b64url CHR ''a''" "is_b64url CHR ''b''" by code_simp+
  then have w: "\<forall>x \<in> set (?V # ?ps). wallet_ok demo_crypto (nd_wallet (si_node x)) \<and> 1 \<le> env_now (si_env x)"
    using demo_wallet_ok by (simp add: demo_site_def demo_env_def)
  have k: "distinct (map (si_key demo_crypto) (?V # ?ps))" by (simp add: demo_site_key)
  have h: "pattern_key (blk_hash (Block_make demo_crypto (demo_genesis ''abc'') ?txs))" "pattern_key (blk_hash (demo_genesis ''abc''))"
    "1 \<le> blk_height (demo_genesis ''abc'')" by code_simp+
  have "validateTx demo_crypto (chain_new [] [] []) 2 (demo_data CHR ''a'' 2)" by code_simp
  then have t: "\<forall>t \<in> set ?txs. validateTx demo_crypto (chain_new [] [] [] :: (string \<times> string) list chain) (blk_height (demo_genesis ''abc'') + 1) t"
    by (simp add: demo_genesis_height)
  from round_messages_typed [OF w refl k h _ _ t] show ?thesis by simp
qed

end
