(* ===== verification/Wire_Round.thy ===== *)
theory Wire_Round
  imports Node_Round
begin

text \<open>
  The round of \<open>Node_Round\<close> on the wire: every message is packed by its sender, arrives as a datagram
  from the sender's address, passes unpacking, the schema and the check of the sequence number, is
  processed, and is passed on by the first node that hears it. The lemmas carry what a node needs
  of its network object (\<open>in_touch\<close>, \<open>hears\<close>, \<open>fresh\<close>) through the datagrams.
\<close>

section \<open>Datagrams\<close>

definition address :: "'db chain \<Rightarrow> string \<Rightarrow> string" where
  "address ch k = p_udp (the (getPeer ch k))"

text \<open>The node knows the peer \<open>k\<close> by its address and takes it for online.\<close>

definition hears :: "crypto \<Rightarrow> config \<Rightarrow> env \<Rightarrow> 'db chain \<Rightarrow> string \<Rightarrow> node \<Rightarrow> bool" where
  "hears C cfg env ch k s \<longleftrightarrow> k \<noteq> [] \<and> getPublicKeyByUdp ch (address ch k) = k \<and>
     (\<exists>n. nd_net s = Some n \<and> \<not> isClosing n \<and> isOnline cfg (own_key C s) (env_now env) n k)"

definition fresh :: "message \<Rightarrow> node \<Rightarrow> bool" where
  "fresh m s \<longleftrightarrow> (\<exists>n. nd_net s = Some n \<and> is_newer n m)"

text \<open>The packet of a message that its sender made.\<close>

definition packed :: "crypto \<Rightarrow> message \<Rightarrow> string \<Rightarrow> bool" where
  "packed C m t \<longleftrightarrow> (\<exists>w. wallet_ok C w \<and> msg_origin m = getPublicKey C w \<and> Message_pack C w VERSION_4 m = Inr t)"

definition noted :: "env \<Rightarrow> message \<Rightarrow> node \<Rightarrow> node" where
  "noted env m s = s\<lparr>nd_net := map_option (note_message (env_now env) (msg_origin m) m) (nd_net s)\<rparr>"

fun receive_all ::
    "crypto \<Rightarrow> 'db level \<Rightarrow> config \<Rightarrow> env \<Rightarrow> (string \<times> string) list \<Rightarrow> 'db state \<Rightarrow> 'db state result" where
  "receive_all C L cfg env [] st = Inr st"
| "receive_all C L cfg env ((u, d) # ps) st =
     bindr (incomingData C L cfg env d u st) (\<lambda>st. receive_all C L cfg env ps st)"

lemma noted_fields [simp]:
  "nd_wallet (noted env m s) = nd_wallet s" "nd_fac (noted env m s) = nd_fac s" "nd_out (noted env m s) = nd_out s"
  "own_key C (noted env m s) = own_key C s" "nd_net (noted env m s) = map_option (note_message (env_now env) (msg_origin m) m) (nd_net s)"
  by (simp_all add: noted_def own_key_def)

lemma isOnline_note:
  "isOnline cfg own now n pk \<Longrightarrow> 0 < network_p2p_interval_ms cfg \<Longrightarrow>
    isOnline cfg own now (note_message now pk m n) = isOnline cfg own now n"
  by (rule ext) (auto simp: isOnline_def note_message_def)

lemma noted_in_touch:
  assumes "in_touch C cfg env ch v s" and "hears C cfg env ch (msg_origin m) s" and "0 < network_p2p_interval_ms cfg"
  shows "in_touch C cfg env ch v (noted env m s)"
proof -
  obtain n where n: "nd_net s = Some n" "isOnline cfg (own_key C s) (env_now env) n (msg_origin m)"
    using assms(2) by (auto simp: hears_def)
  let ?n = "note_message (env_now env) (msg_origin m) m n"
  have "samReady ?n = samReady n" "arrayBroadcast ?n = arrayBroadcast n" "arrayNetwork ?n = arrayNetwork n"
    by (simp_all add: note_message_def)
  then show ?thesis using assms(1) n isOnline_note [OF n(2) assms(3), of m] by (auto simp: in_touch_def)
qed

lemma noted_hears:
  assumes "hears C cfg env ch k s" and "hears C cfg env ch (msg_origin m) s" and "0 < network_p2p_interval_ms cfg"
  shows "hears C cfg env ch k (noted env m s)"
proof -
  obtain n where n: "nd_net s = Some n" "isOnline cfg (own_key C s) (env_now env) n (msg_origin m)"
    using assms(2) by (auto simp: hears_def)
  have "isClosing (note_message (env_now env) (msg_origin m) m n) = isClosing n" by (simp add: note_message_def)
  then show ?thesis using assms(1) n isOnline_note [OF n(2) assms(3), of m] by (auto simp: hears_def)
qed

lemma noted_fresh: "fresh m' s \<Longrightarrow> message_key m' \<noteq> message_key m \<Longrightarrow> fresh m' (noted env m s)"
  by (auto simp: fresh_def is_newer_def note_message_def)

text \<open>These depend on the network object and the wallet only.\<close>

lemma hears_other: "hears C cfg env ch k s \<Longrightarrow> nd_net s' = nd_net s \<Longrightarrow> nd_wallet s' = nd_wallet s \<Longrightarrow> hears C cfg env ch k s'"
  by (simp add: hears_def own_key_def)

lemma fresh_other: "fresh m s \<Longrightarrow> nd_net s' = nd_net s \<Longrightarrow> fresh m s'"
  by (simp add: fresh_def)

lemma sent_to_more: "sent_to ch k m s \<Longrightarrow> nd_out s' = nd_out s @ xs \<Longrightarrow> sent_to ch k m s'"
  by (simp add: sent_to_def)

text \<open>A packet that is heard is processed and passed on.\<close>

lemma incoming_packet:
  assumes C: "codec_ok C" and p: "packed C m t" and sc: "schema_message m" and ty: "data_type (msg_data m) \<noteq> TYPE_STATUS"
    and c: "in_touch C cfg env ch v s" and h: "hears C cfg env ch (msg_origin m) s" and f: "fresh m s"
    and m: "processMessage C L cfg env m (ch, cr, noted env m s) = Inr (ch1, cr1, s1)" and g: "send ch1 m True s1 = Inr s2"
  shows "incomingData C L cfg env t (address ch (msg_origin m)) (ch, cr, s) = Inr (ch1, cr1, s2)"
proof -
  obtain n where n: "nd_net s = Some n" "\<not> isClosing n" "is_newer n m" using h f by (auto simp: hears_def fresh_def)
  have a: "arrayNetwork n \<noteq> []" using c n(1) by (auto simp: in_touch_def)
  have k: "getPublicKeyByUdp ch (address ch (msg_origin m)) = msg_origin m" "msg_origin m \<noteq> []" using h by (simp_all add: hears_def)
  obtain w where w: "wallet_ok C w" "msg_origin m = getPublicKey C w" "Message_pack C w VERSION_4 m = Inr t"
    using p by (auto simp: packed_def)
  have "receive C ch n t (address ch (msg_origin m)) = Inr (Some (msg_origin m, m))"
    using receive_packed [OF C w(1,2,3) n(2) a, of ch "address ch (msg_origin m)"] k sc n(3) by simp
  moreover have "s\<lparr>nd_net := Some (note_message (env_now env) (msg_origin m) m n)\<rparr> = noted env m s" using n(1) by (simp add: noted_def)
  ultimately show ?thesis using n(1) m g ty by (simp add: incomingData_def net_of_def)
qed

lemma gossip:
  assumes "nd_net s = Some n" and "samReady n" and "\<forall>k \<in> set (arrayBroadcast n). hasPeer ch k" and "msg_dest m = [] \<or> hasPeer ch (msg_dest m)"
  shows "\<exists>xs. send ch m True s = Inr (s\<lparr>nd_out := nd_out s @ xs\<rparr>)"
proof -
  have "\<exists>xs. broadcast ch n m True = Inr xs"
  proof (cases "msg_dest m = []")
    case True
    have "\<exists>xs. send_all ch n m (arrayBroadcast n) = Inr xs" using assms(2,3) by (simp add: send_all_Inr)
    then show ?thesis using True by (simp add: broadcast_def)
  next
    case False
    then have "\<exists>x. send_to ch n (msg_dest m) m = Inr x" unfolding send_to_Inr using assms(2,4) by simp
    then show ?thesis using False by (auto simp: broadcast_def)
  qed
  then obtain xs where "broadcast ch n m True = Inr xs" by blast
  then have "send ch m True s = Inr (s\<lparr>nd_out := nd_out s @ xs\<rparr>)" using assms(1) by (simp add: send_def net_of_def)
  then show ?thesis ..
qed

section \<open>Peers stay\<close>

fun is_removal :: "command \<Rightarrow> bool" where
  "is_removal (RemovePeer q k) = True"
| "is_removal c = False"

definition no_removal :: "block \<Rightarrow> bool" where
  "no_removal b \<longleftrightarrow> list_all (\<lambda>t. list_all (\<lambda>c. \<not> is_removal c) (tx_commands t)) (blk_tx b)"

interpretation keeps_peers: ledger_invariant L "\<lambda>_ c. \<not> is_removal c" "\<lambda>s. K \<subseteq> dom (jm_get (mapPeer (fst s)))"
  for L :: "'db level" and K
proof unfold_locales
  fix s :: "'db chain \<times> credits" and origin c
  assume k: "K \<subseteq> dom (jm_get (mapPeer (fst s)))" and c: "\<not> is_removal c"
  obtain ch cr where s: "s = (ch, cr)" by (cases s)
  have "dom (jm_get (mapPeer ch)) \<subseteq> dom (jm_get (mapPeer (fst (snd (process_command L origin c (ch, cr))))))"
  proof (cases c)
    case (ModifyStake q k i n)
    obtain n' ch' cr' where m: "modifyStake L origin k i n (ch, cr) = (n', ch', cr')" by (cases "modifyStake L origin k i n (ch, cr)") auto
    from m have "dom (jm_get (mapPeer ch)) \<subseteq> dom (jm_get (mapPeer ch'))"
      by (cases rule: modifyStake_cases) (auto simp: updateStateData_def split: if_splits)
    then show ?thesis using m ModifyStake by simp
  qed (use c in \<open>auto simp: addPeer_def updateStateData_def Let_def split: if_splits\<close>)
  then show "K \<subseteq> dom (jm_get (mapPeer (fst (snd (process_command L origin c s)))))" using k s by auto
qed (simp add: updateStateData_def)

lemma peers_stay:
  assumes "holds_blocks L cfg bs ch" and "holds_blocks L cfg (bs @ [b]) ch'" and "no_removal b" and "hasPeer ch k"
  shows "hasPeer ch' k"
proof -
  obtain b' ch1 cr1 where p: "processState L cfg 0 b (ch, jm_empty) = (b', ch1, cr1)"
    by (cases "processState L cfg 0 b (ch, jm_empty)") auto
  have v: "ledger_view ch = ledger_of bs" "ledger_view ch' = ledger_of (bs @ [b])"
    using assms(1,2) by (simp_all add: holds_blocks_def chain_ok_def)
  have "ledger_view ch' = ledger_view ch1" using ledger_of_snoc [OF p v(1)] v(2) by simp
  then have "mapPeer ch' = mapPeer ch1" by (simp only: ledger_view_eq)
  moreover have "dom (jm_get (mapPeer ch)) \<subseteq> dom (jm_get (mapPeer ch1))"
    using keeps_peers.keep_processState [of "dom (jm_get (mapPeer ch))" ch jm_empty b L cfg 0 b' "(ch1, cr1)"] p assms(3)
    by (simp add: no_removal_def)
  ultimately show ?thesis using assms(4) by (auto simp: hasPeer_def)
qed

section \<open>What each node does with the packets\<close>

lemma passes_on:
  assumes "in_touch C cfg env ch v s" and "\<forall>k. hasPeer ch k \<longrightarrow> hasPeer ch' k" and "msg_dest m = [] \<or> hasPeer ch (msg_dest m)"
    and "nd_net s' = nd_net s"
  shows "\<exists>xs. send ch' m True s' = Inr (s'\<lparr>nd_out := nd_out s' @ xs\<rparr>)"
proof -
  obtain n where n: "nd_net s = Some n" "samReady n" "set (arrayBroadcast n) = dom (getPeer ch) - {own_key C s}"
    using assms(1) by (auto simp: in_touch_def)
  have "\<forall>k \<in> set (arrayBroadcast n). hasPeer ch k" using n(3) by (auto simp: hasPeer_def getPeer_def)
  then show ?thesis using gossip [of s' n ch' m] n assms(2-4) by auto
qed

lemma peer_proposal:
  assumes C: "codec_ok C" and i: "0 < network_p2p_interval_ms cfg"
    and c: "in_touch C cfg env ch v s" and k: "own_key C s \<noteq> v" "hasPeer ch v"
    and b: "blk_height b = ch_height ch + 1" "Some (blk_previousHash b) = map_option blk_hash (latestBlock ch)" "validateBlock C ch b False"
    and m: "msg_origin m = v" "msg_data m = ProposeBlockData b" "msg_dest m = []" "packed C m t" "schema_message m"
    and h: "hears C cfg env ch v s" "fresh m s"
  shows "\<exists>s'. incomingData C L cfg env t (address ch v) (ch, cr, s) = Inr (ch, cr, s') \<and> fac_block (nd_fac s') = Some b \<and>
    nd_net s' = nd_net (noted env m s) \<and> nd_wallet s' = nd_wallet s \<and>
    sent_to ch v (SignBlock_create C (nd_wallet s) (env_now env) v (blk_hash b)) s'"
proof -
  have h': "hears C cfg env ch (msg_origin m) s" using h(1) m(1) by simp
  have c': "in_touch C cfg env ch v (noted env m s)" using c h' i by (rule noted_in_touch)
  have "own_key C (noted env m s) \<noteq> v" using k(1) by simp
  from peer_signs [OF c' this k(2) b m(1,2), of L cr] obtain s1 where
    s1: "processMessage C L cfg env m (ch, cr, noted env m s) = Inr (ch, cr, s1)" "fac_block (nd_fac s1) = Some b"
      "nd_net s1 = nd_net (noted env m s)" "nd_wallet s1 = nd_wallet s"
      "sent_to ch v (SignBlock_create C (nd_wallet s) (env_now env) v (blk_hash b)) s1" by auto
  obtain xs where xs: "send ch m True s1 = Inr (s1\<lparr>nd_out := nd_out s1 @ xs\<rparr>)"
    using passes_on [OF c' _ _ s1(3), of ch m] m(3) by auto
  have "data_type (msg_data m) \<noteq> TYPE_STATUS" by (simp add: m(2) type_defs)
  from incoming_packet [OF C m(4,5) this c h' h(2) s1(1) xs] show ?thesis
    using s1(2-4) sent_to_more [OF s1(5)] m(1) by (intro exI [of _ "s1\<lparr>nd_out := nd_out s1 @ xs\<rparr>"]) simp
qed

lemma peer_confirmation:
  assumes C: "codec_ok C" and i: "0 < network_p2p_interval_ms cfg"
    and L: "level_ok L" "1 \<le> blockchain_max_blocks_in_memory cfg" "holds_blocks L cfg bs ch"
    and c: "in_touch C cfg env ch v s" and f: "fac_block (nd_fac s) = Some b" and p: "0 < blk_height b"
    and g: "add_guard C ch (b\<lparr>blk_votes := votes\<rparr>)" and q: "quiet b" "blk_height b < 10 ^ 16"
      "blk_hash b \<noteq> []" "length (blk_hash b) = length (blk_previousHash b)" "no_removal b"
    and m: "msg_origin m = v" "msg_data m = ConfirmBlockData (blk_hash b) votes" "msg_dest m = []" "packed C m t" "schema_message m"
    and h: "hears C cfg env ch v s" "fresh m s"
  shows "\<exists>ch' cr' s'. incomingData C L cfg env t (address ch v) (ch, cr, s) = Inr (ch', cr', s') \<and>
    holds_blocks L cfg (bs @ [b\<lparr>blk_votes := votes\<rparr>]) ch'"
proof -
  have h': "hears C cfg env ch (msg_origin m) s" using h(1) m(1) by simp
  have c': "in_touch C cfg env ch v (noted env m s)" using c h' i by (rule noted_in_touch)
  have f': "fac_block (nd_fac (noted env m s)) = Some b" using f by simp
  obtain ch1 cr1 s1 where s1: "processMessage C L cfg env m (ch, cr, noted env m s) = Inr (ch1, cr1, s1)"
    "holds_blocks L cfg (bs @ [b\<lparr>blk_votes := votes\<rparr>]) ch1" "nd_net s1 = nd_net (noted env m s)"
    using peer_confirms [OF L c' f' p g q(1-4) m(1,2), of cr] by blast
  have "no_removal (b\<lparr>blk_votes := votes\<rparr>)" using q(5) by (simp add: no_removal_def)
  then have "\<forall>k. hasPeer ch k \<longrightarrow> hasPeer ch1 k" using peers_stay [OF L(3) s1(2)] by blast
  then obtain xs where xs: "send ch1 m True s1 = Inr (s1\<lparr>nd_out := nd_out s1 @ xs\<rparr>)"
    using passes_on [OF c' _ _ s1(3), of ch1 m] m(3) by auto
  have "data_type (msg_data m) \<noteq> TYPE_STATUS" by (simp add: m(2) type_defs)
  from incoming_packet [OF C m(4,5) this c h' h(2) s1(1) xs] show ?thesis using s1(2) m(1) by auto
qed

text \<open>What the validator needs of a signature that is on its way.\<close>

definition awaits :: "crypto \<Rightarrow> config \<Rightarrow> env \<Rightarrow> 'db chain \<Rightarrow> string \<Rightarrow> string \<Rightarrow> node \<Rightarrow> message \<times> string \<Rightarrow> bool" where
  "awaits C cfg env ch v hash s mt \<longleftrightarrow> (case mt of (m, t) \<Rightarrow>
     signs hash m \<and> msg_dest m = v \<and> packed C m t \<and> schema_message m \<and> hears C cfg env ch (msg_origin m) s \<and> fresh m s)"

lemma awaits_noted:
  assumes "awaits C cfg env ch v hash s mt" and "hears C cfg env ch (msg_origin m) s" and "0 < network_p2p_interval_ms cfg"
    and "msg_origin (fst mt) \<noteq> msg_origin m" and "nd_net s' = nd_net (noted env m s)" and "nd_wallet s' = nd_wallet s"
  shows "awaits C cfg env ch v hash s' mt"
proof -
  obtain m1 t where mt: "mt = (m1, t)" by (cases mt)
  have "message_key m1 \<noteq> message_key m" using assms(4) by (simp add: mt message_key_def)
  then have "fresh m1 s'" using assms(1,5) noted_fresh [of m1 s m env] by (auto simp: awaits_def mt fresh_def)
  moreover have "hears C cfg env ch (msg_origin m1) (noted env m s)"
    using assms(1-3) by (intro noted_hears) (simp_all add: awaits_def mt)
  then have "hears C cfg env ch (msg_origin m1) s'" by (rule hears_other) (simp_all add: assms(5,6))
  ultimately show ?thesis using assms(1) by (simp add: awaits_def mt)
qed

text \<open>A signature that is heard, with what the handler makes of it.\<close>

lemma heard_signature:
  assumes C: "codec_ok C" and i: "0 < network_p2p_interval_ms cfg" and c: "in_touch C cfg env ch v s" and v: "hasPeer ch v"
    and w: "awaits C cfg env ch v hash s (m, t)"
    and p: "processMessage C L cfg env m (ch, cr, noted env m s) = Inr (ch1, cr1, s1)" "nd_net s1 = nd_net (noted env m s)"
    and k: "\<forall>k. hasPeer ch k \<longrightarrow> hasPeer ch1 k"
  shows "\<exists>xs. incomingData C L cfg env t (address ch (msg_origin m)) (ch, cr, s) = Inr (ch1, cr1, s1\<lparr>nd_out := nd_out s1 @ xs\<rparr>)"
proof -
  have a: "packed C m t" "schema_message m" "hears C cfg env ch (msg_origin m) s" "fresh m s" "msg_dest m = v" "data_type (msg_data m) \<noteq> TYPE_STATUS"
    using w by (auto simp: awaits_def signs_def type_defs)
  have c': "in_touch C cfg env ch v (noted env m s)" using c a(3) i by (rule noted_in_touch)
  obtain xs where "send ch1 m True s1 = Inr (s1\<lparr>nd_out := nd_out s1 @ xs\<rparr>)"
    using passes_on [OF c' k _ p(2), of m] a(5) v by auto
  from incoming_packet [OF C a(1,2,6) c a(3,4) p(1) this] show ?thesis by blast
qed

lemma collect_packets:
  assumes C: "codec_ok C" and i: "0 < network_p2p_interval_ms cfg" and L: "level_ok L" "1 \<le> blockchain_max_blocks_in_memory cfg" "holds_blocks L cfg bs ch"
    and v: "hasPeer ch v"
  shows "in_touch C cfg env ch v s \<Longrightarrow> own_key C s = v \<Longrightarrow> fac_block (nd_fac s) = Some b \<Longrightarrow>
    \<forall>mt \<in> set ms. awaits C cfg env ch v (blk_hash b) s mt \<Longrightarrow> ms \<noteq> [] \<Longrightarrow>
    distinct (map vote_origin (blk_votes b @ map (vote_of \<circ> fst) ms)) \<Longrightarrow>
    \<forall>k < length ms. 0 < k \<longrightarrow> \<not> hasQuorumWeighted ch (map vote_origin (blk_votes b @ map (vote_of \<circ> fst) (take k ms))) \<Longrightarrow>
    add_guard C ch (b\<lparr>blk_votes := blk_votes b @ map (vote_of \<circ> fst) ms\<rparr>) \<Longrightarrow> quiet b \<Longrightarrow> blk_height b < 10 ^ 16 \<Longrightarrow>
    blk_hash b \<noteq> [] \<Longrightarrow> length (blk_hash b) = length (blk_previousHash b) \<Longrightarrow> no_removal b \<Longrightarrow>
    \<exists>ch' cr' s'. receive_all C L cfg env (map (\<lambda>(m, t). (address ch (msg_origin m), t)) ms) (ch, cr, s) = Inr (ch', cr', s') \<and>
      holds_blocks L cfg (bs @ [b\<lparr>blk_votes := blk_votes b @ map (vote_of \<circ> fst) ms\<rparr>]) ch' \<and>
      (\<forall>pk. hasPeer ch pk \<longrightarrow> pk \<noteq> v \<longrightarrow>
        sent_to ch pk (ConfirmBlock_create C (nd_wallet s) (env_now env) (blk_hash b) (blk_votes b @ map (vote_of \<circ> fst) ms)) s')"
proof (induction ms arbitrary: s b)
  case (Cons mt ms)
  obtain m t where mt: "mt = (m, t)" by (cases mt)
  let ?b = "b\<lparr>blk_votes := blk_votes b @ [vote_of m]\<rparr>" and ?s = "noted env m s"
  have w: "awaits C cfg env ch v (blk_hash b) s (m, t)" using Cons.prems(4) mt by simp
  have h: "hears C cfg env ch (msg_origin m) s" "signs (blk_hash b) m" using w by (simp_all add: awaits_def)
  have c: "in_touch C cfg env ch v ?s" using Cons.prems(1) h(1) i by (rule noted_in_touch)
  have o: "own_key C ?s = v" "fac_block (nd_fac ?s) = Some b" using Cons.prems(2,3) by simp_all
  have new: "msg_origin m \<notin> vote_origin ` set (blk_votes b)" using Cons.prems(6) by (auto simp: mt vote_of_def)
  note q = Cons.prems(9-12)
  show ?case
  proof (cases "ms = []")
    case True
    have g: "add_guard C ch ?b" using Cons.prems(8) True mt by simp
    obtain ch1 cr1 s1 where p: "processMessage C L cfg env m (ch, cr, ?s) = Inr (ch1, cr1, s1)" "holds_blocks L cfg (bs @ [?b]) ch1"
      "nd_net s1 = nd_net ?s" "\<forall>pk. hasPeer ch pk \<longrightarrow> pk \<noteq> v \<longrightarrow>
        sent_to ch pk (ConfirmBlock_create C (nd_wallet s) (env_now env) (blk_hash b) (blk_votes ?b)) s1"
      using quorum_step [OF L c o h(2) new refl g q, of cr] by auto
    have "no_removal ?b" using Cons.prems(13) by (simp add: no_removal_def)
    then have "\<forall>k. hasPeer ch k \<longrightarrow> hasPeer ch1 k" using peers_stay [OF L(3) p(2)] by blast
    from heard_signature [OF C i Cons.prems(1) v w p(1,3) this] obtain xs where
      "incomingData C L cfg env t (address ch (msg_origin m)) (ch, cr, s) = Inr (ch1, cr1, s1\<lparr>nd_out := nd_out s1 @ xs\<rparr>)" by blast
    then show ?thesis using p(2,4) True by (auto simp: mt sent_to_def)
  next
    case False
    let ?s1 = "upd_fac (\<lambda>f. f\<lparr>validator := v, fac_block := Some ?b\<rparr>) ?s"
    have "\<not> hasQuorumWeighted ch (map vote_origin (blk_votes ?b))"
      using Cons.prems(7) [rule_format, of 1] False by (cases ms) (simp_all add: mt)
    then have p: "processMessage C L cfg env m (ch, cr, ?s) = Inr (ch, cr, ?s1)"
      using count_step [OF c o h(2) new refl refl, of L cr] by simp
    obtain xs where xs: "incomingData C L cfg env t (address ch (msg_origin m)) (ch, cr, s) = Inr (ch, cr, ?s1\<lparr>nd_out := nd_out ?s1 @ xs\<rparr>)"
      using heard_signature [OF C i Cons.prems(1) v w p] by auto
    let ?s2 = "?s1\<lparr>nd_out := nd_out ?s1 @ xs\<rparr>"
    have n: "nd_net ?s2 = nd_net ?s" "nd_wallet ?s2 = nd_wallet s" by simp_all
    have c2: "in_touch C cfg env ch v ?s2" by (rule in_touch_other [OF c]) simp_all
    have d: "msg_origin m \<notin> (\<lambda>u. msg_origin (fst u)) ` set ms" using Cons.prems(6) by (simp add: mt vote_of_def o_def)
    have a2: "\<forall>u \<in> set ms. awaits C cfg env ch v (blk_hash ?b) ?s2 u"
    proof
      fix u
      assume u: "u \<in> set ms"
      then have "msg_origin (fst u) \<noteq> msg_origin m" using d by (metis (no_types, lifting) imageI)
      then show "awaits C cfg env ch v (blk_hash ?b) ?s2 u"
        using awaits_noted [OF _ h(1) i _ n, of v "blk_hash b" u] Cons.prems(4) u by simp
    qed
    have n2: "\<forall>k < length ms. 0 < k \<longrightarrow> \<not> hasQuorumWeighted ch (map vote_origin (blk_votes ?b @ map (vote_of \<circ> fst) (take k ms)))"
    proof (intro allI impI)
      fix k
      assume "k < length ms" "0 < k"
      then show "\<not> hasQuorumWeighted ch (map vote_origin (blk_votes ?b @ map (vote_of \<circ> fst) (take k ms)))"
        using Cons.prems(7) [rule_format, of "Suc k"] by (simp add: mt)
    qed
    have "no_removal ?b" "own_key C ?s2 = v" using Cons.prems(2,13) by (simp_all add: no_removal_def own_key_def)
    then show ?thesis
      using Cons.IH [OF c2 _ _ a2 False _ n2] Cons.prems(6,8) q xs by (simp add: mt quiet_votes)
  qed
qed simp

section \<open>The round\<close>

definition packet :: "crypto \<Rightarrow> 'db site \<Rightarrow> message \<Rightarrow> string" where
  "packet C x m = (case Message_pack C (nd_wallet (si_node x)) VERSION_4 m of Inl e \<Rightarrow> [] | Inr t \<Rightarrow> t)"

definition speaks :: "crypto \<Rightarrow> 'db site \<Rightarrow> bool" where
  "speaks C x \<longleftrightarrow> wallet_ok C (nd_wallet (si_node x)) \<and> 1 \<le> env_now (si_env x) \<and> 0 < network_p2p_interval_ms (si_cfg x)"

text \<open>The node \<open>x\<close> hears \<open>y\<close>, and has heard nothing of it so far that is as new as its clock.\<close>

definition site_hears :: "crypto \<Rightarrow> 'db site \<Rightarrow> 'db site \<Rightarrow> bool" where
  "site_hears C x y \<longleftrightarrow> hears C (si_cfg x) (si_env x) (si_chain x) (si_key C y) (si_node x) \<and>
     (\<forall>n t. nd_net (si_node x) = Some n \<longrightarrow> jm_get_or (mapMsgSeq n) (seq_key t (si_key C y)) 0 < env_now (si_env y))"

lemma packet_packed: "speaks C x \<Longrightarrow> msg_origin m = si_key C x \<Longrightarrow> packed C m (packet C x m)"
  by (auto simp: packed_def packet_def speaks_def si_key_def own_key_def Message_pack_def Let_def)

lemma site_hears_fresh:
  assumes "site_hears C x y" and "msg_origin m = si_key C y" and "msg_seq m = env_now (si_env y)"
  shows "fresh m (si_node x)"
  using assms by (auto simp: site_hears_def fresh_def hears_def is_newer_def message_key_def)

lemma round_message_fields:
  "msg_origin (round_proposal C latest txs x) = si_key C x" "msg_seq (round_proposal C latest txs x) = env_now (si_env x)"
  "msg_dest (round_proposal C latest txs x) = []"
  "msg_data (round_proposal C latest txs x) = ProposeBlockData
     ((Block_make C latest txs)\<lparr>blk_votes := [own_vote C (nd_wallet (si_node x)) (blk_hash (Block_make C latest txs))]\<rparr>)"
  "msg_origin (round_signature C latest txs v x) = si_key C x" "msg_seq (round_signature C latest txs v x) = env_now (si_env x)"
  "msg_dest (round_signature C latest txs v x) = v" "signs (blk_hash (Block_make C latest txs)) (round_signature C latest txs v x)"
  "msg_origin (round_confirmation C latest txs xs x) = si_key C x" "msg_seq (round_confirmation C latest txs xs x) = env_now (si_env x)"
  "msg_dest (round_confirmation C latest txs xs x) = []"
  "msg_data (round_confirmation C latest txs xs x)
     = ConfirmBlockData (blk_hash (Block_make C latest txs)) (blk_votes (round_block C latest txs xs))"
  "vote_of (round_signature C latest txs v x) = own_vote C (nd_wallet (si_node x)) (blk_hash (Block_make C latest txs))"
  by (simp_all add: round_proposal_def round_signature_def round_confirmation_def round_block_fields ProposeBlock_create_def
      SignBlock_create_def ConfirmBlock_create_def Message_init_def si_key_def own_key_def signs_def vote_of_def own_vote_def Let_def)

lemma vote_origin_own: "vote_origin (own_vote C (nd_wallet (si_node x)) h) = si_key C x"
  by (simp add: own_vote_def si_key_def own_key_def)

text \<open>The first block that the validator sends, which has its own vote only.\<close>

definition round_start :: "crypto \<Rightarrow> block \<Rightarrow> transaction list \<Rightarrow> 'db site \<Rightarrow> block" where
  "round_start C latest txs V = round_block C latest txs [V]"

lemma round_start_eq:
  "round_start C latest txs V = (Block_make C latest txs)\<lparr>blk_votes := [own_vote C (nd_wallet (si_node V)) (blk_hash (Block_make C latest txs))]\<rparr>"
  "round_block C latest txs (V # ps) = (round_start C latest txs V)\<lparr>blk_votes := blk_votes (round_block C latest txs (V # ps))\<rparr>"
  "blk_votes (round_block C latest txs (V # ps)) = blk_votes (round_start C latest txs V) @ map (\<lambda>x. vote_of (round_signature C latest txs v x)) ps"
  by (simp_all add: round_start_def round_block_def round_message_fields Let_def)

lemma validator_side:
  fixes V :: "'db site" and ps :: "'db site list"
  assumes C: "codec_ok C" and f: "follows C bs v V" "speaks C V" and v: "si_key C V = v" "hasPeer (si_chain V) v"
    and h: "\<forall>x \<in> set ps. site_hears C V x \<and> speaks C x \<and> schema_message (round_signature C latest txs v x)"
    and b: "latestBlock (si_chain V) = Some latest" "txs = arrayPoolTx (nd_fac (si_node V))"
    and ps: "ps \<noteq> []" "distinct (map (si_key C) (V # ps))"
      "\<forall>k < length ps. 0 < k \<longrightarrow> \<not> hasQuorumWeighted (si_chain V) (map (si_key C) (V # take k ps))"
    and g: "add_guard C (si_chain V) (round_block C latest txs (V # ps))"
    and q: "quiet (round_start C latest txs V)" "blk_height latest + 1 < 10 ^ 16" "blk_hash (Block_make C latest txs) \<noteq> []"
      "length (blk_hash (Block_make C latest txs)) = length (blk_hash latest)" "no_removal (Block_make C latest txs)"
  shows "\<exists>s1 ch2 cr2 s2. fire_proposeBlock C (si_env V) (si_chain V) (si_node V) = Inr s1 \<and>
    receive_all C (si_level V) (si_cfg V) (si_env V)
      (map (\<lambda>x. (address (si_chain V) (si_key C x), packet C x (round_signature C latest txs v x))) ps) (si_chain V, si_credits V, s1)
      = Inr (ch2, cr2, s2) \<and>
    holds_blocks (si_level V) (si_cfg V) (bs @ [round_block C latest txs (V # ps)]) ch2 \<and>
    (\<forall>k. hasPeer (si_chain V) k \<longrightarrow> k \<noteq> v \<longrightarrow> sent_to (si_chain V) k (round_proposal C latest txs V) s1 \<and>
       sent_to (si_chain V) k (round_confirmation C latest txs (V # ps) V) s2)"
proof -
  let ?ch = "si_chain V" and ?s = "si_node V" and ?b = "round_start C latest txs V"
  let ?sign = "round_signature C latest txs v"
  let ?ms = "map (\<lambda>x. (?sign x, packet C x (?sign x))) ps"
  have L: "level_ok (si_level V)" "1 \<le> blockchain_max_blocks_in_memory (si_cfg V)" "holds_blocks (si_level V) (si_cfg V) bs ?ch"
    and c: "in_touch C (si_cfg V) (si_env V) ?ch v ?s" using f(1) by (simp_all add: follows_def)
  have o: "own_key C ?s = v" using v(1) by (simp add: si_key_def)
  have B: "?b = (Block_make C latest (arrayPoolTx (nd_fac ?s)))\<lparr>blk_votes := [own_vote C (nd_wallet ?s) (blk_hash (Block_make C latest (arrayPoolTx (nd_fac ?s))))]\<rparr>"
    unfolding round_start_eq(1) b(2) ..
  obtain s1 where s1: "fire_proposeBlock C (si_env V) ?ch ?s = Inr s1" "fac_block (nd_fac s1) = Some ?b" "nd_net s1 = nd_net ?s" "nd_wallet s1 = nd_wallet ?s"
    "\<forall>k. hasPeer ?ch k \<longrightarrow> k \<noteq> v \<longrightarrow> sent_to ?ch k (round_proposal C latest txs V) s1"
    using validator_proposes [OF c o b(1) refl B] by (auto simp: round_proposal_def round_start_eq(1) Let_def)
  have c1: "in_touch C (si_cfg V) (si_env V) ?ch v s1" using c s1(3,4) by (rule in_touch_other)
  have o1: "own_key C s1 = v" using o s1(4) by (simp add: own_key_def)
  have fields: "blk_hash ?b = blk_hash (Block_make C latest txs)" "blk_height ?b = blk_height latest + 1" "blk_previousHash ?b = blk_hash latest"
    by (simp_all add: round_start_def round_block_fields)
  have w: "\<forall>mt \<in> set ?ms. awaits C (si_cfg V) (si_env V) ?ch v (blk_hash ?b) s1 mt"
  proof
    fix mt
    assume "mt \<in> set ?ms"
    then obtain x where x: "x \<in> set ps" "mt = (?sign x, packet C x (?sign x))" by auto
    then have hx: "site_hears C V x" "speaks C x" "schema_message (?sign x)" using h by auto
    have "hears C (si_cfg V) (si_env V) ?ch (si_key C x) s1" using hx(1) by (intro hears_other [OF _ s1(3,4)]) (simp add: site_hears_def)
    moreover have "fresh (?sign x) s1"
      using site_hears_fresh [OF hx(1)] by (intro fresh_other [OF _ s1(3)]) (simp add: round_message_fields)
    moreover have "packed C (?sign x) (packet C x (?sign x))" using hx(2) by (rule packet_packed) (rule round_message_fields)
    ultimately show "awaits C (si_cfg V) (si_env V) ?ch v (blk_hash ?b) s1 mt"
      using hx(3) by (simp add: awaits_def x(2) fields round_message_fields)
  qed
  have votes: "blk_votes ?b @ map (vote_of \<circ> fst) (map (\<lambda>x. (?sign x, packet C x (?sign x))) xs) = blk_votes (round_block C latest txs (V # xs))" for xs
    by (simp add: round_start_eq(3) [of C latest txs V xs v])
  have k: "map vote_origin (blk_votes (round_block C latest txs (V # xs))) = map (si_key C) (V # xs)" for xs by (rule round_block_fields)
  have d: "distinct (map vote_origin (blk_votes ?b @ map (vote_of \<circ> fst) ?ms))" unfolding votes k by (rule ps(2))
  have n: "\<forall>k < length ?ms. 0 < k \<longrightarrow> \<not> hasQuorumWeighted ?ch (map vote_origin (blk_votes ?b @ map (vote_of \<circ> fst) (take k ?ms)))"
    unfolding take_map votes k length_map by (rule ps(3))
  have g1: "add_guard C ?ch (?b\<lparr>blk_votes := blk_votes ?b @ map (vote_of \<circ> fst) ?ms\<rparr>)"
    using g unfolding votes round_start_eq(2) [symmetric] .
  have q1: "blk_height ?b < 10 ^ 16" "blk_hash ?b \<noteq> []" "length (blk_hash ?b) = length (blk_previousHash ?b)" "no_removal ?b"
    using q(2-5) by (simp_all add: fields) (simp add: round_start_eq(1) no_removal_def)
  have i: "0 < network_p2p_interval_ms (si_cfg V)" using f(2) by (simp add: speaks_def)
  have "?ms \<noteq> []" using ps(1) by simp
  from collect_packets [OF C i L v(2) c1 o1 s1(2) w this d n g1 q(1) q1, of "si_credits V"]
  obtain ch2 cr2 s2 where r: "receive_all C (si_level V) (si_cfg V) (si_env V) (map (\<lambda>(m, t). (address ?ch (msg_origin m), t)) ?ms) (?ch, si_credits V, s1) = Inr (ch2, cr2, s2)"
    "holds_blocks (si_level V) (si_cfg V) (bs @ [round_block C latest txs (V # ps)]) ch2"
    "\<forall>k. hasPeer ?ch k \<longrightarrow> k \<noteq> v \<longrightarrow> sent_to ?ch k (round_confirmation C latest txs (V # ps) V) s2"
    unfolding votes round_start_eq(2) [symmetric] by (auto simp: round_confirmation_def round_block_fields fields s1(4) Let_def)
  have e: "map (\<lambda>(m, t). (address ?ch (msg_origin m), t)) ?ms = map (\<lambda>x. (address ?ch (si_key C x), packet C x (?sign x))) ps"
    by (simp add: round_message_fields)
  show ?thesis using s1(1,5) r(2,3) r(1) [unfolded e] by blast
qed

lemma peer_side:
  fixes x :: "'db site"
  assumes C: "codec_ok C" and f: "follows C bs v x" "speaks C x" "speaks C V" and v: "si_key C V = v" "hasPeer (si_chain x) v" "si_key C x \<noteq> v"
    and h: "site_hears C x V" and m: "schema_message (round_proposal C latest txs V)" "schema_message (round_confirmation C latest txs (V # ps) V)"
    and b: "blk_height latest = ch_height (si_chain x)" "Some (blk_hash latest) = map_option blk_hash (latestBlock (si_chain x))"
      "validateBlock C (si_chain x) (round_start C latest txs V) False"
    and g: "add_guard C (si_chain x) (round_block C latest txs (V # ps))"
    and q: "quiet (round_start C latest txs V)" "blk_height latest + 1 < 10 ^ 16" "blk_hash (Block_make C latest txs) \<noteq> []"
      "length (blk_hash (Block_make C latest txs)) = length (blk_hash latest)" "no_removal (Block_make C latest txs)"
  shows "\<exists>s1 ch2 cr2 s2.
    incomingData C (si_level x) (si_cfg x) (si_env x) (packet C V (round_proposal C latest txs V)) (address (si_chain x) v)
      (si_chain x, si_credits x, si_node x) = Inr (si_chain x, si_credits x, s1) \<and>
    sent_to (si_chain x) v (round_signature C latest txs v x) s1 \<and>
    incomingData C (si_level x) (si_cfg x) (si_env x) (packet C V (round_confirmation C latest txs (V # ps) V)) (address (si_chain x) v)
      (si_chain x, si_credits x, s1) = Inr (ch2, cr2, s2) \<and>
    holds_blocks (si_level x) (si_cfg x) (bs @ [round_block C latest txs (V # ps)]) ch2"
proof -
  let ?ch = "si_chain x" and ?s = "si_node x" and ?b = "round_start C latest txs V" and ?cfg = "si_cfg x" and ?env = "si_env x"
  let ?p = "round_proposal C latest txs V" and ?c = "round_confirmation C latest txs (V # ps) V"
  have L: "level_ok (si_level x)" "1 \<le> blockchain_max_blocks_in_memory ?cfg" "holds_blocks (si_level x) ?cfg bs ?ch"
    and c: "in_touch C ?cfg ?env ?ch v ?s" using f(1) by (simp_all add: follows_def)
  have i: "0 < network_p2p_interval_ms ?cfg" using f(2) by (simp add: speaks_def)
  have fields: "blk_hash ?b = blk_hash (Block_make C latest txs)" "blk_height ?b = ch_height ?ch + 1"
    "Some (blk_previousHash ?b) = map_option blk_hash (latestBlock ?ch)"
    using b(1,2) by (simp_all add: round_start_def round_block_fields)
  have q1: "blk_height ?b < 10 ^ 16" "blk_hash ?b \<noteq> []" "length (blk_hash ?b) = length (blk_previousHash ?b)" "no_removal ?b"
    using q(2-5) by (simp_all add: round_start_def round_block_fields) (simp add: round_block_def no_removal_def Let_def)
  have hv: "hears C ?cfg ?env ?ch v ?s" using h v(1) by (simp add: site_hears_def)
  have fr: "fresh ?p ?s" "fresh ?c ?s" using site_hears_fresh [OF h] by (simp_all add: round_message_fields)
  have pk: "packed C ?p (packet C V ?p)" "packed C ?c (packet C V ?c)" using f(3) by (auto intro: packet_packed simp: round_message_fields)
  have pm: "msg_origin ?p = v" "msg_data ?p = ProposeBlockData ?b" "msg_dest ?p = []"
    "msg_origin ?c = v" "msg_data ?c = ConfirmBlockData (blk_hash ?b) (blk_votes (round_block C latest txs (V # ps)))" "msg_dest ?c = []"
    using v(1) by (simp_all add: round_message_fields round_start_eq(1))
  have k: "own_key C ?s \<noteq> v" using v(3) by (simp add: si_key_def)
  from peer_proposal [OF C i c k v(2) fields(2,3) b(3) pm(1-3) pk(1) m(1) hv fr(1), of "si_level x" "si_credits x"] obtain s1 where
    s1: "incomingData C (si_level x) ?cfg ?env (packet C V ?p) (address ?ch v) (?ch, si_credits x, ?s) = Inr (?ch, si_credits x, s1)"
      "fac_block (nd_fac s1) = Some ?b" "nd_net s1 = nd_net (noted ?env ?p ?s)" "nd_wallet s1 = nd_wallet (noted ?env ?p ?s)"
      "sent_to ?ch v (SignBlock_create C (nd_wallet ?s) (env_now ?env) v (blk_hash ?b)) s1" by auto
  have hp: "hears C ?cfg ?env ?ch (msg_origin ?p) ?s" using hv pm(1) by simp
  have c1: "in_touch C ?cfg ?env ?ch v s1" by (rule in_touch_other [OF noted_in_touch [OF c hp i] s1(3,4)])
  have h1: "hears C ?cfg ?env ?ch v s1" by (rule hears_other [OF noted_hears [OF hv hp i] s1(3,4)])
  have "message_key ?c \<noteq> message_key ?p" by (simp add: message_key_def pm type_defs)
  then have fr1: "fresh ?c s1" by (rule fresh_other [OF noted_fresh [OF fr(2)] s1(3)])
  have g1: "add_guard C ?ch (?b\<lparr>blk_votes := blk_votes (round_block C latest txs (V # ps))\<rparr>)"
    using g unfolding round_start_eq(2) [symmetric] .
  have "0 \<le> ch_height ?ch" using L(3) by (simp add: holds_blocks_def chain_ok_def)
  then have "0 < blk_height ?b" using fields(2) by simp
  from peer_confirmation [OF C i L c1 s1(2) this g1 q(1) q1 pm(4-6) pk(2) m(2) h1 fr1, of "si_credits x"] show ?thesis
    using s1(1,5) unfolding round_start_eq(2) [symmetric] by (auto simp: round_signature_def fields(1))
qed

text \<open>The two sides of the round as the code plays them, with the states they lead to.\<close>

definition validator_plays ::
    "crypto \<Rightarrow> block \<Rightarrow> transaction list \<Rightarrow> 'db site \<Rightarrow> 'db site list \<Rightarrow> node \<Rightarrow> 'db state \<Rightarrow> bool" where
  "validator_plays C latest txs V ps s1 st \<longleftrightarrow>
     fire_proposeBlock C (si_env V) (si_chain V) (si_node V) = Inr s1 \<and>
     receive_all C (si_level V) (si_cfg V) (si_env V)
       (map (\<lambda>x. (address (si_chain V) (si_key C x), packet C x (round_signature C latest txs (si_key C V) x))) ps)
       (si_chain V, si_credits V, s1) = Inr st"

definition peer_plays ::
    "crypto \<Rightarrow> block \<Rightarrow> transaction list \<Rightarrow> 'db site \<Rightarrow> 'db site list \<Rightarrow> 'db site \<Rightarrow> node \<Rightarrow> 'db state \<Rightarrow> bool" where
  "peer_plays C latest txs V ps x s1 st \<longleftrightarrow>
     incomingData C (si_level x) (si_cfg x) (si_env x) (packet C V (round_proposal C latest txs V))
       (address (si_chain x) (si_key C V)) (si_chain x, si_credits x, si_node x) = Inr (si_chain x, si_credits x, s1) \<and>
     incomingData C (si_level x) (si_cfg x) (si_env x) (packet C V (round_confirmation C latest txs (V # ps) V))
       (address (si_chain x) (si_key C V)) (si_chain x, si_credits x, s1) = Inr st"

text \<open>The peers \<open>ps\<close> are those whose votes make the quorum, \<open>rs\<close> others.\<close>

lemma honest_round:
  assumes C: "codec_ok C" and f: "\<forall>x \<in> set (V # ps @ rs). follows C bs v x \<and> speaks C x" and v: "si_key C V = v" "hasPeer (si_chain V) v"
    and h: "\<forall>x \<in> set (ps @ rs). site_hears C x V \<and> si_key C x \<noteq> v" "\<forall>x \<in> set ps. site_hears C V x"
    and b: "latestBlock (si_chain V) = Some latest" "latest_height (si_chain V)" "1 \<le> blk_height latest"
    and txs: "txs = arrayPoolTx (nd_fac (si_node V))" "txs \<noteq> []" "distinct (map tx_origin txs)"
      "\<forall>t \<in> set txs. validateTx C (si_chain V) (ch_height (si_chain V) + 1) t"
    and ps: "ps \<noteq> []" "distinct (map (si_key C) (V # ps))" "hasQuorumWeighted (si_chain V) (map (si_key C) (V # ps))"
      "\<forall>k < length ps. 0 < k \<longrightarrow> \<not> hasQuorumWeighted (si_chain V) (map (si_key C) (V # take k ps))"
    and n: "length txs \<le> 16" "length (V # ps) \<le> 16"
    and q: "quiet (Block_make C latest txs)" "blk_height latest + 1 < 10 ^ 16" "pattern_key (blk_hash (Block_make C latest txs))"
      "pattern_key (blk_hash latest)" "no_removal (Block_make C latest txs)"
  shows "let ch = si_chain V; b = round_block C latest txs (V # ps)
    in blk_tx b = txs \<and>
      (\<exists>s1 ch2 cr2 s2. validator_plays C latest txs V ps s1 (ch2, cr2, s2) \<and> holds_blocks (si_level V) (si_cfg V) (bs @ [b]) ch2 \<and>
         (\<forall>x \<in> set (ps @ rs). hasPeer ch (si_key C x) \<longrightarrow> sent_to ch (si_key C x) (round_proposal C latest txs V) s1 \<and>
            sent_to ch (si_key C x) (round_confirmation C latest txs (V # ps) V) s2)) \<and>
      (\<forall>x \<in> set (ps @ rs). \<exists>s1 ch2 cr2 s2. peer_plays C latest txs V ps x s1 (ch2, cr2, s2) \<and>
         sent_to (si_chain x) v (round_signature C latest txs v x) s1 \<and> holds_blocks (si_level x) (si_cfg x) (bs @ [b]) ch2)"
proof -
  let ?ch = "si_chain V" and ?B = "round_start C latest txs V" and ?b = "round_block C latest txs (V # ps)"
  have height: "blk_height latest = ch_height ?ch" using b by (simp add: latest_height_def)
  have fV: "follows C bs v V" "speaks C V" using f by simp_all
  have g: "add_guard C ?ch ?b"
    using f by (intro round_block_guard [OF b(1) height txs(2-4) _ ps(2,3)]) (auto simp: follows_def)
  have w: "\<forall>x \<in> set (V # ps). wallet_ok C (nd_wallet (si_node x)) \<and> 1 \<le> env_now (si_env x)" using f by (simp add: speaks_def)
  have sc: "\<forall>x \<in> set ps. schema_message (round_signature C latest txs v x)"
    "schema_message (round_proposal C latest txs V)" "schema_message (round_confirmation C latest txs (V # ps) V)"
    using round_schemas [OF w v(1) [symmetric] ps(2) q(3,4) b(3) txs(2,3), of ?ch] txs(4) n by (simp_all add: height)
  have B: "quiet ?B" "validateBlock C ?ch ?B False"
    using q(1) txs(2-4) height
    by (simp_all add: round_start_eq(1) quiet_votes) (simp add: validateBlock_iff block_hash_ok_def Block_make_def Let_def)
  have len: "blk_hash (Block_make C latest txs) \<noteq> []" "length (blk_hash (Block_make C latest txs)) = length (blk_hash latest)"
    using q(3,4) by (auto simp: pattern_b64_def)
  have "\<forall>x \<in> set ps. site_hears C V x \<and> speaks C x \<and> schema_message (round_signature C latest txs v x)" using f h(2) sc(1) by simp
  note validator = validator_side [OF C fV v this b(1) txs(1) ps(1,2,4) g B(1) q(2) len q(5)]
  have peer: "\<exists>s1 ch2 cr2 s2. peer_plays C latest txs V ps x s1 (ch2, cr2, s2) \<and>
      sent_to (si_chain x) v (round_signature C latest txs v x) s1 \<and> holds_blocks (si_level x) (si_cfg x) (bs @ [?b]) ch2"
    if x: "x \<in> set (ps @ rs)" for x
  proof -
    have fx: "follows C bs v x" "speaks C x" "site_hears C x V" "si_key C x \<noteq> v" using f h(1) x by auto
    note view = follows_view [OF fx(1) fV(1)]
    have "hasPeer (si_chain x) v" using v(2) view(1) by (simp add: hasPeer_def ledger_view_eq)
    moreover have "blk_height latest = ch_height (si_chain x)" "Some (blk_hash latest) = map_option blk_hash (latestBlock (si_chain x))"
      using height b(1) unfolding view(2,3) by simp_all
    moreover have "validateBlock C (si_chain x) ?B False" using B(2) validateBlock_view [OF view(1)] by blast
    moreover have "add_guard C (si_chain x) ?b" using add_guard_cong [OF view(2,3,1), of C ?b] g by simp
    ultimately show ?thesis unfolding peer_plays_def v(1)
      using peer_side [OF C fx(1,2) fV(2) v(1) _ fx(4,3) sc(2,3) _ _ _ _ B(1) q(2) len q(5)] by blast
  qed
  show ?thesis using validator peer h(1) unfolding validator_plays_def v(1) by (auto simp: Let_def round_block_fields)
qed

text \<open>C4: When the validator \<open>V\<close> and the peers \<open>ps @ rs\<close> hold the same blocks, take \<open>V\<close> for the validator and hear it, \<open>V\<close> hears
  the peers \<open>ps\<close>, the pool of \<open>V\<close> is valid and small enough for the schemas, and the votes of \<open>ps\<close> become a quorum with the last
  of them, one round of packets adds a block with exactly the transactions of the pool to the chain of every one of them: \<open>V\<close>
  proposes, each peer receives the packet and signs, \<open>V\<close> receives the signatures of \<open>ps\<close>, adds the block and confirms it, each
  peer receives that packet and adds the same block; every message on this way is sent to the address of the one who needs it.\<close>

theorem honest_round_adds_block:
  assumes C: "codec_ok C" and f: "\<forall>x \<in> set (V # ps @ rs). follows C bs v x \<and> speaks C x" and v: "si_key C V = v" "hasPeer (si_chain V) v"
    and h: "\<forall>x \<in> set (ps @ rs). site_hears C x V \<and> si_key C x \<noteq> v" "\<forall>x \<in> set ps. site_hears C V x"
    and b: "latestBlock (si_chain V) = Some latest" "latest_height (si_chain V)" "1 \<le> blk_height latest"
    and txs: "txs = arrayPoolTx (nd_fac (si_node V))" "txs \<noteq> []" "distinct (map tx_origin txs)"
      "\<forall>t \<in> set txs. validateTx C (si_chain V) (ch_height (si_chain V) + 1) t"
    and ps: "ps \<noteq> []" "distinct (map (si_key C) (V # ps))" "hasQuorumWeighted (si_chain V) (map (si_key C) (V # ps))"
      "\<forall>k < length ps. 0 < k \<longrightarrow> \<not> hasQuorumWeighted (si_chain V) (map (si_key C) (V # take k ps))"
    and n: "length txs \<le> 16" "length (V # ps) \<le> 16"
    and q: "quiet (Block_make C latest txs)" "blk_height latest + 1 < 10 ^ 16" "pattern_key (blk_hash (Block_make C latest txs))"
      "pattern_key (blk_hash latest)" "no_removal (Block_make C latest txs)"
  shows "let ch = si_chain V; b = round_block C latest txs (V # ps)
    in blk_tx b = txs \<and>
      (\<exists>s1 ch2 cr2 s2. validator_plays C latest txs V ps s1 (ch2, cr2, s2) \<and> holds_blocks (si_level V) (si_cfg V) (bs @ [b]) ch2 \<and>
         (\<forall>x \<in> set (ps @ rs). hasPeer ch (si_key C x) \<longrightarrow> sent_to ch (si_key C x) (round_proposal C latest txs V) s1 \<and>
            sent_to ch (si_key C x) (round_confirmation C latest txs (V # ps) V) s2)) \<and>
      (\<forall>x \<in> set (ps @ rs). \<exists>s1 ch2 cr2 s2. peer_plays C latest txs V ps x s1 (ch2, cr2, s2) \<and>
         sent_to (si_chain x) v (round_signature C latest txs v x) s1 \<and> holds_blocks (si_level x) (si_cfg x) (bs @ [b]) ch2)"
  using assms by (rule honest_round)

section \<open>An instance\<close>

text \<open>Two of the three sample nodes bring a transaction into a block.\<close>

lemma demo_hears:
  assumes "c \<in> set ''abc''" and "d \<in> set ''abc''"
  shows "site_hears demo_crypto (demo_site c txs) (demo_site d us)"
proof -
  let ?n = "demo_net\<lparr>arrayBroadcast := map demo_key (filter (\<lambda>d. d \<noteq> c) ''abc'')\<rparr>"
  have n: "nd_net (si_node (demo_site c txs)) = Some ?n" "\<not> isClosing ?n" "mapMsgSeq ?n = jm_empty"
    by (simp_all add: demo_site_def demo_net_def)
  have f: "si_chain (demo_site c txs) = demo_chain ''abc''" "si_cfg (demo_site c txs) = demo_cfg" "env_now (si_env (demo_site e us)) = 100000"
    for c e :: char and txs us by (simp_all add: demo_site_def demo_env_def)
  have a: "address (demo_chain ''abc'') (demo_key d) = ''udp-'' @ [d]" using assms(2) by (simp add: address_def demo_peer_def)
  have "getPublicKeyByUdp (demo_chain ''abc'') (''udp-'' @ [d]) = demo_key d"
    using assms(2) by (auto simp: getPublicKeyByUdp_def jm_get_or_def jm_get_def demo_mapUdp)
  moreover have "isOnline demo_cfg own 100000 ?n (demo_key d)" for own
    using assms(2) demo_online by (auto simp: isOnline_def)
  moreover have "demo_key d \<noteq> []" by (simp add: demo_key_def)
  ultimately show ?thesis using n by (simp add: site_hears_def hears_def f demo_site_key a jm_get_or_def)
qed

lemma demo_latest:
  obtains latest where "latestBlock (demo_chain ''abc'') = Some latest" "latest_height (demo_chain ''abc'')" "blk_height latest = 1"
    "quiet (Block_make demo_crypto latest [demo_data CHR ''a'' 2])" "pattern_key (blk_hash latest)"
    "pattern_key (blk_hash (Block_make demo_crypto latest [demo_data CHR ''a'' 2]))"
    "no_removal (Block_make demo_crypto latest [demo_data CHR ''a'' 2])"
proof -
  let ?txs = "[demo_data CHR ''a'' 2]"
  obtain cr where r: "chain_run demo_crypto mem_level demo_cfg no_propose (demo_key CHR ''a'')
    [demo_genesis ''abc''] (demo_chain ''abc'') cr ()" using demo_run1 by blast
  have lh: "latest_height (demo_chain ''abc'')" using r by (rule chain_run_latest)
  obtain latest where lb: "latestBlock (demo_chain ''abc'') = Some latest" "blk_hash latest = demo_hash []"
    using demo_chain_fields(2) by (auto simp: demo_genesis_def Let_def)
  have h: "blk_height latest = 1" using lh lb(1) demo_chain_fields(1) by (simp add: latest_height_def)
  let ?g = "(demo_genesis ''abc'')\<lparr>blk_hash := demo_hash [], blk_height := 1\<rparr>"
  have e: "Block_make demo_crypto latest ?txs = Block_make demo_crypto ?g ?txs"
    by (simp add: Block_make_def lb h)
  have p: "pattern_key (blk_hash (Block_make demo_crypto ?g ?txs))" "pattern_key (demo_hash [])" "no_removal (Block_make demo_crypto ?g ?txs)"
    by code_simp+
  have q: "quiet (Block_make demo_crypto latest ?txs)"
    by (rule demo_hash_quiet) (simp_all add: Block_make_def Util_hash_def demo_crypto_def h Let_def)
  show ?thesis using that [OF lb(1) lh h q] p unfolding e lb(2) by blast
qed

lemma demo_speaks:
  assumes "c \<in> set ''abc''"
  shows "speaks demo_crypto (demo_site c txs)"
proof -
  have "is_b64url CHR ''a''" "is_b64url CHR ''b''" "is_b64url CHR ''c''" by code_simp+
  then have "wallet_ok demo_crypto (demo_wallet c)" using assms by (auto intro: demo_wallet_ok)
  then show ?thesis by (simp add: speaks_def demo_site_def demo_env_def demo_cfg_def)
qed

lemma demo_pool_valid: "\<forall>t \<in> set [demo_data CHR ''a'' 2]. validateTx demo_crypto (demo_chain ''abc'') (ch_height (demo_chain ''abc'') + 1) t"
proof -
  have "validateTx demo_crypto (chain_new [] [] []) 2 (demo_data CHR ''a'' 2)" by code_simp
  then have "validateTx demo_crypto (demo_chain ''abc'') 2 (demo_data CHR ''a'' 2)"
    unfolding demo_data_def by (rule demo_tx_valid) simp
  then show ?thesis by (simp add: demo_chain_fields)
qed

lemma demo_site_fields:
  "si_chain (demo_site c txs) = demo_chain ''abc''" "si_env (demo_site c txs) = demo_env" "si_level (demo_site c txs) = mem_level"
  "si_cfg (demo_site c txs) = demo_cfg" "si_credits (demo_site c txs) = jm_empty" "arrayPoolTx (nd_fac (si_node (demo_site c txs))) = txs"
  by (simp_all add: demo_site_def)

theorem honest_round_adds_block_witness:
  "\<exists>b s1 ps ch2 cr2 s2.
    fire_proposeBlock demo_crypto demo_env (demo_chain ''abc'') (si_node (demo_site CHR ''b'' [demo_data CHR ''a'' 2])) = Inr s1 \<and>
    receive_all demo_crypto mem_level demo_cfg demo_env [(''udp-a'', ps)] (demo_chain ''abc'', jm_empty, s1) = Inr (ch2, cr2, s2) \<and>
    holds_blocks mem_level demo_cfg [demo_genesis ''abc'', b] ch2 \<and> blk_tx b = [demo_data CHR ''a'' 2]"
proof -
  let ?V = "demo_site CHR ''b'' [demo_data CHR ''a'' 2]" and ?ps = "[demo_site CHR ''a'' []]" and ?rs = "[demo_site CHR ''c'' []]"
    and ?txs = "[demo_data CHR ''a'' 2]"
  obtain latest where l: "latestBlock (demo_chain ''abc'') = Some latest" "latest_height (demo_chain ''abc'')" "blk_height latest = 1"
    "quiet (Block_make demo_crypto latest ?txs)" "pattern_key (blk_hash latest)"
    "pattern_key (blk_hash (Block_make demo_crypto latest ?txs))" "no_removal (Block_make demo_crypto latest ?txs)" by (rule demo_latest)
  note fl = demo_site_fields
  have f: "\<forall>x \<in> set (?V # ?ps @ ?rs). follows demo_crypto [demo_genesis ''abc''] (demo_key CHR ''b'') x \<and> speaks demo_crypto x"
    using demo_site_follows demo_speaks by simp
  have hear: "\<forall>x \<in> set (?ps @ ?rs). site_hears demo_crypto x ?V \<and> si_key demo_crypto x \<noteq> demo_key CHR ''b''"
    "\<forall>x \<in> set ?ps. site_hears demo_crypto ?V x" using demo_hears by (simp_all add: demo_site_key)
  have quo: "hasQuorumWeighted (si_chain ?V) (map (si_key demo_crypto) (?V # ?ps))"
    using demo_quorum by (simp add: fl demo_site_key hasQuorumWeighted_iff add.commute)
  have side: "hasPeer (si_chain ?V) (demo_key CHR ''b'')" "latestBlock (si_chain ?V) = Some latest" "latest_height (si_chain ?V)" "1 \<le> blk_height latest"
    "?txs = arrayPoolTx (nd_fac (si_node ?V))" "distinct (map (si_key demo_crypto) (?V # ?ps))" "blk_height latest + 1 < 10 ^ 16"
    using l(1-3) by (simp_all add: fl demo_site_key)
  let ?b = "round_block demo_crypto latest ?txs (?V # ?ps)"
  note round = honest_round_adds_block [OF demo_codec_ok f demo_site_key side(1) hear side(2-5) _ _ demo_pool_valid [folded fl(1) [of "CHR ''b''" ?txs]]
      _ side(6) quo _ _ _ l(4) side(7) l(6,5,7)]
  obtain s1 ch2 cr2 s2 where
    "fire_proposeBlock demo_crypto (si_env ?V) (si_chain ?V) (si_node ?V) = Inr s1"
    "receive_all demo_crypto (si_level ?V) (si_cfg ?V) (si_env ?V)
       [(address (si_chain ?V) (demo_key CHR ''a''), packet demo_crypto (demo_site CHR ''a'' [])
          (round_signature demo_crypto latest ?txs (demo_key CHR ''b'') (demo_site CHR ''a'' [])))]
       (si_chain ?V, si_credits ?V, s1) = Inr (ch2, cr2, s2)"
    "holds_blocks (si_level ?V) (si_cfg ?V) ([demo_genesis ''abc''] @ [?b]) ch2"
    using round unfolding Let_def validator_plays_def by (auto simp: demo_site_key)
  moreover have "address (demo_chain ''abc'') (demo_key CHR ''a'') = ''udp-a''" by (simp add: address_def demo_peer_def)
  moreover have "blk_tx ?b = ?txs" by (rule round_block_fields)
  ultimately show ?thesis using fl by (metis append_Cons append_Nil)
qed

end
