(* ===== verification/Addresses.thy ===== *)
theory Addresses
  imports Node_Theorems
begin

text \<open>
  Which peer a datagram comes from is decided by its address (\<open>mapUdp\<close> of \<open>src/chain/blockchain.ts\<close>), and
  neither \<open>addPeer\<close> nor the validation of transactions looks whether an address is in use.
\<close>

section \<open>The map of addresses\<close>

lemma udp_owner:
  assumes "net_inv ch" and "getPublicKeyByUdp ch u = k" and "k \<noteq> []" and "getPeer ch k = Some p"
  shows "u = p_udp p"
proof -
  have "jm_get (mapUdp ch) u = Some k" using assms(2,3) by (auto simp: getPublicKeyByUdp_def jm_get_or_def split: option.splits)
  then show ?thesis using assms(1,4) by (fastforce simp: net_inv_def getPeer_def)
qed

lemma addPeer_udp:
  "\<not> hasPeer ch k \<Longrightarrow> getPublicKeyByUdp (addPeer L http u k ch) u' = (if u' = u then k else getPublicKeyByUdp ch u')"
  by (simp add: addPeer_def getPublicKeyByUdp_def hasPeer_def updateStateData_def Let_def)

lemma addPeer_getPeer:
  "\<not> hasPeer ch k \<Longrightarrow> getPeer (addPeer L http u k ch) j
    = (if j = k then Some \<lparr>p_publicKey = k, p_http = http, p_udp = u, p_stake = 1\<rparr> else getPeer ch j)"
  by (simp add: addPeer_def getPeer_def hasPeer_def updateStateData_def Let_def)

lemma removePeer_udp:
  "getPeer ch k = Some p \<Longrightarrow> getPublicKeyByUdp (removePeer L k ch) u = (if u = p_udp p then [] else getPublicKeyByUdp ch u)"
  by (simp add: removePeer_def getPublicKeyByUdp_def getPeer_def jm_get_or_def deleteStateData_def Let_def)

lemma removePeer_getPeer: "getPeer (removePeer L k ch) j = (if j = k then None else getPeer ch j)"
  by (auto simp: removePeer_def getPeer_def deleteStateData_def Let_def split: option.split)

lemma receive_unknown: "getPublicKeyByUdp ch u = [] \<Longrightarrow> receive C ch n data u = Inr None"
  by (simp add: receive_def Let_def)

lemma receive_from: "receive C ch n data u = Inr (Some (pk, m)) \<Longrightarrow> pk = getPublicKeyByUdp ch u"
  by (auto simp: receive_def Let_def split: if_splits option.splits)

text \<open>A datagram from an address of someone else leaves the time at which \<open>j\<close> was last heard.\<close>

lemma unheard:
  assumes "nd_net s = Some n" and "getPublicKeyByUdp ch u \<noteq> j" and "incomingData C L cfg env data u (ch, cr, s) = Inr (ch', cr', s')"
  shows "\<exists>n'. nd_net s' = Some n' \<and> jm_get (mapOnline n') j = jm_get (mapOnline n) j"
  using incomingData_net [OF assms(3,1)] assms(2) receive_from [of C ch n data u]
  by (auto simp: note_message_def split: sum.splits option.splits)

section \<open>An address in use\<close>

text \<open>C17: A transaction that adds a peer is valid whatever addresses are in use. When it names the datagram address of a
  peer \<open>j\<close>, that address becomes the newcomer's: \<open>j\<close> remains a peer, but no address leads to it any more, so that no
  datagram counts as a sign of life of \<open>j\<close>; and when the newcomer leaves, the datagrams of \<open>j\<close> are ignored.\<close>

theorem address_taken_over:
  assumes inv: "net_inv ch" and j: "getPeer ch j = Some p" "getPublicKeyByUdp ch (p_udp p) = j" "j \<noteq> []"
    and k: "\<not> hasPeer ch k" "k \<noteq> []" and t: "tx_commands t = [AddPeer q http (p_udp p) k]"
    and c: "process_command L (tx_origin t) (AddPeer q http (p_udp p) k) (ch, cr) = (c', ch1, cr1)"
    and r: "process_command L k (RemovePeer q k) (ch1, cr1) = (c2, ch2, cr2)"
  shows "validateTx C ch h t = validateTx C ch0 h t \<and> getPeer ch1 j = Some p \<and>
    getPublicKeyByUdp ch1 (p_udp p) = k \<and> (\<forall>u. getPublicKeyByUdp ch1 u \<noteq> j) \<and>
    (\<forall>s n data u st. nd_net s = Some n \<longrightarrow> incomingData C L cfg env data u (ch1, cr1, s) = Inr st \<longrightarrow>
       (\<exists>n'. nd_net (snd (snd st)) = Some n' \<and> jm_get (mapOnline n') j = jm_get (mapOnline n) j)) \<and>
    getPeer ch2 j = Some p \<and> (\<forall>n data. receive C ch2 n data (p_udp p) = Inr None)"
proof -
  have ch1: "ch1 = addPeer L http (p_udp p) k ch" and ch2: "ch2 = removePeer L k ch1" using c r by auto
  have jk: "j \<noteq> k" using j(1) k(1) by (auto simp: hasPeer_def getPeer_def)
  have u: "getPublicKeyByUdp ch1 u \<noteq> j" for u
    using addPeer_udp [OF k(1)] udp_owner [OF inv _ j(3,1)] jk unfolding ch1 by metis
  have v: "validateTx C ch h t = validateTx C ch0 h t"
    using t by (simp add: validateTx_iff command_allowed_def)
  have g: "getPeer ch1 j = Some p" "getPublicKeyByUdp ch1 (p_udp p) = k" "getPeer ch2 j = Some p"
    using j(1) jk addPeer_getPeer [OF k(1)] addPeer_udp [OF k(1)] by (simp_all add: ch1 ch2 removePeer_getPeer)
  have "getPublicKeyByUdp ch2 (p_udp p) = []"
    using removePeer_udp [of ch1 k _ L "p_udp p"] addPeer_getPeer [OF k(1)] by (simp add: ch1 ch2)
  then show ?thesis using v g u receive_unknown unheard [OF _ u] by auto
qed

theorem address_taken_over_witness:
  "receive demo_crypto (demo_chain ''abc'') demo_net (demo_packet 5) ''udp-b'' = Inr (Some (demo_key CHR ''b'', demo_status 5)) \<and>
    (let ch1 = addPeer mem_level ''http-d'' ''udp-b'' (demo_key CHR ''d'') (demo_chain ''abc'')
     in (\<forall>u. getPublicKeyByUdp ch1 u \<noteq> demo_key CHR ''b'') \<and>
        receive demo_crypto (removePeer mem_level (demo_key CHR ''d'') ch1) demo_net (demo_packet 5) ''udp-b'' = Inr None)"
proof -
  let ?c = "AddPeer (Some 1) ''http-d'' (p_udp (demo_peer CHR ''b'')) (demo_key CHR ''d'')"
  let ?t = "Transaction_make demo_crypto (demo_wallet CHR ''a'') 2 ''ident123'' [?c]"
  obtain cr where "chain_run demo_crypto mem_level demo_cfg no_propose (demo_key CHR ''a'')
    [demo_genesis ''abc''] (demo_chain ''abc'') cr ()" using demo_run1 by blast
  from chain_run_ok [OF this mem_level_ok demo_max] have i: "net_inv (demo_chain ''abc'')" by (simp add: chain_ok_def)
  have j: "getPeer (demo_chain ''abc'') (demo_key CHR ''b'') = Some (demo_peer CHR ''b'')"
    "getPublicKeyByUdp (demo_chain ''abc'') (p_udp (demo_peer CHR ''b'')) = demo_key CHR ''b''" "demo_key CHR ''b'' \<noteq> []"
    and k: "\<not> hasPeer (demo_chain ''abc'') (demo_key CHR ''d'')" "demo_key CHR ''d'' \<noteq> []"
    and t: "tx_commands ?t = [?c]"
    using demo_status(4,5) by (simp_all add: demo_peer_def Transaction_make_def) (simp add: demo_key_def)
  have u: "p_udp (demo_peer CHR ''b'') = ''udp-b''" by (simp add: demo_peer_def)
  note taken = address_taken_over [OF i j k t process_command.simps(1) process_command.simps(2), where L = mem_level and cr = jm_empty, unfolded u]
  have n: "\<not> isClosing demo_net" "arrayNetwork demo_net \<noteq> []" by (simp_all add: demo_net_def)
  have "receive demo_crypto (demo_chain ''abc'') demo_net (demo_packet 5) ''udp-b'' = Inr (Some (demo_key CHR ''b'', demo_status 5))"
    by (rule demo_receive [OF _ n demo_newer]) simp_all
  then show ?thesis unfolding Let_def using taken by blast
qed

end
