(* ===== verification/Rounds.thy ===== *)
theory Rounds
  imports Wire_Round Addresses
begin

text \<open>
  One round after the other. A group of nodes is \<open>ready\<close> when all hold the same blocks, know the same peers
  by their addresses, take all of them for online and have heard nothing newer than the others' clocks. The
  lemmas carry each part of this through a round; the theorem gives it back for the next block, whose
  validator is the next in the list of peers.
\<close>

section \<open>Blocks that leave the peers alone\<close>

fun names_peer :: "command \<Rightarrow> bool" where
  "names_peer (AddPeer q h u k) = True"
| "names_peer (RemovePeer q k) = True"
| "names_peer c = False"

definition same_peers :: "block \<Rightarrow> bool" where
  "same_peers b \<longleftrightarrow> list_all (\<lambda>t. list_all (\<lambda>c. \<not> names_peer c) (tx_commands t)) (blk_tx b)"

text \<open>The addresses of the peers, both ways.\<close>

definition addresses :: "'db chain \<Rightarrow> (string \<Rightarrow> string option) \<times> (string, string) jsmap" where
  "addresses ch = ((\<lambda>k. map_option p_udp (jm_get (mapPeer ch) k)), mapUdp ch)"

interpretation keeps_addresses: ledger_invariant L "\<lambda>_ c. \<not> names_peer c" "\<lambda>s. addresses (fst s) = r"
  for L :: "'db level" and r
proof unfold_locales
  fix s :: "'db chain \<times> credits" and origin c
  assume k: "addresses (fst s) = r" and c: "\<not> names_peer c"
  obtain ch cr where s: "s = (ch, cr)" by (cases s)
  have "addresses (fst (snd (process_command L origin c (ch, cr)))) = addresses ch"
  proof (cases c)
    case (ModifyStake q k i n)
    obtain n' ch' cr' where m: "modifyStake L origin k i n (ch, cr) = (n', ch', cr')" by (cases "modifyStake L origin k i n (ch, cr)") auto
    from m have "addresses ch' = addresses ch"
      by (cases rule: modifyStake_cases) (auto simp: addresses_def updateStateData_def)
    then show ?thesis using m ModifyStake by simp
  qed (use c in \<open>auto simp: addresses_def updateStateData_def\<close>)
  then show "addresses (fst (snd (process_command L origin c s))) = r" using k s by simp
qed (simp add: addresses_def updateStateData_def)

lemma addresses_stay:
  assumes "holds_blocks L cfg bs ch" and "holds_blocks L cfg (bs @ [b]) ch'" and "same_peers b"
  shows "addresses ch' = addresses ch"
proof -
  obtain b' ch1 cr1 where p: "processState L cfg 0 b (ch, jm_empty) = (b', ch1, cr1)"
    by (cases "processState L cfg 0 b (ch, jm_empty)") auto
  have v: "ledger_view ch = ledger_of bs" "ledger_view ch' = ledger_of (bs @ [b])"
    using assms(1,2) by (simp_all add: holds_blocks_def chain_ok_def)
  have "ledger_view ch' = ledger_view ch1" using ledger_of_snoc [OF p v(1)] v(2) by simp
  then have "addresses ch' = addresses ch1" by (simp only: ledger_view_eq addresses_def)
  moreover have "addresses (fst (ch1, cr1)) = addresses ch"
    by (rule keeps_addresses.keep_processState [OF _ _ p]) (use assms(3) in \<open>simp_all add: same_peers_def\<close>)
  ultimately show ?thesis by simp
qed

lemma addresses_facts:
  assumes "addresses ch' = addresses ch"
  shows "dom (getPeer ch') = dom (getPeer ch)" and "getPublicKeyByUdp ch' = getPublicKeyByUdp ch" and "address ch' = address ch"
proof -
  have u: "map_option p_udp (getPeer ch' k) = map_option p_udp (getPeer ch k)" for k
    using assms by (simp add: addresses_def getPeer_def fun_eq_iff)
  have "getPeer ch' k = None \<longleftrightarrow> getPeer ch k = None" for k using u [of k] by (metis map_option_is_None)
  then show "dom (getPeer ch') = dom (getPeer ch)" by (auto simp: dom_def)
  show "getPublicKeyByUdp ch' = getPublicKeyByUdp ch"
    using assms by (intro ext) (simp add: getPublicKeyByUdp_def addresses_def)
  show "address ch' = address ch"
  proof
    fix k
    show "address ch' k = address ch k" using u [of k]
      by (cases "getPeer ch k"; cases "getPeer ch' k") (simp_all add: address_def)
  qed
qed

lemma no_names_no_removal: "same_peers b \<Longrightarrow> no_removal b"
proof -
  have "is_removal c \<Longrightarrow> names_peer c" for c by (cases c) simp_all
  then show "same_peers b \<Longrightarrow> no_removal b" by (auto simp: same_peers_def no_removal_def list_all_iff)
qed

section \<open>What a node has heard\<close>

text \<open>How the network object changes when messages of \<open>M\<close> arrive at the time \<open>now\<close>.\<close>

definition heard :: "int \<Rightarrow> message set \<Rightarrow> net \<Rightarrow> net \<Rightarrow> bool" where
  "heard now M n n' \<longleftrightarrow> arrayNetwork n' = arrayNetwork n \<and> arrayBroadcast n' = arrayBroadcast n \<and>
     isClosing n' = isClosing n \<and> samReady n' = samReady n \<and>
     (\<forall>k. jm_get (mapOnline n') k = jm_get (mapOnline n) k \<or> jm_get (mapOnline n') k = Some now) \<and>
     (\<forall>k. jm_get (mapMsgSeq n') k = jm_get (mapMsgSeq n) k \<or>
        (\<exists>m \<in> M. message_key m = k \<and> jm_get (mapMsgSeq n') k = Some (msg_seq m)))"

lemma heard_refl: "heard now M n n"
  by (simp add: heard_def)

lemma heard_trans: "heard now M n n1 \<Longrightarrow> heard now M n1 n2 \<Longrightarrow> heard now M n n2"
  unfolding heard_def by metis

lemma heard_note: "m \<in> M \<Longrightarrow> heard now M n (note_message now pk m n)"
  by (auto simp: heard_def note_message_def)

lemma receive_Some:
  "receive C ch n data u = Inr (Some x) \<Longrightarrow> \<not> isClosing n \<and> arrayNetwork n \<noteq> [] \<and> getPublicKeyByUdp ch u \<noteq> []"
  by (auto simp: receive_def Let_def split: if_splits)

text \<open>A packet, and a sequence of packets.\<close>

lemma heard_packet:
  assumes C: "codec_ok C" and p: "packed C m t" "m \<in> M" and n: "nd_net s = Some n"
    and i: "incomingData C L cfg env t u (ch, cr, s) = Inr (ch', cr', s')"
  shows "nd_wallet s' = nd_wallet s \<and> (\<exists>n'. nd_net s' = Some n' \<and> heard (env_now env) M n n')"
proof -
  obtain w where w: "wallet_ok C w" "msg_origin m = getPublicKey C w" "Message_pack C w VERSION_4 m = Inr t"
    using p(1) by (auto simp: packed_def)
  have e: "m' = m" if "receive C ch n t u = Inr (Some (pk, m'))" for pk m'
    using receive_packed [OF C w(1-3), of n ch u] receive_Some [OF that] that by (auto split: if_splits)
  note k = incomingData_net [OF i n]
  show ?thesis
  proof (cases "\<exists>pk m'. receive C ch n t u = Inr (Some (pk, m'))")
    case True
    then obtain pk m' where r: "receive C ch n t u = Inr (Some (pk, m'))" by blast
    then show ?thesis using k e [OF r] heard_note [OF p(2)] by auto
  next
    case False
    then have "nd_net s' = Some n" using k by (auto split: sum.splits option.splits)
    then show ?thesis using k heard_refl by blast
  qed
qed

lemma heard_packets:
  assumes C: "codec_ok C" and p: "\<forall>x \<in> set xs. packed C (m x) (t x) \<and> m x \<in> M"
  shows "nd_net s = Some n \<Longrightarrow> receive_all C L cfg env (map (\<lambda>x. (u x, t x)) xs) (ch, cr, s) = Inr (ch', cr', s') \<Longrightarrow>
    nd_wallet s' = nd_wallet s \<and> (\<exists>n'. nd_net s' = Some n' \<and> heard (env_now env) M n n')"
  using p
proof (induction xs arbitrary: ch cr s n)
  case Nil
  then show ?case using heard_refl by auto
next
  case (Cons x xs)
  obtain ch1 cr1 s1 where i: "incomingData C L cfg env (t x) (u x) (ch, cr, s) = Inr (ch1, cr1, s1)"
    and r: "receive_all C L cfg env (map (\<lambda>x. (u x, t x)) xs) (ch1, cr1, s1) = Inr (ch', cr', s')"
    using Cons.prems(2) by auto
  have "packed C (m x) (t x)" "m x \<in> M" using Cons.prems(3) by simp_all
  from heard_packet [OF C this Cons.prems(1) i] obtain n1 where
    1: "nd_wallet s1 = nd_wallet s" "nd_net s1 = Some n1" "heard (env_now env) M n n1" by blast
  from Cons.IH [OF 1(2) r] Cons.prems(3) 1 show ?case using heard_trans by fastforce
qed

section \<open>Nodes that are ready for a round\<close>

text \<open>The peer whose turn it is on a chain of height \<open>h\<close> when all are online.\<close>

definition turn :: "string list \<Rightarrow> int \<Rightarrow> string" where
  "turn a h = a ! nat (h mod int (length a))"

definition in_contact :: "crypto \<Rightarrow> string list \<Rightarrow> 'db site \<Rightarrow> bool" where
  "in_contact C a x \<longleftrightarrow> si_key C x \<in> set a \<and>
     (\<forall>k \<in> set a. k \<noteq> [] \<and> getPublicKeyByUdp (si_chain x) (address (si_chain x) k) = k) \<and>
     (\<exists>n. nd_net (si_node x) = Some n \<and> samReady n \<and> \<not> isClosing n \<and> map p_publicKey (arrayNetwork n) = a \<and>
        set (arrayBroadcast n) = dom (getPeer (si_chain x)) - {si_key C x})"

text \<open>The node \<open>x\<close> takes all peers for online at the time \<open>now\<close>.\<close>

definition sees_all :: "crypto \<Rightarrow> string list \<Rightarrow> int \<Rightarrow> 'db site \<Rightarrow> bool" where
  "sees_all C a now x \<longleftrightarrow> (\<forall>n. nd_net (si_node x) = Some n \<longrightarrow> list_all (isOnline (si_cfg x) (si_key C x) now n) a)"

definition newest :: "crypto \<Rightarrow> 'db site \<Rightarrow> 'db site \<Rightarrow> bool" where
  "newest C x y \<longleftrightarrow> (\<forall>n t. nd_net (si_node x) = Some n \<longrightarrow> jm_get_or (mapMsgSeq n) (seq_key t (si_key C y)) 0 < env_now (si_env y))"

definition site_ready :: "crypto \<Rightarrow> string list \<Rightarrow> block list \<Rightarrow> 'db site \<Rightarrow> bool" where
  "site_ready C a bs x \<longleftrightarrow> level_ok (si_level x) \<and> 1 \<le> blockchain_max_blocks_in_memory (si_cfg x) \<and>
     holds_blocks (si_level x) (si_cfg x) bs (si_chain x) \<and> speaks C x \<and> in_contact C a x \<and> sees_all C a (env_now (si_env x)) x"

definition ready :: "crypto \<Rightarrow> string list \<Rightarrow> block list \<Rightarrow> 'db site list \<Rightarrow> bool" where
  "ready C a bs xs \<longleftrightarrow> (\<forall>x \<in> set xs. site_ready C a bs x \<and> (\<forall>y \<in> set xs. newest C x y))"

lemma turn_in: "a \<noteq> [] \<Longrightarrow> turn a h \<in> set a"
  by (simp add: turn_def nat_less_iff)

lemma calcValidator_turn:
  assumes "a \<noteq> []" and "list_all on a"
  shows "calcValidator_of on a ch = Inr (turn a (ch_height ch))"
proof -
  let ?i = "nat (ch_height ch mod int (length a))"
  have i: "?i < length a" using assms(1) by (simp add: nat_less_iff)
  then have "on (a ! ?i)" using assms(2) by (simp add: list_all_length)
  then show ?thesis using next_online_stop [OF i] assms(1) by (simp add: calcValidator_of_def turn_def)
qed

lemma site_ready_follows:
  assumes "site_ready C a bs x"
  shows "follows C bs (turn a (int (length bs))) x"
proof -
  obtain n where n: "nd_net (si_node x) = Some n" "samReady n" "map p_publicKey (arrayNetwork n) = a"
    "set (arrayBroadcast n) = dom (getPeer (si_chain x)) - {si_key C x}" and k: "si_key C x \<in> set a"
    using assms by (auto simp: site_ready_def in_contact_def)
  have h: "ch_height (si_chain x) = int (length bs)"
    using assms by (auto simp: site_ready_def holds_blocks_def dest: chain_ok_height)
  have "a \<noteq> []" using k by auto
  moreover have "list_all (isOnline (si_cfg x) (si_key C x) (env_now (si_env x)) n) a"
    using assms n(1) by (simp add: site_ready_def sees_all_def)
  ultimately have v: "calcValidator_of (isOnline (si_cfg x) (si_key C x) (env_now (si_env x)) n) a (si_chain x)
      = Inr (turn a (int (length bs)))" using calcValidator_turn [of a] h by metis
  have "in_touch C (si_cfg x) (si_env x) (si_chain x) (turn a (int (length bs))) (si_node x)"
    unfolding in_touch_def by (intro exI [of _ n] conjI n(1,2)) (use n(3,4) k v in \<open>simp_all add: si_key_def\<close>)
  then show ?thesis using assms by (simp add: follows_def site_ready_def speaks_def wallet_ok_def)
qed

lemma ready_follows: "ready C a bs xs \<Longrightarrow> x \<in> set xs \<Longrightarrow> follows C bs (turn a (int (length bs))) x"
  using site_ready_follows unfolding ready_def by blast

lemma ready_hears:
  assumes "ready C a bs xs" and "x \<in> set xs" and "y \<in> set xs"
  shows "site_hears C x y"
proof -
  have "si_key C y \<in> set a" using assms by (simp add: ready_def site_ready_def in_contact_def)
  moreover have "site_ready C a bs x" "newest C x y" using assms by (simp_all add: ready_def)
  ultimately show ?thesis
    by (auto simp: site_hears_def hears_def newest_def site_ready_def in_contact_def sees_all_def list_all_iff si_key_def)
qed

section \<open>After a round\<close>

definition moved_on :: "env \<Rightarrow> 'db state \<Rightarrow> 'db site \<Rightarrow> 'db site" where
  "moved_on env st x = (case st of (ch, cr, s) \<Rightarrow> x\<lparr>si_env := env, si_chain := ch, si_credits := cr, si_node := s\<rparr>)"

text \<open>The clock goes on, but not so far that the round is forgotten.\<close>

definition soon_after :: "crypto \<Rightarrow> string list \<Rightarrow> 'db site \<Rightarrow> env \<Rightarrow> bool" where
  "soon_after C a x env \<longleftrightarrow> env_now (si_env x) < env_now env \<and>
     env_now env - network_p2p_interval_ms (si_cfg x) * 3 < env_now (si_env x) \<and> sees_all C a (env_now env) x"

text \<open>What the members of a group say, each at its own time.\<close>

definition said_by :: "crypto \<Rightarrow> 'db site list \<Rightarrow> message set" where
  "said_by C xs = {m. \<exists>y \<in> set xs. msg_origin m = si_key C y \<and> msg_seq m = env_now (si_env y)}"

lemma moved_ready:
  assumes r: "site_ready C a bs x" and b: "holds_blocks (si_level x) (si_cfg x) (bs @ [b]) ch" "same_peers b"
    and w: "nd_wallet s = nd_wallet (si_node x)" and n: "nd_net (si_node x) = Some n" "nd_net s = Some n'" "heard (env_now (si_env x)) M n n'"
    and t: "soon_after C a x env"
  shows "site_ready C a (bs @ [b]) (moved_on env (ch, cr, s) x)"
proof -
  let ?x = "moved_on env (ch, cr, s) x"
  have f: "si_level ?x = si_level x" "si_cfg ?x = si_cfg x" "si_env ?x = env" "si_chain ?x = ch" "si_node ?x = s"
    by (simp_all add: moved_on_def)
  have k: "si_key C ?x = si_key C x" using w by (simp add: si_key_def own_key_def f)
  have "holds_blocks (si_level x) (si_cfg x) bs (si_chain x)" using r by (simp add: site_ready_def)
  note adr = addresses_facts [OF addresses_stay [OF this b]]
  have "in_contact C a ?x"
    using r n unfolding in_contact_def site_ready_def f k adr by (auto simp: heard_def)
  moreover have "isOnline (si_cfg x) (si_key C x) (env_now env) n' i" if "isOnline (si_cfg x) (si_key C x) (env_now env) n i" for i
    using that n(3) t by (auto simp: isOnline_def heard_def soon_after_def jm_get_or_def split: option.splits) (metis option.distinct(1) option.inject)+
  then have "sees_all C a (env_now env) ?x" using t n by (auto simp: sees_all_def soon_after_def f k list_all_iff)
  ultimately show ?thesis using r b(1) t by (simp add: site_ready_def speaks_def f w soon_after_def)
qed

lemma moved_newest:
  assumes r: "newest C x y" "y \<in> set xs" and d: "distinct (map (si_key C) xs)"
    and n: "nd_net (si_node x) = Some n" "nd_net s = Some n'" "heard (env_now (si_env x)) (said_by C xs) n n'"
    and w: "nd_wallet s2 = nd_wallet (si_node y)" and t: "env_now (si_env y) < env_now env2"
  shows "newest C (moved_on env (ch, cr, s) x) (moved_on env2 (ch2, cr2, s2) y)"
proof -
  have k: "si_key C (moved_on env2 (ch2, cr2, s2) y) = si_key C y" using w by (simp add: moved_on_def si_key_def own_key_def)
  have "jm_get_or (mapMsgSeq n') (seq_key i (si_key C y)) 0 < env_now env2" for i
  proof (cases "jm_get (mapMsgSeq n') (seq_key i (si_key C y)) = jm_get (mapMsgSeq n) (seq_key i (si_key C y))")
    case True
    moreover have "jm_get_or (mapMsgSeq n) (seq_key i (si_key C y)) 0 < env_now (si_env y)" using r(1) n(1) by (simp add: newest_def)
    ultimately show ?thesis using t by (simp add: jm_get_or_def)
  next
    case False
    then obtain m where m: "m \<in> said_by C xs" "message_key m = seq_key i (si_key C y)"
      "jm_get (mapMsgSeq n') (seq_key i (si_key C y)) = Some (msg_seq m)" using n(3) unfolding heard_def by metis
    obtain z where z: "z \<in> set xs" "msg_origin m = si_key C z" "msg_seq m = env_now (si_env z)" using m(1) by (auto simp: said_by_def)
    have "si_key C z = si_key C y" using m(2) z(2) by (simp add: message_key_def)
    then have "z = y" using d z(1) r(2) by (auto simp: distinct_map dest: inj_onD)
    then show ?thesis using m(3) z(3) t by (simp add: jm_get_or_def)
  qed
  then show ?thesis unfolding newest_def k using n(2) by (simp add: moved_on_def)
qed

text \<open>What the round does to the network objects of its members.\<close>

lemma validator_heard:
  assumes C: "codec_ok C" and p: "validator_plays C latest txs V ps s1 (ch, cr, s)" and sp: "\<forall>x \<in> set ps. speaks C x"
    and xs: "set ps \<subseteq> set xs" and n: "nd_net (si_node V) = Some n"
  shows "nd_wallet s = nd_wallet (si_node V) \<and> (\<exists>n'. nd_net s = Some n' \<and> heard (env_now (si_env V)) (said_by C xs) n n')"
proof -
  have f: "fire_proposeBlock C (si_env V) (si_chain V) (si_node V) = Inr s1"
    and a: "receive_all C (si_level V) (si_cfg V) (si_env V)
       (map (\<lambda>x. (address (si_chain V) (si_key C x), packet C x (round_signature C latest txs (si_key C V) x))) ps)
       (si_chain V, si_credits V, s1) = Inr (ch, cr, s)" using p by (simp_all add: validator_plays_def)
  have k: "nd_net s1 = Some n" "nd_wallet s1 = nd_wallet (si_node V)"
    using net_kept.fire_proposeBlock_rel [OF f] n by simp_all
  have "\<forall>x \<in> set ps. packed C (round_signature C latest txs (si_key C V) x) (packet C x (round_signature C latest txs (si_key C V) x)) \<and>
      round_signature C latest txs (si_key C V) x \<in> said_by C xs"
    using sp xs by (auto simp: said_by_def round_message_fields intro!: packet_packed)
  from heard_packets [OF C this k(1) a] show ?thesis using k(2) by simp
qed

lemma peer_heard:
  assumes C: "codec_ok C" and p: "peer_plays C latest txs V ps x s1 (ch, cr, s)" and sp: "speaks C V"
    and xs: "V \<in> set xs" and n: "nd_net (si_node x) = Some n"
  shows "nd_wallet s = nd_wallet (si_node x) \<and> (\<exists>n'. nd_net s = Some n' \<and> heard (env_now (si_env x)) (said_by C xs) n n')"
proof -
  let ?p = "round_proposal C latest txs V" and ?c = "round_confirmation C latest txs (V # ps) V"
  have m: "packed C ?p (packet C V ?p)" "?p \<in> said_by C xs" "packed C ?c (packet C V ?c)" "?c \<in> said_by C xs"
    using sp xs by (auto simp: said_by_def round_message_fields intro!: packet_packed)
  have i: "incomingData C (si_level x) (si_cfg x) (si_env x) (packet C V ?p) (address (si_chain x) (si_key C V))
      (si_chain x, si_credits x, si_node x) = Inr (si_chain x, si_credits x, s1)"
    "incomingData C (si_level x) (si_cfg x) (si_env x) (packet C V ?c) (address (si_chain x) (si_key C V))
      (si_chain x, si_credits x, s1) = Inr (ch, cr, s)" using p by (simp_all add: peer_plays_def)
  from heard_packet [OF C m(1,2) n i(1)] obtain n1 where
    1: "nd_wallet s1 = nd_wallet (si_node x)" "nd_net s1 = Some n1" "heard (env_now (si_env x)) (said_by C xs) n n1" by blast
  from heard_packet [OF C m(3,4) 1(2) i(2)] show ?thesis using 1(1,3) heard_trans by fastforce
qed

text \<open>Both sides of a round as one relation, and what a member is left with.\<close>

definition plays :: "crypto \<Rightarrow> block \<Rightarrow> transaction list \<Rightarrow> 'db site \<Rightarrow> 'db site list \<Rightarrow> 'db site \<Rightarrow> 'db state \<Rightarrow> bool" where
  "plays C latest txs V ps x st \<longleftrightarrow>
     (if x = V then \<exists>s1. validator_plays C latest txs V ps s1 st else \<exists>s1. peer_plays C latest txs V ps x s1 st)"

definition left_with :: "crypto \<Rightarrow> block list \<Rightarrow> 'db site list \<Rightarrow> 'db site \<Rightarrow> 'db state \<Rightarrow> bool" where
  "left_with C bs xs x st \<longleftrightarrow> (case st of (ch, cr, s) \<Rightarrow>
     holds_blocks (si_level x) (si_cfg x) bs ch \<and> nd_wallet s = nd_wallet (si_node x) \<and>
     (\<exists>n n'. nd_net (si_node x) = Some n \<and> nd_net s = Some n' \<and> heard (env_now (si_env x)) (said_by C xs) n n'))"

lemma left_withE:
  assumes "left_with C bs xs x st"
  obtains ch cr s n n' where "st = (ch, cr, s)" "holds_blocks (si_level x) (si_cfg x) bs ch" "nd_wallet s = nd_wallet (si_node x)"
    "nd_net (si_node x) = Some n" "nd_net s = Some n'" "heard (env_now (si_env x)) (said_by C xs) n n'"
  using assms by (auto simp: left_with_def split: prod.splits)

lemma plays_left:
  assumes C: "codec_ok C" and p: "plays C latest txs V ps x (ch, cr, s)" and b: "holds_blocks (si_level x) (si_cfg x) bs ch"
    and sp: "\<forall>y \<in> set (V # ps). speaks C y" and xs: "set (V # ps) \<subseteq> set xs" and n: "in_contact C a x"
  shows "left_with C bs xs x (ch, cr, s)"
proof -
  obtain m where m: "nd_net (si_node x) = Some m" using n by (auto simp: in_contact_def)
  have "nd_wallet s = nd_wallet (si_node x) \<and> (\<exists>n'. nd_net s = Some n' \<and> heard (env_now (si_env x)) (said_by C xs) m n')"
  proof (cases "x = V")
    case True
    then obtain s1 where "validator_plays C latest txs V ps s1 (ch, cr, s)" using p by (auto simp: plays_def)
    then show ?thesis using validator_heard [OF C, of latest txs V ps s1 ch cr s xs m] sp xs m True by auto
  next
    case False
    then obtain s1 where "peer_plays C latest txs V ps x s1 (ch, cr, s)" using p by (auto simp: plays_def)
    then show ?thesis using peer_heard [OF C, of latest txs V ps x s1 ch cr s xs m] sp xs m by auto
  qed
  then show ?thesis using b m by (auto simp: left_with_def)
qed

lemma left_ready:
  assumes r: "ready C a bs xs" and d: "distinct (map (si_key C) xs)" and b: "same_peers b"
    and g: "\<forall>x \<in> set xs. left_with C (bs @ [b]) xs x (f x) \<and> soon_after C a x (E x)"
  shows "ready C a (bs @ [b]) (map (\<lambda>x. moved_on (E x) (f x) x) xs)"
proof -
  have "site_ready C a (bs @ [b]) (moved_on (E x) (f x) x)" if x: "x \<in> set xs" for x
  proof -
    have "left_with C (bs @ [b]) xs x (f x)" "site_ready C a bs x" "soon_after C a x (E x)" using r g x by (simp_all add: ready_def)
    then show ?thesis by (elim left_withE) (simp add: moved_ready [OF _ _ b])
  qed
  moreover have "newest C (moved_on (E x) (f x) x) (moved_on (E y) (f y) y)" if xy: "x \<in> set xs" "y \<in> set xs" for x y
  proof -
    have o: "newest C x y" "env_now (si_env y) < env_now (E y)" using r g xy by (auto simp: ready_def soon_after_def)
    have "left_with C (bs @ [b]) xs x (f x)" "left_with C (bs @ [b]) xs y (f y)" using g xy by simp_all
    then show ?thesis by (elim left_withE) (simp add: moved_newest [OF o(1) xy(2) d _ _ _ _ o(2)])
  qed
  ultimately show ?thesis by (auto simp: ready_def)
qed

lemma ready_speaks:
  assumes r: "ready C a bs xs"
  shows "\<forall>x \<in> set xs. follows C bs (turn a (int (length bs))) x \<and> speaks C x"
proof
  fix x
  assume "x \<in> set xs"
  with r have s: "site_ready C a bs x" by (auto simp: ready_def)
  then show "follows C bs (turn a (int (length bs))) x \<and> speaks C x"
    using site_ready_follows [OF s] by (simp add: site_ready_def)
qed

text \<open>C5: A group of nodes that hold the same blocks, know the same list of peers, hear each other and take all peers for online
  agrees that it is the turn of the peer at the height modulo the number of peers. When that one has a valid pool and the
  group has a quorum, a round takes place, after which every node holds the block with the transactions of the pool, and,
  a little later, the group is ready again and agrees on the next peer of the list as validator.\<close>

theorem rounds_repeat:
  assumes C: "codec_ok C" and r: "ready C a bs (V # ps @ rs)" and d: "distinct (map (si_key C) (V # ps @ rs))"
    and v: "si_key C V = turn a (int (length bs))" "hasPeer (si_chain V) (si_key C V)"
    and b: "latestBlock (si_chain V) = Some latest" "latest_height (si_chain V)" "1 \<le> blk_height latest"
    and txs: "txs = arrayPoolTx (nd_fac (si_node V))" "txs \<noteq> []" "distinct (map tx_origin txs)"
      "\<forall>t \<in> set txs. validateTx C (si_chain V) (ch_height (si_chain V) + 1) t"
    and ps: "ps \<noteq> []" "hasQuorumWeighted (si_chain V) (map (si_key C) (V # ps))"
      "\<forall>k < length ps. 0 < k \<longrightarrow> \<not> hasQuorumWeighted (si_chain V) (map (si_key C) (V # take k ps))"
    and n: "length txs \<le> 16" "length (V # ps) \<le> 16"
    and q: "quiet (Block_make C latest txs)" "blk_height latest + 1 < 10 ^ 16" "pattern_key (blk_hash (Block_make C latest txs))"
      "pattern_key (blk_hash latest)" "same_peers (Block_make C latest txs)"
    and t: "\<forall>x \<in> set (V # ps @ rs). soon_after C a x (E x)"
  shows "(\<forall>x \<in> set (V # ps @ rs). follows C bs (turn a (int (length bs))) x) \<and>
    (\<exists>f. (\<forall>x \<in> set (V # ps @ rs). plays C latest txs V ps x (f x)) \<and>
      (let b = round_block C latest txs (V # ps); ys = map (\<lambda>x. moved_on (E x) (f x) x) (V # ps @ rs)
       in blk_tx b = txs \<and> ready C a (bs @ [b]) ys \<and> (\<forall>y \<in> set ys. follows C (bs @ [b]) (turn a (int (length bs) + 1)) y)))"
proof -
  let ?b = "round_block C latest txs (V # ps)" and ?xs = "V # ps @ rs"
  have sr: "site_ready C a bs x" if "x \<in> set ?xs" for x using r that unfolding ready_def by blast
  have "si_key C V \<notin> si_key C ` set (ps @ rs)" using d by auto
  then have new: "\<forall>x \<in> set (ps @ rs). si_key C x \<noteq> si_key C V" by (metis imageI)
  note f = ready_speaks [OF r]
  have h: "\<forall>x \<in> set (ps @ rs). site_hears C x V \<and> si_key C x \<noteq> turn a (int (length bs))" "\<forall>x \<in> set ps. site_hears C V x"
    using ready_hears [OF r] new v(1) by auto
  have d1: "distinct (map (si_key C) (V # ps))" using d by simp
  note round = honest_round [OF C f v(1) v(2) [unfolded v(1)] h b txs ps(1) d1 ps(2,3) n q(1-4) no_names_no_removal [OF q(5)], unfolded Let_def]
  have "\<exists>st. plays C latest txs V ps x st \<and> left_with C (bs @ [?b]) ?xs x st" if x: "x \<in> set ?xs" for x
  proof -
    obtain ch cr s where p: "plays C latest txs V ps x (ch, cr, s)" "holds_blocks (si_level x) (si_cfg x) (bs @ [?b]) ch"
    proof (cases "x = V")
      case True
      then show ?thesis using round that unfolding plays_def by auto
    next
      case False
      then have "x \<in> set (ps @ rs)" using x by simp
      then show ?thesis using round that False unfolding plays_def by metis
    qed
    have "left_with C (bs @ [?b]) ?xs x (ch, cr, s)"
      by (rule plays_left [OF C p]) (use f sr [OF x] in \<open>auto simp: site_ready_def\<close>)
    then show ?thesis using p(1) by blast
  qed
  then obtain g where g: "\<forall>x \<in> set ?xs. plays C latest txs V ps x (g x) \<and> left_with C (bs @ [?b]) ?xs x (g x)" by metis
  have sp: "same_peers ?b" using q(5) by (simp add: same_peers_def round_block_def Let_def)
  have ok: "ready C a (bs @ [?b]) (map (\<lambda>x. moved_on (E x) (g x) x) ?xs)"
    by (rule left_ready [OF r d sp]) (use g t in blast)
  have len: "int (length (bs @ [?b])) = int (length bs) + 1" by simp
  have next_turn: "\<forall>y \<in> set (map (\<lambda>x. moved_on (E x) (g x) x) ?xs). follows C (bs @ [?b]) (turn a (int (length bs) + 1)) y"
    by (rule ballI, drule ready_follows [OF ok], simp only: len)
  have now: "\<forall>x \<in> set ?xs. follows C bs (turn a (int (length bs))) x" and played: "\<forall>x \<in> set ?xs. plays C latest txs V ps x (g x)"
    using f g by blast+
  show ?thesis unfolding Let_def by (intro conjI exI [of _ g] now played ok next_turn round_block_fields(4))
qed

section \<open>An instance\<close>

lemma demo_site_ready:
  assumes "c \<in> set ''abc''"
  shows "site_ready demo_crypto (map demo_key ''abc'') [demo_genesis ''abc''] (demo_site c txs)" and "0 \<le> t \<Longrightarrow> t < 3 \<Longrightarrow> sees_all demo_crypto (map demo_key ''abc'') (100000 + t) (demo_site c txs)"
proof -
  let ?x = "demo_site c txs" and ?a = "map demo_key ''abc''" and ?n = "demo_net\<lparr>arrayBroadcast := map demo_key (filter (\<lambda>d. d \<noteq> c) ''abc'')\<rparr>"
  have n: "nd_net (si_node ?x) = Some ?n" "samReady ?n" "\<not> isClosing ?n" "map p_publicKey (arrayNetwork ?n) = ?a"
    "set (arrayBroadcast ?n) = dom (getPeer (si_chain ?x)) - {si_key demo_crypto ?x}"
    unfolding demo_site_key demo_site_fields demo_peers by (auto simp: demo_site_def demo_net_def demo_peer_def)
  have a: "k \<noteq> [] \<and> getPublicKeyByUdp (si_chain ?x) (address (si_chain ?x) k) = k" if k: "k \<in> set ?a" for k
  proof -
    obtain d where d: "d \<in> set ''abc''" "k = demo_key d" using k by auto
    have "site_hears demo_crypto ?x (demo_site d [])" using assms d(1) by (rule demo_hears)
    then show ?thesis by (simp add: site_hears_def hears_def demo_site_key d(2) demo_site_fields)
  qed
  have c: "in_contact demo_crypto ?a ?x"
    unfolding in_contact_def using a n assms by (intro conjI exI [of _ ?n]) (auto simp: demo_site_key)
  show o: "sees_all demo_crypto ?a (100000 + t) ?x" if "0 \<le> t" "t < 3" for t
    using that unfolding sees_all_def n(1) by (simp add: isOnline_def demo_net_def demo_site_fields demo_cfg_def jm_get_or_def jm_get_def)
  then have "sees_all demo_crypto ?a (env_now (si_env ?x)) ?x" using o [of 0] by (simp add: demo_site_fields demo_env_def)
  then show "site_ready demo_crypto ?a [demo_genesis ''abc''] ?x"
    using c demo_speaks [OF assms] mem_level_ok demo_max demo_chain_ok
    by (simp add: site_ready_def holds_blocks_def demo_site_fields)
qed

text \<open>The three sample nodes bring a transaction into the second block; then it is the turn of the third.\<close>

theorem rounds_repeat_witness:
  "\<exists>b ys. length ys = 3 \<and> blk_tx b = [demo_data CHR ''a'' 2] \<and>
    (\<forall>y \<in> set ys. follows demo_crypto [demo_genesis ''abc'', b] (demo_key CHR ''c'') (y :: (string \<times> string) list site))"
proof -
  let ?V = "demo_site CHR ''b'' [demo_data CHR ''a'' 2]" and ?ps = "[demo_site CHR ''a'' []]" and ?rs = "[demo_site CHR ''c'' []]"
    and ?txs = "[demo_data CHR ''a'' 2]" and ?a = "map demo_key ''abc''"
  let ?E = "\<lambda>x :: (string \<times> string) list site. demo_env\<lparr>env_now := 100001\<rparr>"
  obtain latest where l: "latestBlock (demo_chain ''abc'') = Some latest" "latest_height (demo_chain ''abc'')" "blk_height latest = 1"
    "quiet (Block_make demo_crypto latest ?txs)" "pattern_key (blk_hash latest)"
    "pattern_key (blk_hash (Block_make demo_crypto latest ?txs))" by (rule demo_latest)
  note fl = demo_site_fields
  have new: "newest demo_crypto (demo_site c us) (demo_site d vs)" for c d us vs
    by (simp add: newest_def demo_site_def demo_net_def demo_env_def jm_get_or_def)
  have r: "ready demo_crypto ?a [demo_genesis ''abc''] (?V # ?ps @ ?rs)"
    using demo_site_ready(1) new by (simp add: ready_def)
  have t: "\<forall>x \<in> set (?V # ?ps @ ?rs). soon_after demo_crypto ?a x (?E x)"
    using demo_site_ready(2) [of _ 1] by (simp add: soon_after_def fl demo_env_def demo_cfg_def)
  have quo: "hasQuorumWeighted (si_chain ?V) (map (si_key demo_crypto) (?V # ?ps))"
    using demo_quorum by (simp add: fl demo_site_key hasQuorumWeighted_iff add.commute)
  have side: "distinct (map (si_key demo_crypto) (?V # ?ps @ ?rs))" "si_key demo_crypto ?V = turn ?a (int (length [demo_genesis ''abc'']))"
    "hasPeer (si_chain ?V) (si_key demo_crypto ?V)" "latestBlock (si_chain ?V) = Some latest" "latest_height (si_chain ?V)" "1 \<le> blk_height latest"
    "?txs = arrayPoolTx (nd_fac (si_node ?V))" "blk_height latest + 1 < 10 ^ 16" "turn ?a (int (length [demo_genesis ''abc'']) + 1) = demo_key CHR ''c''"
    using l(1-3) by (simp_all add: fl demo_site_key turn_def)
  have "same_peers (Block_make demo_crypto latest ?txs)"
    by (simp add: same_peers_def Block_make_def demo_data_def demo_tx_def Transaction_make_def Let_def)
  note round = rounds_repeat [OF demo_codec_ok r side(1-7) _ _ demo_pool_valid [folded fl(1) [of "CHR ''b''" ?txs]] _ quo _ _ _ l(4) side(8) l(6,5) this t]
  then obtain f where f: "blk_tx (round_block demo_crypto latest ?txs (?V # ?ps)) = ?txs"
    "\<forall>y \<in> set (map (\<lambda>x. moved_on (?E x) (f x) x) (?V # ?ps @ ?rs)).
       follows demo_crypto ([demo_genesis ''abc''] @ [round_block demo_crypto latest ?txs (?V # ?ps)]) (demo_key CHR ''c'') y"
    unfolding Let_def side(9) by auto
  then show ?thesis
    by (intro exI [of _ "round_block demo_crypto latest ?txs (?V # ?ps)"] exI [of _ "map (\<lambda>x. moved_on (?E x) (f x) x) (?V # ?ps @ ?rs)"]) simp
qed

end
