(* ===== verification/Api.thy ===== *)
theory Api
  imports Chain_Queries Bootstrap Wallet_Files
begin

text \<open>
  \<open>src/net/api.ts\<close>: the routes of the HTTP interface and their handlers, with what they read
  through the server. A handler gives a status and a JSON body or none; \<open>Inl\<close> is an exception
  that leaves the handler, which in an asynchronous one ends the process. Segments of the path
  are texts as \<open>Number(...)\<close> reads them.
\<close>

section \<open>Requests and responses\<close>

text \<open>\<open>ap_token\<close> is the API token of the wallet, \<open>ap_nanoid\<close> the next random token.\<close>

record api_env =
  ap_version :: string
  ap_license :: string
  ap_token :: string
  ap_toB32 :: "string \<Rightarrow> string"
  ap_nanoid :: string

datatype response = Response nat "json option"

abbreviation ended :: "nat \<Rightarrow> response" where
  "ended status \<equiv> Response status None"

abbreviation sent :: "json \<Rightarrow> response" where
  "sent j \<equiv> Response 200 (Some j)"

text \<open>\<open>try { ... } catch (error) { res.status(404).end() }\<close>\<close>

definition or_404 :: "response result \<Rightarrow> response result" where
  "or_404 r = (case r of Inl e \<Rightarrow> if e = NoReturn then Inl e else Inr (ended 404) | Inr x \<Rightarrow> Inr x)"

section \<open>JSON bodies\<close>

definition json_of_peer :: "peer \<Rightarrow> json" where
  "json_of_peer p = JObj [(''publicKey'', JStr (p_publicKey p)), (''http'', JStr (p_http p)),
     (''udp'', JStr (p_udp p)), (''stake'', JNum (p_stake p))]"

definition json_of_blocks :: "block list \<Rightarrow> json" where
  "json_of_blocks bs = JArr (map json_of_block bs)"

definition json_of_state :: "string \<times> string \<Rightarrow> json" where
  "json_of_state kv = JObj [(''key'', JStr (fst kv)), (''value'', JStr (snd kv))]"

definition json_of_stack :: "(string \<times> command list) list \<Rightarrow> json" where
  "json_of_stack xs = JArr (map (\<lambda>(i, cs). JObj [(''ident'', JStr i), (''commands'', json_of_commands cs)]) xs)"

fun json_of_num :: "jsnum \<Rightarrow> json" where
  "json_of_num (Fin q) = JNum \<lfloor>q\<rfloor>"
| "json_of_num x = JNull"

section \<open>Numbers as arguments\<close>

text \<open>
  \<open>getRange\<close> and \<open>getPage\<close> clamp their arguments. The integer that \<open>as_index\<close> gives is clamped
  like the number: \<open>NaN\<close> and \<open>Infinity\<close> compare with no height as smaller, which makes them the
  height itself, \<open>-Infinity\<close> is below 1.
\<close>

definition as_index :: "'db chain \<Rightarrow> jsnum \<Rightarrow> int" where
  "as_index ch n = (case n of Fin q \<Rightarrow> \<lfloor>q\<rfloor> | NegInf \<Rightarrow> - 1 | _ \<Rightarrow> ch_height ch + 1)"

definition getRange_num :: "'db level \<Rightarrow> config \<Rightarrow> 'db chain \<Rightarrow> jsnum \<Rightarrow> jsnum \<Rightarrow> block list result" where
  "getRange_num L cfg ch gte lte = getRange L cfg ch (as_index ch gte) (as_index ch lte)"

text \<open>A page or a size that is \<open>NaN\<close> makes both bounds \<open>NaN\<close>.\<close>

definition getPage_num :: "'db level \<Rightarrow> config \<Rightarrow> 'db chain \<Rightarrow> jsnum \<Rightarrow> jsnum \<Rightarrow> block list result" where
  "getPage_num L cfg ch page sz =
     (if page = NaN \<or> sz = NaN then getRange_num L cfg ch NaN NaN
      else getPage L cfg ch (as_index ch page)
        (case sz of Fin q \<Rightarrow> if of_int (api_max_query_size cfg) < q then api_max_query_size cfg else \<lfloor>q\<rfloor>
         | _ \<Rightarrow> api_max_query_size cfg))"

definition getPerformance :: "'db level \<Rightarrow> 'db chain \<Rightarrow> jsnum \<Rightarrow> json" where
  "getPerformance L ch h =
     JObj [(''timestamp'', json_of_num
       (case lv_get L (dbState ch) (''debug-performance-'' @ num_str h) of None \<Rightarrow> num 0 | Some t \<Rightarrow> Number_of t))]"

section \<open>Handlers that read\<close>

text \<open>The first element of a list that is empty is \<open>undefined\<close>, and the body then is empty.\<close>

definition first_block :: "block list \<Rightarrow> response" where
  "first_block bs = (case bs of [] \<Rightarrow> Response 200 None | b # _ \<Rightarrow> sent (json_of_block b))"

definition api_sync :: "'db level \<Rightarrow> config \<Rightarrow> 'db chain \<Rightarrow> string \<Rightarrow> response result" where
  "api_sync L cfg ch height =
     (let h = num_floor (num_or (Number_of height) (num 0))
      in if num_le h (num (ch_height ch)) then
           bindr (getRange_num L cfg ch h (num_add h (num (network_sync_size cfg)))) (\<lambda>bs. Inr (sent (json_of_blocks bs)))
         else Inr (ended 404))"

definition api_about :: "crypto \<Rightarrow> api_env \<Rightarrow> 'db chain \<Rightarrow> node \<Rightarrow> response" where
  "api_about C A ch s = sent (JObj [(''version'', JStr (ap_version A)), (''license'', JStr (ap_license A)),
     (''publicKey'', JStr (own_key C s)), (''height'', JNum (ch_height ch))])"

definition api_networkOnline :: "node \<Rightarrow> response result" where
  "api_networkOnline s = bindr (net_of s) (\<lambda>n. Inr (sent (JArr (map JStr (sort (getArrayOnline n))))))"

definition api_network :: "node \<Rightarrow> string option \<Rightarrow> response result" where
  "api_network s stake =
     (let t = num_floor (num_or (case stake of None \<Rightarrow> NaN | Some x \<Rightarrow> Number_of x) (num 0))
      in bindr (net_of s) (\<lambda>n.
           let a = arrayNetwork n
           in Inr (sent (JArr (map json_of_peer
                (if num_less (num 0) t then filter (\<lambda>r. num_le t (num (p_stake r))) a else a))))))"

definition api_stateSearch :: "'db level \<Rightarrow> config \<Rightarrow> 'db chain \<Rightarrow> string option \<Rightarrow> response" where
  "api_stateSearch L cfg ch q =
     sent (JArr (map json_of_state (searchState L cfg ch (case q of None \<Rightarrow> [] | Some x \<Rightarrow> x))))"

definition api_state :: "'db level \<Rightarrow> 'db chain \<Rightarrow> string \<Rightarrow> response" where
  "api_state L ch key =
     (case getState L ch key of None \<Rightarrow> ended 404 | Some kv \<Rightarrow> sent (json_of_state kv))"

definition api_stack :: "node \<Rightarrow> response" where
  "api_stack s = sent (json_of_stack (stackTransaction (nd_fac s)))"

definition api_stackModifyStake :: "node \<Rightarrow> response" where
  "api_stackModifyStake s = sent (json_of_commands (nd_stackModifyStake s))"

definition api_blockGenesis :: "'db level \<Rightarrow> config \<Rightarrow> 'db chain \<Rightarrow> response result" where
  "api_blockGenesis L cfg ch = bindr (getRange L cfg ch 1 (- 1)) (\<lambda>bs. Inr (first_block bs))"

definition api_blockLatest :: "'db chain \<Rightarrow> response" where
  "api_blockLatest ch = sent (case latestBlock ch of None \<Rightarrow> JObj [] | Some b \<Rightarrow> json_of_block b)"

definition api_block :: "'db level \<Rightarrow> config \<Rightarrow> 'db chain \<Rightarrow> string \<Rightarrow> response result" where
  "api_block L cfg ch height =
     (let h = num_floor (Number_or (Some height) 0)
      in if num_less h (num 1) \<or> num_less (num (ch_height ch)) h then Inr (ended 404)
         else bindr (getRange_num L cfg ch h (num (- 1))) (\<lambda>bs. Inr (first_block bs)))"

definition api_blocksSearch :: "'db level \<Rightarrow> config \<Rightarrow> 'db chain \<Rightarrow> string option \<Rightarrow> response result" where
  "api_blocksSearch L cfg ch q =
     or_404 (bindr (searchBlocks L cfg ch (case q of None \<Rightarrow> [] | Some x \<Rightarrow> x)) (\<lambda>bs. Inr (sent (json_of_blocks bs))))"

definition api_blocksPage :: "'db level \<Rightarrow> config \<Rightarrow> 'db chain \<Rightarrow> string \<Rightarrow> string option \<Rightarrow> response result" where
  "api_blocksPage L cfg ch page sz =
     or_404 (bindr (getPage_num L cfg ch (Number_or (Some page) 1) (Number_or sz 0)) (\<lambda>bs. Inr (sent (json_of_blocks bs))))"

definition api_blocks :: "'db level \<Rightarrow> config \<Rightarrow> 'db chain \<Rightarrow> string option \<Rightarrow> string option \<Rightarrow> response result" where
  "api_blocks L cfg ch gte lte =
     (let g = num_floor (Number_or gte 1); l = num_floor (Number_or lte 0)
      in if num_less g (num 1) then Inr (ended 404)
         else or_404 (bindr (getRange_num L cfg ch g l) (\<lambda>bs. Inr (sent (json_of_blocks bs)))))"

definition api_transaction :: "'db level \<Rightarrow> 'db chain \<Rightarrow> string \<Rightarrow> string \<Rightarrow> response result" where
  "api_transaction L ch origin ident =
     (if origin = [] \<or> ident = [] then Inr (ended 404)
      else or_404 (bindr (getTransaction L ch origin ident) (\<lambda>(h, t).
             Inr (sent (JObj [(''height'', JNum h), (''transaction'', json_of_transaction t)])))))"

section \<open>Handlers that write\<close>

definition api_join :: "api_env \<Rightarrow> 'db chain \<Rightarrow> string \<Rightarrow> string \<Rightarrow> string \<Rightarrow> boot \<Rightarrow> response \<times> boot" where
  "api_join A ch http udp publicKey bt =
     (case Bootstrap_join (ap_nanoid A) ch http udp publicKey 0 bt of
        (ok, bt) \<Rightarrow>
          (if ok then sent (JObj [(''http'', JStr (ap_toB32 A http)), (''udp'', JStr (ap_toB32 A udp)), (''publicKey'', JStr publicKey)])
           else ended 403, bt))"

definition api_challenge :: "crypto \<Rightarrow> node \<Rightarrow> string \<Rightarrow> boot \<Rightarrow> response \<times> boot" where
  "api_challenge C s token bt =
     (case Bootstrap_challenge C (nd_wallet s) token bt of
        (signedToken, bt) \<Rightarrow>
          (if signedToken \<noteq> [] then sent (JObj [(''token'', JStr signedToken)]) else ended 403, bt))"

definition ident_response :: "string option \<Rightarrow> response" where
  "ident_response r =
     (case r of None \<Rightarrow> ended 403
      | Some i \<Rightarrow> if i \<noteq> [] then sent (JObj [(''ident'', JStr i)]) else ended 403)"

definition api_leave ::
    "crypto \<Rightarrow> config \<Rightarrow> env \<Rightarrow> 'db chain \<Rightarrow> node \<Rightarrow> (response \<times> node) result" where
  "api_leave C cfg env ch s =
     bindr (stackTx C cfg env ch [RemovePeer (Some 1) (own_key C s)] [] s) (\<lambda>(r, s). Inr (ident_response r, s))"

text \<open>
  The body of \<open>PUT /transaction\<close>: \<open>commands.map\<close> throws on what is no array, and setting
  \<open>c.seq\<close> throws on an element that is no object. \<open>None\<close> is an array that the schema of
  transactions refuses because an element is no command or has other properties.
\<close>

definition is_exact :: "json \<Rightarrow> command \<Rightarrow> bool" where
  "is_exact j c = (case (j, json_of_command (set_seq 1 c)) of
     (JObj fs, JObj gs) \<Rightarrow> set (map fst fs) \<subseteq> set (map fst gs) | _ \<Rightarrow> False)"

fun is_primitive :: "json \<Rightarrow> bool" where
  "is_primitive (JObj fs) = False"
| "is_primitive (JArr xs) = False"
| "is_primitive j = True"

definition body_command :: "json \<Rightarrow> command option" where
  "body_command j = (case command_of_json j of None \<Rightarrow> None | Some c \<Rightarrow> if is_exact j c then Some c else None)"

fun body_commands :: "json \<Rightarrow> command list option result" where
  "body_commands (JArr xs) = (if list_ex is_primitive xs then Inl TypeError else Inr (those (map body_command xs)))"
| "body_commands j = Inl TypeError"

definition api_putTransaction ::
    "crypto \<Rightarrow> config \<Rightarrow> env \<Rightarrow> 'db chain \<Rightarrow> json \<Rightarrow> string option \<Rightarrow> node \<Rightarrow> (response \<times> node) result" where
  "api_putTransaction C cfg env ch body ident s =
     bindr (body_commands body) (\<lambda>cs.
       case cs of
         None \<Rightarrow> Inr (ended 403, s)
       | Some commands \<Rightarrow>
           bindr (stackTx C cfg env ch commands (case ident of None \<Rightarrow> [] | Some i \<Rightarrow> i) s)
             (\<lambda>(r, s). Inr (ident_response r, s)))"

section \<open>Routes\<close>

text \<open>The requests the routes distinguish; an optional segment is an option, a header a text or missing.\<close>

datatype request =
    GetJoin string string string
  | GetChallenge string
  | GetSync string
  | GetAbout
  | GetTestnetToken
  | GetNetworkOnline
  | GetNetwork "string option"
  | GetStateSearch "string option"
  | GetState string
  | GetStackStake
  | GetStack
  | GetBlockGenesis
  | GetBlockLatest
  | GetBlock string
  | GetBlocksSearch "string option"
  | GetBlocksPage string "string option"
  | GetBlocks "string option" "string option"
  | GetTransaction string string
  | PutTransaction "string option" "string option" json
  | PutLeave "string option"
  | GetDebugPerformance string

text \<open>The segments of a path, in the order of the routes. Express also ignores case; that is left out.\<close>

definition opt1 :: "string list \<Rightarrow> string option" where
  "opt1 xs = (case xs of [] \<Rightarrow> None | x # _ \<Rightarrow> Some x)"

definition route_get :: "string list \<Rightarrow> request option" where
  "route_get path =
     (case path of
        [] \<Rightarrow> None
      | p # r \<Rightarrow>
          if p = ''join'' \<and> length r = 3 then Some (GetJoin (r ! 0) (r ! 1) (r ! 2))
          else if p = ''challenge'' \<and> length r = 1 then Some (GetChallenge (r ! 0))
          else if p = ''sync'' \<and> length r = 1 then Some (GetSync (r ! 0))
          else if path = [''about''] then Some GetAbout
          else if path = [''testnet'', ''token''] then Some GetTestnetToken
          else if path = [''network'', ''online''] then Some GetNetworkOnline
          else if p = ''network'' \<and> length r \<le> 1 then Some (GetNetwork (opt1 r))
          else if p = ''state'' \<and> opt1 r = Some ''search'' \<and> length r \<le> 2 then Some (GetStateSearch (opt1 (tl r)))
          else if p = ''state'' \<and> length r = 1 then Some (GetState (r ! 0))
          else if path = [''stack'', ''stake''] then Some GetStackStake
          else if path = [''stack''] then Some GetStack
          else if path = [''block'', ''genesis''] then Some GetBlockGenesis
          else if path = [''block'', ''latest''] then Some GetBlockLatest
          else if p = ''block'' \<and> length r = 1 then Some (GetBlock (r ! 0))
          else if p = ''blocks'' \<and> opt1 r = Some ''search'' \<and> length r \<le> 2 then Some (GetBlocksSearch (opt1 (tl r)))
          else if p = ''blocks'' \<and> opt1 r = Some ''page'' \<and> (length r = 2 \<or> length r = 3)
            then Some (GetBlocksPage (r ! 1) (opt1 (drop 2 r)))
          else if p = ''blocks'' \<and> length r \<le> 2 then Some (GetBlocks (opt1 r) (opt1 (tl r)))
          else if p = ''transaction'' \<and> length r = 2 then Some (GetTransaction (r ! 0) (r ! 1))
          else if p = ''debug'' \<and> opt1 r = Some ''performance'' \<and> length r = 2 then Some (GetDebugPerformance (r ! 1))
          else None)"

definition route_put :: "string list \<Rightarrow> string option \<Rightarrow> json \<Rightarrow> request option" where
  "route_put path tok body =
     (case path of
        [] \<Rightarrow> None
      | p # r \<Rightarrow>
          if p = ''transaction'' \<and> length r \<le> 1 then Some (PutTransaction tok (opt1 r) body)
          else if path = [''leave''] then Some (PutLeave tok)
          else None)"

text \<open>The body of each route: the handler, or for two of them the check of the token header.\<close>

definition api ::
    "crypto \<Rightarrow> 'db level \<Rightarrow> config \<Rightarrow> api_env \<Rightarrow> env \<Rightarrow> request \<Rightarrow> 'db chain \<times> node \<times> boot \<Rightarrow> (response \<times> node \<times> boot) result" where
  "api C L cfg A env req st =
     (case st of (ch, s, bt) \<Rightarrow>
        let keep = (\<lambda>r. bindr r (\<lambda>x. Inr (x, s, bt)))
        in case req of
             GetJoin http udp publicKey \<Rightarrow>
               (case api_join A ch http udp publicKey bt of (x, bt) \<Rightarrow> Inr (x, s, bt))
           | GetChallenge token \<Rightarrow> (case api_challenge C s token bt of (x, bt) \<Rightarrow> Inr (x, s, bt))
           | GetSync height \<Rightarrow> keep (api_sync L cfg ch height)
           | GetAbout \<Rightarrow> keep (Inr (api_about C A ch s))
           | GetTestnetToken \<Rightarrow>
               keep (Inr (if is_testnet cfg
                 then sent (JObj [(''header'', JStr NAME_HEADER_TOKEN_API), (''token'', JStr (ap_token A))])
                 else ended 403))
           | GetNetworkOnline \<Rightarrow> keep (api_networkOnline s)
           | GetNetwork stake \<Rightarrow> keep (api_network s stake)
           | GetStateSearch q \<Rightarrow> keep (Inr (api_stateSearch L cfg ch q))
           | GetState key \<Rightarrow> keep (Inr (api_state L ch key))
           | GetStackStake \<Rightarrow> keep (Inr (api_stackModifyStake s))
           | GetStack \<Rightarrow> keep (Inr (api_stack s))
           | GetBlockGenesis \<Rightarrow> keep (api_blockGenesis L cfg ch)
           | GetBlockLatest \<Rightarrow> keep (Inr (api_blockLatest ch))
           | GetBlock height \<Rightarrow> keep (api_block L cfg ch height)
           | GetBlocksSearch q \<Rightarrow> keep (api_blocksSearch L cfg ch q)
           | GetBlocksPage page sz \<Rightarrow> keep (api_blocksPage L cfg ch page sz)
           | GetBlocks gte lte \<Rightarrow> keep (api_blocks L cfg ch gte lte)
           | GetTransaction origin ident \<Rightarrow> keep (api_transaction L ch origin ident)
           | PutTransaction tok ident body \<Rightarrow>
               if tok = Some (ap_token A)
               then bindr (api_putTransaction C cfg env ch body ident s) (\<lambda>(x, s). Inr (x, s, bt))
               else keep (Inr (ended 401))
           | PutLeave tok \<Rightarrow>
               if tok = Some (ap_token A)
               then bindr (api_leave C cfg env ch s) (\<lambda>(x, s). Inr (x, s, bt))
               else keep (Inr (ended 401))
           | GetDebugPerformance height \<Rightarrow> keep (Inr (sent (getPerformance L ch (Number_or (Some height) 0)))))"

end
