(* ===== verification/Server_App.thy ===== *)
theory Server_App
  imports Api Node_Frame
begin

text \<open>
  The rest of \<open>src/net/server.ts\<close>: the Express application around the routes (its error handler, the
  answer to unknown paths), the feed of blocks to web sockets, and \<open>shutdown\<close> with that of the
  factory and the network; and the signals of \<open>src/main.ts\<close>.
\<close>

section \<open>The Express application\<close>

datatype verb = GET | PUT | OtherVerb string

text \<open>
  A \<open>HEAD\<close> or \<open>OPTIONS\<close> request, which Express answers by itself on the paths of the routes, is left out.
  \<open>hr_path\<close>: the path as text; \<open>hr_segments\<close>: its decoded segments; \<open>hr_body\<close>: what \<open>express.json()\<close> makes of the
  body, or the status and message with which it refuses it.
\<close>

record http_request =
  hr_verb :: verb
  hr_path :: string
  hr_segments :: "string list"
  hr_token :: "string option"
  hr_body :: "(nat \<times> string) + json"

text \<open>Texts that the language and the packages choose: the message and the JSON text of an exception.\<close>

record error_texts =
  et_development :: bool
  et_message :: "js_exn \<Rightarrow> string"
  et_json :: "string \<Rightarrow> json"

definition Server_error :: "error_texts \<Rightarrow> string \<Rightarrow> nat option \<Rightarrow> string \<Rightarrow> response" where
  "Server_error X path status message =
     (let st = (case status of None \<Rightarrow> 500 | Some n \<Rightarrow> if n = 0 then 500 else n)
      in Response st (Some (JObj [(''path'', JStr path), (''status'', JNum (int st)), (''message'', JStr message),
           (''error'', if et_development X then et_json X message else JObj [])])))"

definition route :: "http_request \<Rightarrow> json \<Rightarrow> request option" where
  "route rq body =
     (case hr_verb rq of
        GET \<Rightarrow> route_get (hr_segments rq)
      | PUT \<Rightarrow> route_put (hr_segments rq) (hr_token rq) body
      | OtherVerb v \<Rightarrow> None)"

text \<open>The handlers declared \<open>async\<close>: an exception in one is a rejected promise, not an error of Express.\<close>

fun is_async :: "request \<Rightarrow> bool" where
  "is_async (GetJoin h u k) = False"
| "is_async (GetChallenge t) = False"
| "is_async GetAbout = False"
| "is_async GetNetworkOnline = False"
| "is_async (GetNetwork st) = False"
| "is_async GetStackStake = False"
| "is_async GetStack = False"
| "is_async GetBlockLatest = False"
| "is_async (PutLeave t) = False"
| "is_async req = True"

text \<open>\<open>Ended\<close>: the process ends with this code; \<open>NoAnswer\<close>: the handler loops.\<close>

datatype outcome = Answer response node boot | Ended nat | NoAnswer

datatype signal = SIGINT | SIGTERM | UncaughtException | UnhandledRejection

definition exit_code :: "signal \<Rightarrow> nat" where
  "exit_code sig = (case sig of SIGINT \<Rightarrow> 0 | SIGTERM \<Rightarrow> 0 | UncaughtException \<Rightarrow> 1 | UnhandledRejection \<Rightarrow> 1)"

definition serve ::
    "crypto \<Rightarrow> 'db level \<Rightarrow> config \<Rightarrow> api_env \<Rightarrow> env \<Rightarrow> error_texts \<Rightarrow> http_request \<Rightarrow> 'db chain \<times> node \<times> boot \<Rightarrow> outcome" where
  "serve C L cfg A env X rq st =
     (case st of (ch, s, bt) \<Rightarrow>
        case hr_body rq of
          Inl (status, message) \<Rightarrow> Answer (Server_error X (hr_path rq) (Some status) message) s bt
        | Inr body \<Rightarrow>
            if hr_verb rq = GET \<and> hr_segments rq = [''favicon.ico''] then Answer (ended 204) s bt
            else case route rq body of
                   None \<Rightarrow> Answer (Server_error X (hr_path rq) (Some 404) ''Not Found'') s bt
                 | Some req \<Rightarrow>
                     (case api C L cfg A env req (ch, s, bt) of
                        Inr (x, s, bt) \<Rightarrow> Answer x s bt
                      | Inl e \<Rightarrow>
                          if e = NoReturn then NoAnswer
                          else if is_async req then Ended (exit_code UnhandledRejection)
                          else Answer (Server_error X (hr_path rq) None (et_message X e)) s bt))"

section \<open>The feed of blocks\<close>

text \<open>The clients of the web socket server, each with whether it is open. What is sent, by the number of the client.\<close>

definition feedBlock :: "bool list \<Rightarrow> block \<Rightarrow> (nat \<times> string) list" where
  "feedBlock clients b = map (\<lambda>i. (i, block_text b)) (filter (\<lambda>i. clients ! i) [0..<length clients])"

section \<open>Shutdown\<close>

definition BlockFactory_shutdown :: "node \<Rightarrow> node" where
  "BlockFactory_shutdown s = upd_fac removeTimeout s"

text \<open>Both SAM sessions are closed and replaced by empty objects.\<close>

definition Network_shutdown :: "net \<Rightarrow> net" where
  "Network_shutdown n = n\<lparr>isClosing := True, samReady := False\<rparr>"

text \<open>\<open>munlock\<close>: what \<open>sodium_munlock\<close> leaves in the buffer of the secret key.\<close>

definition Wallet_close :: "(string \<Rightarrow> string) \<Rightarrow> wallet \<Rightarrow> wallet" where
  "Wallet_close munlock w = w\<lparr>wallet_secret := munlock (wallet_secret w)\<rparr>"

text \<open>
  \<open>shutdown\<close> of the server, up to where it waits for open HTTP connections. What the two stores do
  once they are closed is a matter of the store \<open>L\<close> of the steps that follow.
\<close>

definition Server_shutdown :: "(string \<Rightarrow> string) \<Rightarrow> 'db state \<Rightarrow> 'db state" where
  "Server_shutdown munlock st =
     (case st of (ch, cr, s) \<Rightarrow>
        let s = BlockFactory_shutdown s;
            s = s\<lparr>nd_net := map_option Network_shutdown (nd_net s)\<rparr>
        in (ch, cr, s\<lparr>nd_wallet := Wallet_close munlock (nd_wallet s)\<rparr>))"

definition Main_on :: "signal \<Rightarrow> (string \<Rightarrow> string) \<Rightarrow> 'db state \<Rightarrow> 'db state \<times> nat" where
  "Main_on sig munlock st = (Server_shutdown munlock st, exit_code sig)"

end
