(* ===== verification/Api_Theorems.thy ===== *)
theory Api_Theorems
  imports Api Bootstrap_Theorems
begin

text \<open>
  Properties of \<open>src/net/api.ts\<close>: which requests change the node, that reading never fails on a
  reachable chain, and which blocks a synchronising node is served.
\<close>

section \<open>Lemmas\<close>

lemma below_double:
  assumes "(n :: rat) < of_nat (10 ^ 16)"
  shows "n < 2 ^ 1024 - 2 ^ 970"
proof -
  have "(of_nat (10 ^ 16) :: rat) < 2 ^ 1024 - 2 ^ 970" by simp
  with assms show ?thesis by (rule less_trans)
qed

fun is_put :: "request \<Rightarrow> bool" where
  "is_put (PutTransaction t i b) = True"
| "is_put (PutLeave t) = True"
| "is_put r = False"

fun changes_boot :: "request \<Rightarrow> bool" where
  "changes_boot (GetJoin h u k) = True"
| "changes_boot (GetChallenge t) = True"
| "changes_boot r = False"

lemma searchBlocks_Inr:
  assumes "stores L bs ch"
  shows "\<exists>rs. searchBlocks L cfg ch q = Inr rs"
proof -
  have "set (map snd (lv_reverse_limit L k (dbBlockchain ch))) \<subseteq> block_text ` set bs" for k
    using assms set_take_subset [of k] by (fastforce simp: stores_def lv_reverse_limit_def)
  then have "\<exists>rs. parse_blocks (filter P (map snd (lv_reverse_limit L k (dbBlockchain ch)))) = Inr rs" for P k
  proof -
    have "\<exists>rs. parse_blocks vs = Inr rs" if "set vs \<subseteq> block_text ` set bs" for vs
      using that by (induction vs) auto
    then show ?thesis using \<open>\<And>k. set (map snd (lv_reverse_limit L k (dbBlockchain ch))) \<subseteq> block_text ` set bs\<close> [of k]
      by (metis (no_types, lifting) filter_is_subset subset_trans)
  qed
  then show ?thesis by (auto simp: searchBlocks_def)
qed

lemma getTransaction_no_loop:
  assumes "stores L bs ch"
  shows "getTransaction L ch r i \<noteq> Inl NoReturn"
proof -
  have v: "lv_values L (dbBlockchain ch) = map block_text bs" using assms by (rule stores_values)
  show ?thesis by (auto simp: getTransaction_def v find_in_store_texts split: option.split)
qed

lemma handled:
  assumes "\<And>a b. \<exists>rs. f a b = Inr rs"
  shows "\<exists>x. (if P then bindr (f a b) (\<lambda>rs. Inr (g rs)) else Inr y) = (Inr x :: response result)"
  using assms [of a b] by auto

lemma refused:
  assumes "\<And>a b. \<exists>rs. f a b = Inr rs"
  shows "\<exists>x. (if P then Inr y else bindr (f a b) (\<lambda>rs. Inr (g rs))) = (Inr x :: response result)"
  using assms [of a b] by auto

lemma answered:
  assumes "\<exists>rs. r = Inr rs"
  shows "\<exists>x. or_404 (bindr r (\<lambda>rs. Inr (g rs))) = Inr x"
  using assms by (auto simp: or_404_def)

lemma api_transaction_Inr:
  assumes "\<And>r i. getTransaction L ch r i \<noteq> Inl NoReturn"
  shows "\<exists>y. api_transaction L ch a b = Inr y"
proof (cases "getTransaction L ch a b")
  case (Inl e)
  then have "e \<noteq> NoReturn" using assms [of a b] by auto
  with Inl show ?thesis by (simp add: api_transaction_def or_404_def)
next
  case (Inr p)
  then show ?thesis by (cases p) (simp add: api_transaction_def or_404_def)
qed

text \<open>On every reachable chain, once the network object exists, every \<open>GET\<close> request is answered: no handler
  throws or loops, whatever the path holds in place of a number; the node is left as it is, and only \<open>join\<close> and
  \<open>challenge\<close> touch the state of the bootstrap.\<close>

lemma reading_never_fails:
  assumes run: "chain_run C L cfg propose pk bs ch cr s0" and L: "level_ok L"
    and m: "1 \<le> blockchain_max_blocks_in_memory cfg" and len: "length bs < 10 ^ 16" and q: "1 \<le> api_max_query_size cfg"
    and n: "nd_net s = Some n" and g: "\<not> is_put req"
  shows "\<exists>x bt'. api C L cfg A env req (ch, s, bt) = Inr (x, s, bt') \<and> (if changes_boot req then True else bt' = bt)"
proof -
  have st: "stores L bs ch" using chain_run_ok [OF run L m] by simp
  have r: "\<exists>rs. getRange L cfg ch gte lte = Inr rs" for gte lte
    using getRange_run [OF run L m len q, of gte lte] by blast
  have p: "\<exists>rs. getPage L cfg ch a b = Inr rs" for a b using r by (simp add: getPage_def Let_def)
  have rn: "\<exists>rs. getRange_num L cfg ch a b = Inr rs" "\<exists>rs. getPage_num L cfg ch a b = Inr rs" for a b
    using r p by (simp_all add: getRange_num_def getPage_num_def)
  have k: "\<exists>x bt'. bindr r (\<lambda>x. Inr (x, s, bt)) = Inr (x, s, bt') \<and> (if changes_boot req then True else bt' = bt)"
    if "\<exists>x. r = Inr x" for r :: "response result"
    using that by auto
  show ?thesis
  proof (cases req)
    case (GetSync h)
    have "\<exists>x. api_sync L cfg ch h = Inr x" using rn(1) unfolding api_sync_def Let_def by (rule handled)
    then show ?thesis using k GetSync by (simp add: api_def)
  next
    case GetBlockGenesis
    have "\<exists>x. api_blockGenesis L cfg ch = Inr x" using r [of 1 "- 1"] by (auto simp: api_blockGenesis_def)
    then show ?thesis using k GetBlockGenesis by (simp add: api_def)
  next
    case (GetBlock h)
    have "\<exists>x. api_block L cfg ch h = Inr x" using rn(1) unfolding api_block_def Let_def by (rule refused)
    then show ?thesis using k GetBlock by (simp add: api_def)
  next
    case (GetBlocksSearch x)
    have "\<exists>y. api_blocksSearch L cfg ch x = Inr y" unfolding api_blocksSearch_def
      by (rule answered) (rule searchBlocks_Inr [OF st])
    then show ?thesis using k GetBlocksSearch by (simp add: api_def)
  next
    case (GetBlocksPage a b)
    have "\<exists>y. api_blocksPage L cfg ch a b = Inr y" unfolding api_blocksPage_def by (rule answered) (rule rn(2))
    then show ?thesis using k GetBlocksPage by (simp add: api_def)
  next
    case (GetBlocks a b)
    have "\<exists>y. or_404 (bindr (getRange_num L cfg ch c d) (\<lambda>bs. Inr (sent (json_of_blocks bs)))) = Inr y" for c d
      by (rule answered) (rule rn(1))
    then have "\<exists>y. api_blocks L cfg ch a b = Inr y" unfolding api_blocks_def Let_def by simp
    then show ?thesis using k GetBlocks by (simp add: api_def)
  next
    case (GetTransaction a b)
    have "\<exists>y. api_transaction L ch a b = Inr y" using getTransaction_no_loop [OF st] by (rule api_transaction_Inr)
    then show ?thesis using k GetTransaction by (simp add: api_def)
  next
    case (GetJoin a b c)
    then show ?thesis by (simp add: api_def split: prod.split)
  next
    case (GetChallenge a)
    then show ?thesis by (simp add: api_def split: prod.split)
  next
    case GetNetworkOnline
    then show ?thesis using n by (simp add: api_def api_networkOnline_def net_of_def)
  next
    case (GetNetwork a)
    then show ?thesis using n by (simp add: api_def api_network_def net_of_def Let_def)
  qed (use g in \<open>simp_all add: api_def\<close>)
qed

definition demo_api :: api_env where
  "demo_api = \<lparr>ap_version = ''1.0'', ap_license = ''AGPL'', ap_token = ''secret'', ap_toB32 = id, ap_nanoid = ''nanoid''\<rparr>"



text \<open>Blocks with the headers of a part of the chain are above where the part begins.\<close>

lemma headers_above:
  assumes ok: "chain_ok m bs ch" and rs: "map header rs = map header (take k (drop i bs))" and b: "b \<in> set rs"
  shows "int i < blk_height b"
proof -
  have "header b \<in> set (map header (take k (drop i bs)))" using rs b by (metis imageI set_map)
  then obtain a where a: "a \<in> set (take k (drop i bs))" "header b = header a" by auto
  then have "a \<in> set (drop i bs)" using in_set_takeD by metis
  then obtain j where "j < length bs - i" "a = drop i bs ! j" by (auto simp: in_set_conv_nth)
  then have "blk_height a = int (i + j) + 1" using chain_ok_nth [OF ok, of "i + j"] by simp
  moreover have "blk_height b = blk_height a" using arg_cong [OF a(2), of blk_height] by (simp add: header_def)
  ultimately show ?thesis by simp
qed



end
