(* ===== verification/Startup.thy ===== *)
theory Startup
  imports Api_Theorems
begin

text \<open>
  How a node comes up: \<open>Blockchain.make\<close>, \<open>Server.start\<close> of \<open>src/net/server.ts\<close>, and from
  \<open>src/net/network.ts\<close> the constructor, \<open>init\<close> with its retries and \<open>bootstrapNetwork\<close>.
  While the chain is loaded the server has no network yet (\<open>nd_net = None\<close>). The SAM sessions
  and the HTTP servers are outside: that both sessions exist is an event.
\<close>

section \<open>Loading the chain\<close>

definition Blockchain_make ::
    "'db level \<Rightarrow> config \<Rightarrow> ('db, 's) propose \<Rightarrow> int \<Rightarrow> 'db chain \<times> credits \<times> 's \<Rightarrow> ('db chain \<times> credits \<times> 's) result" where
  "Blockchain_make L cfg propose now st =
     (if bootstrap_url cfg \<noteq> [] then (case st of (ch, cr, s) \<Rightarrow> Inr (chain_clear L ch, cr, s))
      else chain_init L cfg propose now st)"

text \<open>\<open>file\<close>: the text of the genesis file, if it exists; \<open>dbb\<close>, \<open>dbs\<close>: what the two stores hold.\<close>

definition start_chain ::
    "crypto \<Rightarrow> 'db level \<Rightarrow> config \<Rightarrow> env \<Rightarrow> string option \<Rightarrow> 'db \<Rightarrow> 'db \<Rightarrow> node \<Rightarrow> 'db state result" where
  "start_chain C L cfg env file dbb dbs s =
     (let propose = proposeModifyStake C cfg env
      in bindr (Blockchain_make L cfg propose (env_now env) (chain_new (own_key C s) dbb dbs, jm_empty, s)) (\<lambda>(ch, cr, s).
           if ch_height ch = 0
           then bindr (Blockchain_genesis C file) (\<lambda>g. chain_reset L cfg propose (env_now env) g (ch, cr, s))
           else Inr (ch, cr, s)))"

section \<open>The network\<close>

text \<open>\<open>su_retry\<close>: the number of calls of \<open>init\<close>; \<open>su_waiting\<close>: its timer runs, so \<open>ready\<close> is still to come.\<close>

record startup =
  su_retry :: nat
  su_waiting :: bool
  su_polling :: bool

definition Network_init :: "'db chain \<Rightarrow> net \<Rightarrow> startup \<Rightarrow> startup result" where
  "Network_init ch n u =
     (let retry = su_retry u + 1
      in if retry > 60 then Inl (Thrown ''P2P failed'')
         else Inr (u\<lparr>su_retry := retry, su_waiting := \<not> hasP2PNetwork ch n\<rparr>))"

text \<open>The constructor: \<open>init\<close> for the first time, and \<open>p2pNetwork\<close>.\<close>

definition Network_make ::
    "config \<Rightarrow> string \<Rightarrow> int \<Rightarrow> (nat \<Rightarrow> rat) \<Rightarrow> 'db chain \<Rightarrow> (net \<times> startup) result" where
  "Network_make cfg own now rnd ch =
     (let u = \<lparr>su_retry = 0, su_waiting = True, su_polling = bootstrap_url cfg \<noteq> []\<rparr>
      in bindr (Network_init ch net_new u) (\<lambda>u. Inr (snd (p2pNetwork own now rnd ch net_new), u)))"

text \<open>A reply that is no list of peers counts as the empty list.\<close>

definition peer_of_json :: "json \<Rightarrow> peer option" where
  "peer_of_json j =
     (case (str_field ''publicKey'' j, str_field ''http'' j, str_field ''udp'' j, int_field ''stake'' j) of
        (Some k, Some h, Some u, Some n) \<Rightarrow> Some \<lparr>p_publicKey = k, p_http = h, p_udp = u, p_stake = n\<rparr>
      | _ \<Rightarrow> None)"

definition peers_of_json :: "json \<Rightarrow> peer list" where
  "peers_of_json j = (case j of JArr xs \<Rightarrow> (case those (map peer_of_json xs) of None \<Rightarrow> [] | Some ps \<Rightarrow> ps) | _ \<Rightarrow> [])"

definition bootstrapNetwork :: "config \<Rightarrow> (string \<Rightarrow> string option) \<Rightarrow> net \<times> startup \<Rightarrow> net \<times> startup" where
  "bootstrapNetwork cfg fetch nu =
     (case nu of (n, u) \<Rightarrow>
        let a = (case fetch (bootstrap_url cfg @ ''/network'') of
                   None \<Rightarrow> []
                 | Some t \<Rightarrow> (case json_parse t of Inl e \<Rightarrow> [] | Inr j \<Rightarrow> peers_of_json j))
        in (n\<lparr>arrayNetwork := a\<rparr>, u\<lparr>su_polling := a = []\<rparr>))"

definition sam_ready :: "net \<Rightarrow> net" where
  "sam_ready n = n\<lparr>samReady := True\<rparr>"

section \<open>The server\<close>

definition node_new :: "wallet \<Rightarrow> node" where
  "node_new w = \<lparr>nd_wallet = w, nd_net = None, nd_fac = factory_new, nd_stackModifyStake = [], nd_out = [], nd_feed = []\<rparr>"

text \<open>\<open>start\<close> up to the promise, and what the promise runs when the network is ready;
  \<open>fetchJoin\<close> answers the request of \<open>joinNetwork\<close>.\<close>

definition Server_start ::
    "crypto \<Rightarrow> 'db level \<Rightarrow> config \<Rightarrow> env \<Rightarrow> (nat \<Rightarrow> rat) \<Rightarrow> string option \<Rightarrow> 'db \<Rightarrow> 'db \<Rightarrow> wallet \<Rightarrow> ('db state \<times> startup) result" where
  "Server_start C L cfg env rnd file dbb dbs w =
     bindr (start_chain C L cfg env file dbb dbs (node_new w)) (\<lambda>(ch, cr, s).
       bindr (Network_make cfg (own_key C s) (env_now env) rnd ch) (\<lambda>(n, u).
         Inr ((ch, cr, s\<lparr>nd_net := Some n\<rparr>), u)))"

definition Server_ready ::
    "crypto \<Rightarrow> 'db level \<Rightarrow> config \<Rightarrow> env \<Rightarrow> (nat \<Rightarrow> string \<Rightarrow> string option) \<Rightarrow> (string \<Rightarrow> string option)
      \<Rightarrow> (string \<Rightarrow> string) \<Rightarrow> string \<Rightarrow> string \<Rightarrow> 'db state \<Rightarrow> ('db state \<times> boot) result" where
  "Server_ready C L cfg env fetch fetchJoin toB32 http udp st =
     (if bootstrap_url cfg = [] then Inr (st, boot_new)
      else
        bindr (syncWithNetwork C L cfg env fetch toB32 st) (\<lambda>(ch, cr, s).
          if hasNetworkHttp ch http then Inr ((ch, cr, s), boot_new)
          else
            bindr (net_of s) (\<lambda>n.
              bindr (Bootstrap_joinNetwork fetchJoin toB32 ch n http udp (own_key C s) boot_new)
                (\<lambda>bt. Inr ((ch, cr, s), bt)))))"

text \<open>The events until the network is ready; each takes the network and the chain as they are.\<close>

inductive start_run :: "crypto \<Rightarrow> config \<Rightarrow> 'db state \<times> startup \<Rightarrow> 'db state \<times> startup \<Rightarrow> bool" for C cfg st0 where
  begun: "start_run C cfg st0 st0"
| sam: "start_run C cfg st0 ((ch, cr, s), u) \<Longrightarrow> nd_net s = Some n \<Longrightarrow>
    start_run C cfg st0 ((ch, cr, s\<lparr>nd_net := Some (sam_ready n)\<rparr>), u)"
| p2p: "start_run C cfg st0 (st, u) \<Longrightarrow> fire_p2p C env rnd st = Inr st' \<Longrightarrow> start_run C cfg st0 (st', u)"
| poll: "start_run C cfg st0 ((ch, cr, s), u) \<Longrightarrow> nd_net s = Some n \<Longrightarrow> su_polling u \<Longrightarrow>
    bootstrapNetwork cfg fetch (n, u) = (n', u') \<Longrightarrow> start_run C cfg st0 ((ch, cr, s\<lparr>nd_net := Some n'\<rparr>), u')"
| tick: "start_run C cfg st0 ((ch, cr, s), u) \<Longrightarrow> nd_net s = Some n \<Longrightarrow> su_waiting u \<Longrightarrow>
    Network_init ch n u = Inr u' \<Longrightarrow> start_run C cfg st0 ((ch, cr, s), u')"

end
