(* ===== verification/Startup_Theorems.thy ===== *)
theory Startup_Theorems
  imports Startup Chain_Queries
begin

text \<open>
  Properties of a start: from which stores a node comes up and with which chain, how long it
  waits for the network, and a start that never asks the network it was told to join.
\<close>

section \<open>Replaying the store without a network\<close>

text \<open>The votes of an accepted block are by known peers.\<close>

lemma guard_voter:
  assumes "add_guard C ch b" and "stake_inv 0 ch"
  shows "\<exists>v \<in> set (blk_votes b). hasPeer ch (vote_origin v)"
proof (rule ccontr)
  assume n: "\<not> ?thesis"
  have "hasQuorumWeighted ch (map vote_origin (blk_votes b))"
    using assms(1) by (simp add: add_guard_def validateBlock_iff votes_ok_def)
  moreover have "getStake ch (vote_origin v) = 0" if "v \<in> set (blk_votes b)" for v
    using n that by (auto simp: getStake_def hasPeer_def getPeer_def split: option.split)
  then have "sum_list (map (getStake ch) (map vote_origin (blk_votes b))) = 0"
    by (simp add: o_def cong: map_cong)
  ultimately show False using wq.quorum_weight [OF assms(2), of "map vote_origin (blk_votes b)"]
    by (simp add: hasQuorumWeighted_quorum)
qed

lemma count_vote_keeps: "m \<noteq> [] \<Longrightarrow> foldl (\<lambda>m v. count_vote ch v m) m vs \<noteq> []"
proof (induction vs arbitrary: m)
  case (Cons v vs)
  have "count_vote ch v m \<noteq> []" using Cons.prems by (cases m) (auto simp: count_vote_def jm_set_def)
  then show ?case using Cons.IH by simp
qed simp

lemma count_vote_known:
  "\<exists>v \<in> set vs. hasPeer ch (vote_origin v) \<Longrightarrow> foldl (\<lambda>m v. count_vote ch v m) m vs \<noteq> []"
proof (induction vs arbitrary: m)
  case (Cons v vs)
  show ?case
  proof (cases "hasPeer ch (vote_origin v)")
    case True
    then have "count_vote ch v m \<noteq> []" by (cases m) (auto simp: count_vote_def jm_set_def)
    then show ?thesis by (simp add: count_vote_keeps)
  next
    case False
    then show ?thesis using Cons by simp
  qed
qed simp

lemma count_vote_no_peers: "mapPeer ch = jm_empty \<Longrightarrow> foldl (\<lambda>m v. count_vote ch v m) m vs = m"
  by (induction vs arbitrary: m) (simp_all add: count_vote_def hasPeer_def)

text \<open>A node that has no network yet fails on every block that starts a stake vote.\<close>

lemma updateCache_no_network:
  assumes "nd_net s = None" and "nd_stackModifyStake s = []" and "\<not> quiet b"
    and "\<exists>v \<in> set (blk_votes b). hasPeer ch (vote_origin v)"
  shows "updateCache cfg (proposeModifyStake C cfg env) b (ch, cr, s) = Inl TypeError"
proof -
  let ?ch = "cache_block cfg b ch"
  have h: "hasPeer ?ch = hasPeer ch" using cache_block_fields(4) [of cfg b ch] by (simp add: ledger_view_eq hasPeer_def [abs_def])
  then have "foldl (\<lambda>m v. count_vote ?ch v m) (mapVoteStake ?ch) (blk_votes b) \<noteq> []"
    using assms(4) by (intro count_vote_known) simp
  then show ?thesis
    using assms(1-3) by (auto simp: updateCache_def quiet_def not_less Let_def jm_size_def proposeModifyStake_def net_of_def
        split: list.split)
qed

lemma init_loop_append:
  "init_loop L cfg propose now (vs @ ws) st
    = bindr (init_loop L cfg propose now vs st) (init_loop L cfg propose now ws)"
  by (induction vs arbitrary: st) (simp_all add: bindr_assoc split_def)

text \<open>The genesis block finds no peers whose votes would count.\<close>

lemma init_loop_genesis:
  "\<exists>ch' cr'. init_loop L cfg propose now [block_text g] (chain_new pk dbb dbs, cr, s) = Inr (ch', cr', s)"
proof -
  have "mapPeer (cache_block cfg g (chain_new pk dbb dbs)) = jm_empty" "mapVoteStake (cache_block cfg g (chain_new pk dbb dbs)) = jm_empty"
    by (simp_all add: cache_block_def chain_new_def Let_def)
  then have u: "updateCache cfg propose g (chain_new pk dbb dbs, cr, s)
      = Inr ((cache_block cfg g (chain_new pk dbb dbs))\<lparr>mapVoteStake := jm_empty\<rparr>, cr, s)"
    by (simp add: updateCache_def Let_def count_vote_no_peers) (simp add: jm_size_def jm_empty_def)
  then show ?thesis by (simp split: prod.split)
qed

text \<open>What the replay of a reachable chain's store comes to on a node without a network.\<close>

lemma replay_without_network:
  assumes "chain_run C L cfg propose pk bs ch cr s" and L: "level_ok L" and m: "1 \<le> blockchain_max_blocks_in_memory cfg"
    and s0: "nd_net s0 = None" "nd_stackModifyStake s0 = []"
  shows "if list_all quiet (tl bs)
    then \<exists>ch' cr'. init_loop L cfg (proposeModifyStake C cfg env) now (map block_text bs) (chain_new pk' dbb dbs, cr0, s0) = Inr (ch', cr', s0)
    else init_loop L cfg (proposeModifyStake C cfg env) now (map block_text bs) (chain_new pk' dbb dbs, cr0, s0) = Inl TypeError"
  using assms(1)
proof (induction rule: chain_run.induct)
  case (boot g now1 dbb1 dbs1 cr s ch' cr' s')
  show ?case using init_loop_genesis by simp
next
  case (grow bs ch cr s b now1 b' ch' cr' s')
  let ?i = "init_loop L cfg (proposeModifyStake C cfg env) now"
  have ne: "bs \<noteq> []" using grow.hyps(1) by (auto simp: chain_run_nonempty)
  show ?case
  proof (cases "list_all quiet (tl bs)")
    case False
    then show ?thesis using grow.IH ne by (simp add: init_loop_append del: init_loop.simps)
  next
    case True
    then obtain ch1 cr1 where i: "?i (map block_text bs) (chain_new pk' dbb dbs, cr0, s0) = Inr (ch1, cr1, s0)"
      using grow.IH by auto
    have ok: "chain_ok (blockchain_max_blocks_in_memory cfg) bs ch" using chain_run_ok [OF grow.hyps(1) L m] by simp
    have "chain_ok (blockchain_max_blocks_in_memory cfg) ([] @ bs) ch1 \<and> dbBlockchain ch1 = dbBlockchain (chain_new pk' dbb dbs)"
      using i by (rule init_loop_ok [where n = "ch_height ch"]) (use m ok in \<open>auto simp: chain_ok_new chain_ok_def [of _ bs ch]\<close>)
    then have "ledger_view ch1 = ledger_view ch" using ok by (simp add: chain_ok_def)
    then have p: "hasPeer ch1 = hasPeer ch" by (simp add: ledger_view_eq hasPeer_def [abs_def])
    have g: "add_guard C ch b" using grow.hyps(3) by (simp add: chain_add_def split: if_splits)
    have v: "\<exists>v \<in> set (blk_votes b). hasPeer ch1 (vote_origin v)"
      unfolding p using g by (rule guard_voter) (use ok in \<open>simp add: chain_ok_def\<close>)
    show ?thesis
    proof (cases "quiet b")
      case True
      then have "list_all quiet [b]" by simp
      from init_loop_quiet [OF this, of L cfg "proposeModifyStake C cfg env" now ch1 cr1 s0]
      show ?thesis using True \<open>list_all quiet (tl bs)\<close> ne i by (simp add: init_loop_append del: init_loop.simps)
    next
      case False
      have "?i [block_text b] (ch1, cr1, s0) = Inl TypeError"
        using updateCache_no_network [OF s0 False v] by simp
      then show ?thesis using False ne i by (simp add: init_loop_append del: init_loop.simps)
    qed
  qed
qed simp_all

lemma start_chain_init:
  assumes "bootstrap_url cfg = []" and "nd_net s = None" and "lv_values L dbb = map block_text bs" and "bs \<noteq> []"
  shows "Blockchain_make L cfg propose now (chain_new pk dbb dbs, cr, s)
    = init_loop L cfg propose now (map block_text bs) (chain_new pk dbb (lv_clear L dbs), cr, s)"
  using assms by (simp add: Blockchain_make_def chain_init_def Let_def) (simp add: chain_new_def)

lemma Network_make_Inr:
  "Network_make cfg own now rnd ch
    = Inr (net_new, \<lparr>su_retry = 1, su_waiting = True, su_polling = bootstrap_url cfg \<noteq> []\<rparr>)"
  by (simp add: Network_make_def Network_init_def hasP2PNetwork_def p2pNetwork_def net_new_def Let_def)

lemma chain_reset_new:
  assumes L: "level_ok L"
  shows "\<exists>ch' cr'. chain_reset L cfg propose now g (chain_new pk dbb dbs, cr, s) = Inr (ch', cr', s)"
proof -
  have "lv_values L (lv_put L (block_key 1) (block_text g) (lv_clear L dbb)) = [block_text g]"
    using level_put_last [OF L, of "lv_clear L dbb" "block_key 1" "block_text g"] level_okD(5) [OF L]
    by (simp add: lv_values_def)
  then show ?thesis
    using init_loop_genesis [of L cfg propose now g pk]
    by (simp add: chain_reset_def chain_init_def updateBlockData_def chain_clear_def chain_new_def Let_def
        del: init_loop.simps)
qed

lemma make_without_blocks:
  assumes "bootstrap_url cfg \<noteq> [] \<or> lv_entries L dbb = []"
  shows "\<exists>d1 d2. Blockchain_make L cfg propose now (chain_new pk dbb dbs, cr, s) = Inr (chain_new pk d1 d2, cr, s)"
proof (cases "bootstrap_url cfg = []")
  case True
  then have "lv_values L dbb = []" using assms by (simp add: lv_values_def)
  then have "Blockchain_make L cfg propose now (chain_new pk dbb dbs, cr, s) = Inr (chain_new pk dbb (lv_clear L dbs), cr, s)"
    using True by (simp add: Blockchain_make_def chain_init_def Let_def) (simp add: chain_new_def)
  then show ?thesis by blast
next
  case False
  then have "Blockchain_make L cfg propose now (chain_new pk dbb dbs, cr, s)
      = Inr (chain_new pk (lv_clear L dbb) (lv_clear L dbs), cr, s)"
    by (simp add: Blockchain_make_def chain_clear_def) (simp add: chain_new_def)
  then show ?thesis by blast
qed

lemma genesis_start:
  assumes L: "level_ok L" and m: "1 \<le> blockchain_max_blocks_in_memory cfg"
    and e: "bootstrap_url cfg \<noteq> [] \<or> lv_entries L dbb = []" and g: "blk_height g = 1"
    and g': "g' = g\<lparr>blk_hash := Util_hash C (block_hash_input (blk_version g) (blk_previousHash g) (blk_tx g) (blk_height g))\<rparr>"
  shows "\<exists>ch cr. Server_start C L cfg env rnd (Some (block_text g)) dbb dbs w
      = Inr ((ch, cr, (node_new w)\<lparr>nd_net := Some net_new\<rparr>),
          \<lparr>su_retry = 1, su_waiting = True, su_polling = bootstrap_url cfg \<noteq> []\<rparr>) \<and>
    chain_ok (blockchain_max_blocks_in_memory cfg) [g'] ch \<and> stores L [g'] ch"
proof -
  let ?s = "node_new w"
  let ?p = "proposeModifyStake C cfg env"
  obtain d1 d2 where mk: "Blockchain_make L cfg ?p (env_now env) (chain_new (own_key C ?s) dbb dbs, jm_empty, ?s)
      = Inr (chain_new (own_key C ?s) d1 d2, jm_empty, ?s)"
    using make_without_blocks [where propose = ?p and now = "env_now env" and pk = "own_key C ?s" and dbs = dbs and cr = jm_empty and s = ?s, OF e]
    by blast
  have h: "blk_height g' = 1" by (simp add: g' g)
  obtain ch cr where r: "chain_reset L cfg ?p (env_now env) g' (chain_new (own_key C ?s) d1 d2, jm_empty, ?s) = Inr (ch, cr, ?s)"
    using chain_reset_new [where propose = ?p and now = "env_now env" and pk = "own_key C ?s" and cr = jm_empty and s = ?s, OF L]
    by blast
  have "chain_ok (blockchain_max_blocks_in_memory cfg) [g'] ch \<and> stores L [g'] ch"
    using L refl m h r by (rule chain_reset_ok)
  moreover have "block_of_text (block_text g) = Inr g" by (rule block_of_text_of)
  ultimately show ?thesis
    using r by (simp add: Server_start_def start_chain_def mk Blockchain_genesis_def Network_make_Inr Let_def g')
      (simp add: chain_new_def)
qed

section \<open>Starting from a store\<close>

lemma restart_decides:
  assumes run: "chain_run C L cfg propose pk bs ch cr s" and L: "level_ok L" and m: "1 \<le> blockchain_max_blocks_in_memory cfg"
    and b: "bootstrap_url cfg = []"
  shows "case Server_start C L cfg env rnd file (dbBlockchain ch) (dbState ch) w of
      Inl e \<Rightarrow> e = TypeError \<and> \<not> list_all quiet (tl bs)
    | Inr ((ch', cr', s'), u) \<Rightarrow> list_all quiet (tl bs) \<and> ch_height ch' = ch_height ch \<and>
        ledger_view ch' = ledger_view ch \<and> dbBlockchain ch' = dbBlockchain ch"
proof -
  let ?s = "node_new w"
  let ?p = "proposeModifyStake C cfg env"
  have ok: "chain_ok (blockchain_max_blocks_in_memory cfg) bs ch" "stores L bs ch" using chain_run_ok [OF run L m] by simp_all
  have v: "lv_values L (dbBlockchain ch) = map block_text bs" using ok(2) by (rule stores_values)
  have ne: "bs \<noteq> []" using run by (auto simp: chain_run_nonempty)
  have n: "nd_net ?s = None" "nd_stackModifyStake ?s = []" by (simp_all add: node_new_def)
  let ?i = "init_loop L cfg ?p (env_now env) (map block_text bs)
      (chain_new (own_key C ?s) (dbBlockchain ch) (lv_clear L (dbState ch)), jm_empty, ?s)"
  have mk: "Blockchain_make L cfg ?p (env_now env) (chain_new (own_key C ?s) (dbBlockchain ch) (dbState ch), jm_empty, ?s) = ?i"
    using b n(1) v ne by (rule start_chain_init)
  note r = replay_without_network [OF run L m n, of env "env_now env" "own_key C ?s" "dbBlockchain ch" "lv_clear L (dbState ch)" jm_empty]
  show ?thesis
  proof (cases "list_all quiet (tl bs)")
    case False
    then have "?i = Inl TypeError" using r by simp
    then show ?thesis using False by (simp add: Server_start_def start_chain_def mk Let_def)
  next
    case True
    then obtain ch' cr' where i: "?i = Inr (ch', cr', ?s)" using r by auto
    have "chain_ok (blockchain_max_blocks_in_memory cfg) ([] @ bs) ch' \<and>
        dbBlockchain ch' = dbBlockchain (chain_new (own_key C ?s) (dbBlockchain ch) (lv_clear L (dbState ch)))"
      using i by (rule init_loop_ok [where n = "ch_height ch"]) (use m ok in \<open>auto simp: chain_ok_new chain_ok_def [of _ bs ch]\<close>)
    then have ok': "chain_ok (blockchain_max_blocks_in_memory cfg) bs ch'" "dbBlockchain ch' = dbBlockchain ch"
      by (simp_all add: chain_new_def)
    then have h: "ch_height ch' = ch_height ch" "ch_height ch' \<noteq> 0" "ledger_view ch' = ledger_view ch"
      using chain_ok_height [OF ok'(1)] chain_ok_height [OF ok(1)] ne ok(1) by (simp_all add: chain_ok_def)
    show ?thesis using True h ok'(2) by (simp add: Server_start_def start_chain_def mk i Network_make_Inr Let_def)
  qed
qed

text \<open>C10: A node without \<open>bootstrap\<close> starts from the store of a reachable chain exactly when no block above the genesis
  block would start a stake vote: then with the height, the ledger and the store as they were. Otherwise the start throws,
  because the vote is proposed to a network that does not exist yet.\<close>

theorem restart_succeeds_iff_quiet:
  assumes run: "chain_run C L cfg propose pk bs ch cr s" and L: "level_ok L" and m: "1 \<le> blockchain_max_blocks_in_memory cfg"
    and b: "bootstrap_url cfg = []"
  shows "case Server_start C L cfg env rnd file (dbBlockchain ch) (dbState ch) w of
      Inl e \<Rightarrow> e = TypeError \<and> \<not> list_all quiet (tl bs)
    | Inr ((ch', cr', s'), u) \<Rightarrow> list_all quiet (tl bs) \<and> ch_height ch' = ch_height ch \<and>
        ledger_view ch' = ledger_view ch \<and> dbBlockchain ch' = dbBlockchain ch"
  using assms by (rule restart_decides)

text \<open>A node with an empty store, or with \<open>bootstrap\<close> whatever it has stored, starts with the genesis block of its
  file, its hash computed anew, and with nothing else in the store.\<close>

theorem start_from_genesis:
  assumes L: "level_ok L" and m: "1 \<le> blockchain_max_blocks_in_memory cfg"
    and e: "bootstrap_url cfg \<noteq> [] \<or> lv_entries L dbb = []" and g: "blk_height g = 1"
  shows "\<exists>ch cr s u. Server_start C L cfg env rnd (Some (block_text g)) dbb dbs w = Inr ((ch, cr, s), u) \<and>
    (let g' = g\<lparr>blk_hash := Util_hash C (block_hash_input (blk_version g) (blk_previousHash g) (blk_tx g) (blk_height g))\<rparr>
     in chain_ok (blockchain_max_blocks_in_memory cfg) [g'] ch \<and> stores L [g'] ch) \<and> nd_net s = Some net_new"
  using genesis_start [OF assms refl, of C env rnd dbs w] by (auto simp: Let_def)

section \<open>Entering a network\<close>

lemma peers_of_json_of: "peers_of_json (JArr (map json_of_peer ps)) = ps"
proof -
  have "peer_of_json (json_of_peer p) = Some p" for p
    by (simp add: peer_of_json_def json_of_peer_def field_defs)
  then have "those (map peer_of_json (map json_of_peer ps)) = Some ps" by (intro those_map_Some)
  then show ?thesis by (simp add: peers_of_json_def del: map_map)
qed

lemma bootstrapNetwork_served:
  assumes "fetch (bootstrap_url cfg @ ''/network'') = Some (stringify (JArr (map json_of_peer ps)))"
  shows "bootstrapNetwork cfg fetch (n, u) = (n\<lparr>arrayNetwork := ps\<rparr>, u\<lparr>su_polling := ps = []\<rparr>)"
  unfolding bootstrapNetwork_def assms prod.case option.case json_parse_stringify sum.case peers_of_json_of Let_def by (rule refl)

text \<open>With nobody to send to, the synchronisation and the join of a starting node make no request.\<close>

lemma ready_without_broadcast:
  assumes "bootstrap_url cfg \<noteq> []" and "nd_net s = Some n" and "arrayBroadcast n = []" and "\<not> hasNetworkHttp ch http"
  shows "Server_ready C L cfg env fetch fetchJoin toB32 http udp (ch, cr, s)
    = Inr ((ch, cr, s), boot_new\<lparr>isJoiningNetwork := True\<rparr>)"
proof -
  have "\<not> is_prefix ''http://'' ''block/latest''" "\<not> is_prefix ''http://'' ''block/genesis''"
    "\<not> is_prefix ''http://'' (join_endpoint a b c)" for a b c
    by (simp_all add: join_endpoint_def)
  then show ?thesis using assms
    by (simp add: Server_ready_def syncWithNetwork_def net_of_def fetchFromApi_def Bootstrap_joinNetwork_def reply_block_def)
qed

text \<open>A node with \<open>bootstrap\<close> that learns its peers from \<open>/network\<close> before \<open>p2pNetwork\<close> has run with both sessions
  is ready with an empty list of peers to send to: it then asks nobody for blocks and joins nowhere, whatever the network
  would answer, and nothing repeats the attempt.\<close>

theorem bootstrap_asks_nobody:
  assumes L: "level_ok L" and m: "1 \<le> blockchain_max_blocks_in_memory cfg"
    and b: "bootstrap_url cfg \<noteq> []" and g: "blk_height g = 1"
  shows "\<exists>ch cr s u. Server_start C L cfg env rnd (Some (block_text g)) dbb dbs w = Inr ((ch, cr, s), u) \<and>
    (\<forall>ps. jm_size (mapPeer ch) < 2 * length ps \<longrightarrow>
      (\<exists>n u'. start_run C cfg ((ch, cr, s), u) ((ch, cr, s\<lparr>nd_net := Some n\<rparr>), u') \<and> \<not> su_waiting u' \<and> arrayNetwork n = ps \<and>
        (\<forall>env fetch fetchJoin toB32 http udp. \<not> hasNetworkHttp ch http \<longrightarrow>
          Server_ready C L cfg env fetch fetchJoin toB32 http udp (ch, cr, s\<lparr>nd_net := Some n\<rparr>)
            = Inr ((ch, cr, s\<lparr>nd_net := Some n\<rparr>), boot_new\<lparr>isJoiningNetwork := True\<rparr>))))"
proof -
  let ?s = "(node_new w)\<lparr>nd_net := Some net_new\<rparr>"
  let ?u = "\<lparr>su_retry = 1, su_waiting = True, su_polling = bootstrap_url cfg \<noteq> []\<rparr> :: startup"
  obtain ch cr where st: "Server_start C L cfg env rnd (Some (block_text g)) dbb dbs w = Inr ((ch, cr, ?s), ?u)"
    using genesis_start [OF L m disjI1 [OF b] g refl] by blast
  have r: "\<exists>n u'. start_run C cfg ((ch, cr, ?s), ?u) ((ch, cr, ?s\<lparr>nd_net := Some n\<rparr>), u') \<and> \<not> su_waiting u' \<and> arrayNetwork n = ps \<and>
      (\<forall>env fetch fetchJoin toB32 http udp. \<not> hasNetworkHttp ch http \<longrightarrow>
        Server_ready C L cfg env fetch fetchJoin toB32 http udp (ch, cr, ?s\<lparr>nd_net := Some n\<rparr>)
          = Inr ((ch, cr, ?s\<lparr>nd_net := Some n\<rparr>), boot_new\<lparr>isJoiningNetwork := True\<rparr>))" if ps: "jm_size (mapPeer ch) < 2 * length ps" for ps
  proof -
    let ?n1 = "sam_ready net_new" and ?n2 = "(sam_ready net_new)\<lparr>arrayNetwork := ps\<rparr>"
    let ?u2 = "?u\<lparr>su_polling := ps = []\<rparr>" and ?u3 = "?u\<lparr>su_polling := ps = [], su_retry := 2, su_waiting := False\<rparr>"
    let ?f = "\<lambda>url. Some (stringify (JArr (map json_of_peer ps)))"
    have "start_run C cfg ((ch, cr, ?s), ?u) ((ch, cr, ?s\<lparr>nd_net := Some ?n1\<rparr>), ?u)"
      by (rule start_run.sam [OF start_run.begun]) simp
    then have "start_run C cfg ((ch, cr, ?s), ?u) ((ch, cr, (?s\<lparr>nd_net := Some ?n1\<rparr>)\<lparr>nd_net := Some ?n2\<rparr>), ?u2)"
      by (rule start_run.poll [where n = ?n1 and fetch = ?f, OF _ _ _ bootstrapNetwork_served [OF refl]]) (simp_all add: b)
    then have p: "start_run C cfg ((ch, cr, ?s), ?u) ((ch, cr, ?s\<lparr>nd_net := Some ?n2\<rparr>), ?u2)" by simp
    have t: "Network_init ch ?n2 ?u2 = Inr ?u3"
      using ps by (simp add: Network_init_def hasP2PNetwork_def sam_ready_def)
    have "start_run C cfg ((ch, cr, ?s), ?u) ((ch, cr, ?s\<lparr>nd_net := Some ?n2\<rparr>), ?u3)"
      by (rule start_run.tick [OF p _ _ t]) simp_all
    moreover have "arrayBroadcast ?n2 = []" by (simp add: sam_ready_def net_new_def)
    then have "\<forall>env fetch fetchJoin toB32 http udp. \<not> hasNetworkHttp ch http \<longrightarrow>
        Server_ready C L cfg env fetch fetchJoin toB32 http udp (ch, cr, ?s\<lparr>nd_net := Some ?n2\<rparr>)
          = Inr ((ch, cr, ?s\<lparr>nd_net := Some ?n2\<rparr>), boot_new\<lparr>isJoiningNetwork := True\<rparr>)"
      by (intro allI impI ready_without_broadcast [OF b, where n = ?n2]) simp_all
    ultimately show ?thesis by (intro exI [of _ ?n2] exI [of _ ?u3] conjI) simp_all
  qed
  show ?thesis
    by (rule exI [of _ ch], rule exI [of _ cr], rule exI [of _ ?s], rule exI [of _ ?u], rule conjI, rule st, intro allI impI, erule r)
qed

section \<open>Witnesses\<close>

theorem restart_succeeds_iff_quiet_witness:
  "\<exists>ch cr s u. Server_start demo_crypto mem_level demo_cfg demo_env (\<lambda>_. 0) None
      (dbBlockchain (demo_chain ''abc'')) (dbState (demo_chain ''abc'')) (demo_wallet CHR ''a'') = Inr ((ch, cr, s), u) \<and> ch_height ch = 1"
proof -
  let ?r = "Server_start demo_crypto mem_level demo_cfg demo_env (\<lambda>_. 0) None
      (dbBlockchain (demo_chain ''abc'')) (dbState (demo_chain ''abc'')) (demo_wallet CHR ''a'')"
  obtain cr where r: "chain_run demo_crypto mem_level demo_cfg no_propose (demo_key CHR ''a'')
    [demo_genesis ''abc''] (demo_chain ''abc'') cr ()" using demo_run1 by blast
  have b: "bootstrap_url demo_cfg = []" by (simp add: demo_cfg_def)
  note t = restart_succeeds_iff_quiet [OF r mem_level_ok demo_max b, of demo_env "\<lambda>_. 0" None "demo_wallet CHR ''a''"]
  show ?thesis
  proof (cases ?r)
    case (Inl e)
    then show ?thesis using t by simp
  next
    case (Inr x)
    obtain ch cr s u where x: "x = ((ch, cr, s), u)" by (cases x) auto
    have "ch_height ch = 1" using t Inr x demo_chain_fields(1) by simp
    then show ?thesis using Inr x by blast
  qed
qed

text \<open>The sample configuration with an address to bootstrap from.\<close>

definition demo_boot_cfg :: config where
  "demo_boot_cfg = demo_cfg\<lparr>bootstrap_url := ''http://b''\<rparr>"

lemma demo_boot_cfg: "1 \<le> blockchain_max_blocks_in_memory demo_boot_cfg" "bootstrap_url demo_boot_cfg \<noteq> []"
  by (simp_all add: demo_boot_cfg_def demo_cfg_def)

theorem start_from_genesis_witness:
  "\<exists>ch cr s u. Server_start demo_crypto mem_level demo_boot_cfg demo_env (\<lambda>_. 0) (Some (block_text (demo_genesis ''abc'')))
      (dbBlockchain (demo_chain ''abc'')) [] (demo_wallet CHR ''a'') = Inr ((ch, cr, s), u) \<and> nd_net s = Some net_new"
  using start_from_genesis [OF mem_level_ok demo_boot_cfg(1) disjI1 [OF demo_boot_cfg(2)] demo_genesis_height] by blast

theorem bootstrap_asks_nobody_witness:
  "\<exists>ch cr s u. Server_start demo_crypto mem_level demo_boot_cfg demo_env (\<lambda>_. 0) (Some (block_text (demo_genesis ''abc'')))
      [] [] (demo_wallet CHR ''a'') = Inr ((ch, cr, s), u)"
  using bootstrap_asks_nobody [OF mem_level_ok demo_boot_cfg demo_genesis_height, of demo_crypto demo_env "\<lambda>_. 0" "''abc''" "[]" "[]" "demo_wallet CHR ''a''"]
  by (elim exE conjE) (intro exI)

end
