(* ===== verification/Returns.thy ===== *)
theory Returns
  imports Node_Frame Node_Round
begin

text \<open>
  When the handlers of a node return. The one loop in them that may not end is the search for an online
  validator; a node that is in its own list of peers always finds itself. The lemmas carry this through
  the handlers, each over the network object that the others leave alone (\<open>net_kept\<close>).
\<close>

section \<open>Members\<close>

definition member :: "crypto \<Rightarrow> node \<Rightarrow> bool" where
  "member C s \<longleftrightarrow> (\<forall>n. nd_net s = Some n \<longrightarrow> own_key C s \<in> set (map p_publicKey (arrayNetwork n)))"

lemma member_other: "member C s \<Longrightarrow> nd_net s' = nd_net s \<Longrightarrow> nd_wallet s' = nd_wallet s \<Longrightarrow> member C s'"
  by (simp add: member_def own_key_def)

lemma member_kept: "keeps_net (h, s) (h', s') \<Longrightarrow> member C s \<Longrightarrow> member C s'"
  by (rule member_other) simp_all

lemma member_upd [simp]:
  "member C (s\<lparr>nd_fac := f\<rparr>) = member C s" "member C (s\<lparr>nd_stackModifyStake := q\<rparr>) = member C s"
  by (simp_all add: member_def own_key_def)

definition returns :: "'a result \<Rightarrow> bool" where
  "returns r \<longleftrightarrow> r \<noteq> Inl NoReturn"

lemma returns_simps [simp]: "returns (Inr x)" "returns (Inl TypeError)" "returns (Inl (Thrown t))" "returns (Inl SyntaxError)"
  by (simp_all add: returns_def)

lemma returns_bindr: "returns r \<Longrightarrow> (\<And>x. r = Inr x \<Longrightarrow> returns (f x)) \<Longrightarrow> returns (bindr r f)"
  by (cases r) (auto simp: returns_def)

lemma returns_if: "(P \<Longrightarrow> returns a) \<Longrightarrow> (\<not> P \<Longrightarrow> returns b) \<Longrightarrow> returns (if P then a else b)"
  by simp

section \<open>Functions that do not look for a validator\<close>

lemma returns_net_of: "returns (net_of s)"
  by (simp add: net_of_def split: option.split)

lemma returns_send_all: "returns (send_all ch n m pks)"
  by (induction pks) (auto intro!: returns_bindr simp: send_to_def split: option.split)

lemma returns_send: "returns (send ch m hop s)"
  using returns_send_all [of ch n m "arrayBroadcast n" for n]
  by (auto intro!: returns_bindr returns_net_of simp: send_def broadcast_def send_to_def split: option.split)

lemma returns_receive: "returns (receive C ch n data from)"
  by (auto intro!: returns_bindr simp: receive_def validateMessage_def Message_type_def Let_def split: option.split)

section \<open>The search\<close>

lemma returns_calcValidator:
  assumes "member C s"
  shows "returns (calcValidator C cfg env ch s)"
proof (cases "nd_net s")
  case None
  then show ?thesis by (simp add: calcValidator_def net_of_def)
next
  case (Some n)
  let ?a = "map p_publicKey (arrayNetwork n)" and ?on = "isOnline cfg (own_key C s) (env_now env) n"
  have own: "own_key C s \<in> set ?a" "?on (own_key C s)" using assms Some by (simp_all add: member_def isOnline_def)
  then have N: "0 < length ?a" by (cases "arrayNetwork n") auto
  have found: "next_online ?on ?a i \<noteq> None" if "i < length ?a" for i
    using next_online_None_iff [of i ?a ?on] that own by blast
  have "returns (calcValidator_of ?on ?a ch)"
    unfolding calcValidator_of_def Let_def
  proof (intro returns_bindr)
    show "returns (if ?a \<noteq> [] \<and> ?on (?a ! (if ?a = [] then 0 else nat (ch_height ch mod int (length ?a))))
        then Inr (if ?a = [] then 0 else nat (ch_height ch mod int (length ?a)))
        else case latestBlock ch of None \<Rightarrow> Inl TypeError
          | Some b \<Rightarrow> bindr (stringDiff (blk_hash b) (blk_previousHash b)) (\<lambda>d. Inr (if ?a = [] then 0 else nat (d mod int (length ?a)))))"
      by (auto simp: stringDiff_def intro!: returns_bindr split: option.split)
  next
    fix i
    assume "(if ?a \<noteq> [] \<and> ?on (?a ! (if ?a = [] then 0 else nat (ch_height ch mod int (length ?a))))
        then Inr (if ?a = [] then 0 else nat (ch_height ch mod int (length ?a)))
        else case latestBlock ch of None \<Rightarrow> Inl TypeError
          | Some b \<Rightarrow> bindr (stringDiff (blk_hash b) (blk_previousHash b)) (\<lambda>d. Inr (if ?a = [] then 0 else nat (d mod int (length ?a))))) = Inr i"
    then have "i < length ?a" using N by (auto simp: nat_less_iff split: if_splits option.splits)
    then obtain j where "next_online ?on ?a i = Some j" using found by blast
    then show "returns (case next_online ?on ?a i of None \<Rightarrow> Inl NoReturn | Some j \<Rightarrow> Inr (?a ! j))" by simp
  qed
  then show ?thesis using Some by (auto simp: calcValidator_def net_of_def intro: returns_bindr)
qed

section \<open>Own transactions and proposals\<close>

lemma returns_doAddTx:
  assumes "member C s"
  shows "returns (doAddTx C cfg env ch s)"
  using assms
  by (auto simp: doAddTx_def Let_def split: list.split intro!: returns_bindr returns_calcValidator returns_send)

lemma returns_stackTx: "member C s \<Longrightarrow> returns (stackTx C cfg env ch commands ident s)"
  by (auto simp: stackTx_def stack_def Let_def intro!: returns_bindr returns_doAddTx)

lemma returns_proposeModifyStake:
  assumes "member C s"
  shows "returns (proposeModifyStake C cfg env ch k i n (cr, s))"
  using assms by (auto simp: proposeModifyStake_def Let_def intro!: returns_bindr returns_net_of returns_stackTx)

section \<open>Blocks\<close>

lemma returns_updateCache:
  assumes "member C s"
  shows "returns (updateCache cfg (proposeModifyStake C cfg env) b (ch, cr, s))"
  using returns_proposeModifyStake [OF assms]
  by (auto simp: updateCache_def Let_def split: list.split intro!: returns_bindr)

lemma returns_addBlock:
  assumes "member C s"
  shows "returns (addBlock C L cfg env b (ch, cr, s))"
proof -
  have "returns (chain_add C L cfg (proposeModifyStake C cfg env) (env_now env) b (ch, cr, s))"
    by (auto simp: chain_add_def Let_def split: prod.split intro!: returns_bindr returns_updateCache assms)
  moreover have "returns (if \<not> ok then Inr (ch1, cr1, s1) else bindr (calcValidator C cfg env ch1 (upd_fac (factory_clear (Some b1)) s1)) f)"
    if a: "chain_add C L cfg (proposeModifyStake C cfg env) (env_now env) b (ch, cr, s) = Inr (ok, b1, ch1, cr1, s1)"
      and f: "\<And>s. returns (f s)" for ok b1 ch1 cr1 s1 f
  proof -
    have "member C s1" using net_kept.chain_add_rel [OF a, of 0] member_kept [OF _ assms] by blast
    then show ?thesis using f by (auto intro!: returns_bindr returns_calcValidator)
  qed
  ultimately show ?thesis unfolding addBlock_def
    by (intro returns_bindr) (auto simp: Let_def split: prod.split)
qed

section \<open>Handlers\<close>

lemma member_sent:
  assumes "send ch m hop s = Inr s'" and "member C s"
  shows "member C s'"
  using net_kept.send_rel [OF assms(1), of 0] member_kept [OF _ assms(2)] by blast

lemma member_calc:
  assumes "calcValidator C cfg env ch s = Inr s'" and "member C s"
  shows "member C s'"
  using net_kept.calcValidator_rel [OF assms(1), of 0] member_kept [OF _ assms(2)] by blast

lemma returns_processSignBlock: "member C s \<Longrightarrow> returns (processSignBlock C L cfg env origin hash sig (ch, cr, s))"
  by (auto simp: processSignBlock_def Let_def split: option.split intro!: returns_bindr returns_send returns_addBlock elim: member_sent)

lemma returns_processConfirmBlock: "member C s \<Longrightarrow> returns (processConfirmBlock C L cfg env hash votes (ch, cr, s))"
  by (auto simp: processConfirmBlock_def Let_def split: option.split intro!: returns_addBlock)

lemma returns_processProposeBlock:
  assumes "member C s"
  shows "returns (processProposeBlock C L cfg env b (ch, cr, s))"
proof -
  let ?s = "upd_fac (\<lambda>f. f\<lparr>fac_block := Some b\<rparr>) s"
  have "returns (bindr (calcValidator C cfg env ch ?s) (\<lambda>s.
      bindr (if isValidator s (own_key C s)
             then processSignBlock C L cfg env (own_key C s) (blk_hash b) (wallet_sign C (nd_wallet s) (blk_hash b)) (ch, cr, s)
             else bindr (send ch (SignBlock_create C (nd_wallet s) (env_now env) (validator (nd_fac s)) (blk_hash b)) False s)
                    (\<lambda>s. Inr (ch, cr, s)))
        (\<lambda>(ch, cr, s). Inr (ch, cr, upd_fac (\<lambda>f. f\<lparr>timeoutRetry := True\<rparr>) s))))"
  proof (intro returns_bindr)
    show "returns (calcValidator C cfg env ch ?s)" using assms by (intro returns_calcValidator) simp
  next
    fix s1
    assume c: "calcValidator C cfg env ch ?s = Inr s1"
    have "member C s1" by (rule member_calc [OF c]) (simp add: assms)
    then show "returns (if isValidator s1 (own_key C s1)
             then processSignBlock C L cfg env (own_key C s1) (blk_hash b) (wallet_sign C (nd_wallet s1) (blk_hash b)) (ch, cr, s1)
             else bindr (send ch (SignBlock_create C (nd_wallet s1) (env_now env) (validator (nd_fac s1)) (blk_hash b)) False s1)
                    (\<lambda>s. Inr (ch, cr, s)))"
      by (auto intro!: returns_processSignBlock returns_bindr returns_send)
  qed (auto split: prod.split)
  then show ?thesis unfolding processProposeBlock_def prod.case Let_def by (intro returns_if returns_simps(1))
qed

lemma returns_processStatus:
  assumes "member C s"
  shows "returns (processStatus C cfg env origin status k (ch, cr, s))"
proof -
  have q: "returns (QuartileCoeff a)" for a by (simp add: QuartileCoeff_def Let_def)
  show ?thesis using assms
    by (auto simp: processStatus_def Let_def split: prod.split intro!: returns_bindr q returns_proposeModifyStake)
qed

lemma returns_processMessage:
  assumes "member C s"
  shows "returns (processMessage C L cfg env m (ch, cr, s))"
proof -
  have v: "returns (if P then Inr s else calcValidator C cfg env ch s)" for P
    by (auto intro: returns_calcValidator [OF assms])
  have k: "member C s1" if "(if P then Inr s else calcValidator C cfg env ch s) = Inr s1" for P s1
    using that assms by (auto split: if_splits dest: member_calc)
  show ?thesis unfolding processMessage_def prod.case
    by (intro returns_bindr v, drule k)
      (auto split: msg_data.split intro!: returns_processProposeBlock returns_processSignBlock returns_processConfirmBlock returns_processStatus)
qed

lemma member_noted: "nd_net s = Some n \<Longrightarrow> member C (s\<lparr>nd_net := Some (note_message now pk m n)\<rparr>) = member C s"
  by (simp add: member_def own_key_def note_message_def)

lemma returns_incomingData:
  assumes "member C s"
  shows "returns (incomingData C L cfg env data u (ch, cr, s))"
proof (cases "nd_net s")
  case None
  then show ?thesis by (simp add: incomingData_def net_of_def)
next
  case (Some n)
  have "member C (s\<lparr>nd_net := Some (note_message now pk m n)\<rparr>)" for now pk m using assms member_noted [OF Some] by blast
  then show ?thesis using Some
    by (auto simp: incomingData_def net_of_def split: option.split prod.split intro!: returns_bindr returns_receive returns_processMessage returns_send)
qed

lemma returns_add_blocks: "member C s \<Longrightarrow> returns (add_blocks C L cfg env blocks (ch, cr, s))"
proof (induction blocks arbitrary: ch cr s)
  case (Cons b blocks)
  show ?case unfolding add_blocks.simps
  proof (intro returns_bindr returns_addBlock Cons.prems)
    fix st
    assume a: "addBlock C L cfg env b (ch, cr, s) = Inr st"
    obtain ch1 cr1 s1 where st: "st = (ch1, cr1, s1)" by (cases st)
    have "member C s1" using net_kept.addBlock_rel [OF a [unfolded st]] member_kept [OF _ Cons.prems] by blast
    then show "returns (add_blocks C L cfg env blocks st)" unfolding st by (rule Cons.IH)
  qed
qed simp

lemma returns_sync_blocks: "member C s \<Longrightarrow> returns (sync_blocks C L cfg env blocks (ch, cr, s))"
  by (auto simp: sync_blocks_def split: prod.split intro!: returns_bindr returns_add_blocks)

lemma returns_fire_proposeBlock: "returns (fire_proposeBlock C env ch s)"
  by (auto simp: fire_proposeBlock_def Let_def split: option.split intro!: returns_send)

lemma returns_timers:
  assumes "member C s"
  shows "returns (fire_addTx C cfg env ch s)" and "returns (fire_retry C cfg env ch s)"
    and "returns (fire_p2p C env rnd (ch, cr, s))" and "returns (fire_status C env (ch, cr, s))"
  using assms by (auto simp: fire_addTx_def fire_retry_def fire_p2p_def fire_status_def intro!: returns_bindr returns_doAddTx returns_net_of returns_send)

end
