(* ===== verification/Process.thy ===== *)
theory Process
  imports Node_Theorems Server_Theorems Startup_Theorems Returns
begin

text \<open>
  A node as a process (\<open>src/main.ts\<close> around \<open>src/net/server.ts\<close>): what each event that reaches it makes of it.
  An exception in the handler of a datagram, of a timer or of a reply is an uncaught exception or an unhandled
  rejection, for both of which \<open>main.ts\<close> shuts down and exits with code 1; a request is answered by Express.
\<close>

section \<open>Events\<close>

datatype event =
    Datagram env string string
  | Request env api_env http_request
  | ProposeTimer env
  | AddTxTimer env
  | RetryTimer env
  | P2pTimer env "nat \<Rightarrow> rat"
  | StatusTimer env
  | SyncReply env "block list"
  | Signal signal

text \<open>\<open>Hung\<close>: a loop that does not end keeps the process busy.\<close>

datatype 'db process = Up "'db state" boot | Hung | Exited nat

definition settle :: "signal \<Rightarrow> boot \<Rightarrow> 'db state result \<Rightarrow> 'db process" where
  "settle sig bt r =
     (case r of
        Inr st \<Rightarrow> Up st bt
      | Inl e \<Rightarrow> if e = NoReturn then Hung else Exited (exit_code sig))"

text \<open>A timer that is not set does not fire, and a reply comes only while a synchronisation is under way.\<close>

fun react ::
    "crypto \<Rightarrow> 'db level \<Rightarrow> config \<Rightarrow> error_texts \<Rightarrow> event \<Rightarrow> 'db state \<Rightarrow> boot \<Rightarrow> 'db process" where
  "react C L cfg X (Datagram env data u) st bt = settle UncaughtException bt (incomingData C L cfg env data u st)"
| "react C L cfg X (Request env A rq) (ch, cr, s) bt =
     (case serve C L cfg A env X rq (ch, s, bt) of
        Answer x s' bt' \<Rightarrow> Up (ch, cr, s') bt'
      | Ended n \<Rightarrow> Exited n
      | NoAnswer \<Rightarrow> Hung)"
| "react C L cfg X (ProposeTimer env) (ch, cr, s) bt =
     (if timeoutProposeBlock (nd_fac s)
      then settle UncaughtException bt (bindr (fire_proposeBlock C env ch s) (\<lambda>s. Inr (ch, cr, s))) else Up (ch, cr, s) bt)"
| "react C L cfg X (AddTxTimer env) (ch, cr, s) bt =
     (if timeoutAddTx (nd_fac s)
      then settle UncaughtException bt (bindr (fire_addTx C cfg env ch s) (\<lambda>s. Inr (ch, cr, s))) else Up (ch, cr, s) bt)"
| "react C L cfg X (RetryTimer env) (ch, cr, s) bt =
     (if timeoutRetry (nd_fac s)
      then settle UncaughtException bt (bindr (fire_retry C cfg env ch s) (\<lambda>s. Inr (ch, cr, s))) else Up (ch, cr, s) bt)"
| "react C L cfg X (P2pTimer env rnd) st bt = settle UncaughtException bt (fire_p2p C env rnd st)"
| "react C L cfg X (StatusTimer env) st bt = settle UncaughtException bt (fire_status C env st)"
| "react C L cfg X (SyncReply env blocks) (ch, cr, s) bt =
     (if isSyncing (nd_fac s) then settle UnhandledRejection bt (sync_blocks C L cfg env blocks (ch, cr, s)) else Up (ch, cr, s) bt)"
| "react C L cfg X (Signal sig) st bt = Exited (exit_code sig)"

fun live :: "crypto \<Rightarrow> 'db level \<Rightarrow> config \<Rightarrow> error_texts \<Rightarrow> event list \<Rightarrow> 'db process \<Rightarrow> 'db process" where
  "live C L cfg X (e # es) (Up st bt) = live C L cfg X es (react C L cfg X e st bt)"
| "live C L cfg X es p = p"

section \<open>What events lead to\<close>

lemma settle_Up: "settle sig bt r = Up st' bt' \<longleftrightarrow> r = Inr st' \<and> bt' = bt"
  by (auto simp: settle_def split: sum.split)

lemma settle_Exited: "settle sig bt r = Exited n \<Longrightarrow> n = exit_code sig"
  by (auto simp: settle_def split: sum.splits if_splits)

lemma api_node:
  assumes "api C L cfg A env req (ch, s, bt) = Inr (x, s', bt')"
  shows "s' = s \<or> (\<exists>commands ident r. stackTx C cfg env ch commands ident s = Inr (r, s'))"
proof (cases "is_put req")
  case True
  then show ?thesis using assms
    by (cases req) (auto simp: api_def api_putTransaction_def api_leave_def split: if_splits option.splits)
next
  case False
  then show ?thesis using assms by (cases req) (auto simp: api_def split: prod.splits)
qed

lemma serve_node:
  assumes "serve C L cfg A env X rq (ch, s, bt) = Answer x s' bt'"
  shows "s' = s \<or> (\<exists>commands ident r. stackTx C cfg env ch commands ident s = Inr (r, s'))"
proof (cases "\<exists>req y. api C L cfg A env req (ch, s, bt) = Inr (y, s', bt')")
  case True
  then show ?thesis using api_node by blast
next
  case False
  then show ?thesis using assms
    by (auto simp: serve_def split: sum.splits prod.splits if_splits option.splits)
qed

text \<open>An event that a node survives is a step of it, or leaves it alone.\<close>

lemma react_step:
  assumes "react C L cfg X e st bt = Up st' bt'"
  shows "st' = st \<or> node_step C L cfg st st'"
proof -
  obtain ch cr s where st: "st = (ch, cr, s)" by (cases st)
  show ?thesis
  proof (cases e)
    case (Request env A rq)
    then obtain x s' where "serve C L cfg A env X rq (ch, s, bt) = Answer x s' bt'" "st' = (ch, cr, s')"
      using assms by (auto simp: st split: outcome.splits)
    then show ?thesis using serve_node [of C L cfg A env X rq ch s bt x s' bt'] node_step.put [of C cfg env ch _ _ s _ s' L cr] unfolding st by blast
  qed (use assms in \<open>auto simp: st settle_Up split: if_splits intro: node_step.intros\<close>)
qed

lemma live_done: "live C L cfg X es Hung = Hung" "live C L cfg X es (Exited n) = Exited n"
  by (cases es; simp)+

lemma live_append: "live C L cfg X (es @ fs) p = live C L cfg X fs (live C L cfg X es p)"
proof (induction es arbitrary: p)
  case (Cons e es)
  show ?case
  proof (cases p)
    case (Up st bt)
    then show ?thesis using Cons.IH by simp
  qed (simp_all add: live_done)
qed (cases p; simp)

lemma live_last: "live C L cfg X [e] p = (case p of Up st bt \<Rightarrow> react C L cfg X e st bt | q \<Rightarrow> q)"
  by (cases p) simp_all

lemma live_run: "live C L cfg X es (Up st bt) = Up st' bt' \<Longrightarrow> node_run C L cfg st st'"
proof (induction es arbitrary: st' bt' rule: rev_induct)
  case Nil
  then show ?case by (simp add: node_run.start)
next
  case (snoc e es)
  then obtain st1 bt1 where "live C L cfg X es (Up st bt) = Up st1 bt1" "react C L cfg X e st1 bt1 = Up st' bt'"
    by (auto simp: live_append live_last split: process.splits)
  then show ?case using snoc.IH react_step node_run.step by metis
qed

text \<open>A process that is no longer up was ended by an event.\<close>

lemma live_ends:
  assumes "live C L cfg X es (Up st bt) = p" and "\<And>st' bt'. p \<noteq> Up st' bt'"
  shows "\<exists>es1 e es2 st1 bt1. es = es1 @ e # es2 \<and> live C L cfg X es1 (Up st bt) = Up st1 bt1 \<and> react C L cfg X e st1 bt1 = p"
  using assms
proof (induction es arbitrary: p rule: rev_induct)
  case Nil
  then show ?case by (metis live.simps(2))
next
  case (snoc e es)
  show ?case
  proof (cases "live C L cfg X es (Up st bt)")
    case (Up st1 bt1)
    then show ?thesis using snoc.prems by (intro exI [of _ es] exI [of _ e] exI [of _ "[]"] exI [of _ st1] exI [of _ bt1])
      (simp add: live_append live_last)
  next
    case Hung
    then show ?thesis using snoc.IH [OF Hung] snoc.prems by (fastforce simp: live_append live_last)
  next
    case (Exited n)
    then show ?thesis using snoc.IH [OF Exited] snoc.prems by (fastforce simp: live_append live_last)
  qed
qed

lemma react_exit_code:
  assumes "react C L cfg X e st bt = Exited n"
  shows "n = (if e = Signal SIGINT \<or> e = Signal SIGTERM then 0 else 1)"
proof -
  obtain ch cr s where st: "st = (ch, cr, s)" by (cases st)
  show ?thesis
  proof (cases e)
    case (Request env A rq)
    then have "serve C L cfg A env X rq (ch, s, bt) = Ended n"
      using assms by (auto simp: st split: outcome.splits)
    then show ?thesis using Request by (auto simp: serve_def exit_code_def split: sum.splits prod.splits if_splits option.splits)
  next
    case (Signal sig)
    then show ?thesis using assms by (cases sig) (auto simp: exit_code_def)
  qed (use assms in \<open>auto simp: st exit_code_def split: if_splits dest: settle_Exited\<close>)
qed

lemma returns_settle: "returns r \<Longrightarrow> settle sig bt r \<noteq> Hung"
  by (auto simp: settle_def returns_def split: sum.split)

text \<open>A request that is no \<open>PUT\<close> is the business of \<open>get_answered\<close>.\<close>

fun is_reading :: "event \<Rightarrow> bool" where
  "is_reading (Request env A rq) = (hr_verb rq \<noteq> PUT)"
| "is_reading e = False"

lemma returns_put:
  assumes "is_put req" and "member C s"
  shows "returns (api C L cfg A env req (ch, s, bt))"
proof -
  have "returns (body_commands body)" for body by (cases body) simp_all
  then show ?thesis using assms
    by (cases req) (auto simp: api_def api_putTransaction_def api_leave_def split: prod.split option.split intro!: returns_bindr returns_stackTx)
qed

lemma route_put: "hr_verb rq = PUT \<Longrightarrow> route rq body = Some req \<Longrightarrow> is_put req"
  by (auto simp: route_def route_put_def split: list.splits if_splits)

lemma member_reacts:
  assumes m: "member C s" and e: "\<not> is_reading e"
  shows "react C L cfg X e (ch, cr, s) bt \<noteq> Hung"
proof (cases e)
  case (Request env A rq)
  then have v: "hr_verb rq = PUT" using e by simp
  have r: "returns (api C L cfg A env req (ch, s, bt))" if "route rq body = Some req" for body req
    by (rule returns_put [OF route_put [OF v that] m])
  have "serve C L cfg A env X rq (ch, s, bt) \<noteq> NoAnswer"
    using r v unfolding returns_def by (auto simp: serve_def split: sum.splits prod.splits option.splits if_splits)
  then show ?thesis using Request by (auto split: outcome.split)
next
  case (Datagram env d u)
  then show ?thesis using returns_settle [OF returns_incomingData [OF m]] by simp
next
  case (ProposeTimer env)
  have "returns (bindr (fire_proposeBlock C env ch s) (\<lambda>s. Inr (ch, cr, s)))"
    by (auto intro!: returns_bindr returns_fire_proposeBlock)
  then show ?thesis using ProposeTimer returns_settle by auto
next
  case (AddTxTimer env)
  have "returns (bindr (fire_addTx C cfg env ch s) (\<lambda>s. Inr (ch, cr, s)))"
    by (auto intro!: returns_bindr returns_timers [OF m])
  then show ?thesis using AddTxTimer returns_settle by auto
next
  case (RetryTimer env)
  have "returns (bindr (fire_retry C cfg env ch s) (\<lambda>s. Inr (ch, cr, s)))"
    by (auto intro!: returns_bindr returns_timers [OF m])
  then show ?thesis using RetryTimer returns_settle by auto
next
  case (P2pTimer env rnd)
  then show ?thesis using returns_settle [OF returns_timers(3) [OF m]] by simp
next
  case (StatusTimer env)
  then show ?thesis using returns_settle [OF returns_timers(4) [OF m]] by simp
next
  case (SyncReply env blocks)
  then show ?thesis by (auto simp: returns_settle [OF returns_sync_blocks [OF m]])
qed simp

section \<open>The life of a process\<close>


text \<open>C16: One datagram from the address of a known peer that is no packet, or whose version, coding or signature is wrong,
  ends the process with code 1; the empty datagram does. Started again, it comes up with its height and ledger
  exactly when no block above the genesis block would start a stake vote; else it ends again at once.\<close>

theorem one_datagram_ends_node:
  assumes run: "chain_run C L cfg propose pk bs ch cr0 s0" and L: "level_ok L" and m: "1 \<le> blockchain_max_blocks_in_memory cfg"
    and b: "bootstrap_url cfg = []"
    and n: "nd_net s = Some n" "\<not> isClosing n" "arrayNetwork n \<noteq> []" and k: "getPublicKeyByUdp ch u \<noteq> []"
    and g: "data = [] \<or> match_packet (trim data) = None \<or>
      (\<exists>v t g. match_packet (trim data) = Some (v, t, g) \<and> (int (nat_of_dec v) \<noteq> VERSION_4 \<or> b64_parse C False t = None \<or>
         (\<exists>j r. Option.bind (b64_parse C False t) (inflate_raw C) = Some (stringify j) \<and> str_field ''origin'' j = Some r \<and>
            \<not> verifySignature C r g t)))"
  shows "live C L cfg X (Datagram env data u # es) (Up (ch, cr, s) bt) = Exited 1 \<and>
    (case Server_start C L cfg env' rnd file (dbBlockchain ch) (dbState ch) w of
       Inl e \<Rightarrow> \<not> list_all quiet (tl bs)
     | Inr ((ch', cr', s'), st) \<Rightarrow> list_all quiet (tl bs) \<and> ch_height ch' = ch_height ch \<and> ledger_view ch' = ledger_view ch)"
proof -
  have "react C L cfg X (Datagram env data u) (ch, cr, s) bt = Exited 1"
    using garbage_throws [OF n k g] by (simp add: settle_def exit_code_def)
  then show ?thesis using restart_decides [OF run L m b, of env' rnd "file" w] by (auto split: sum.splits)
qed

section \<open>An instance\<close>


theorem one_datagram_ends_node_witness:
  "live demo_crypto mem_level demo_cfg demo_texts [Datagram demo_env [] ''udp-b''] (Up (demo_chain ''abc'', [], demo_node) boot_new) = Exited 1"
proof -
  obtain cr where r: "chain_run demo_crypto mem_level demo_cfg no_propose (demo_key CHR ''a'')
    [demo_genesis ''abc''] (demo_chain ''abc'') cr ()" using demo_run1 by blast
  have b: "bootstrap_url demo_cfg = []" by (simp add: demo_cfg_def)
  have n: "nd_net demo_node = Some demo_net" "\<not> isClosing demo_net" "arrayNetwork demo_net \<noteq> []"
    "getPublicKeyByUdp (demo_chain ''abc'') ''udp-b'' \<noteq> []"
    by (simp_all add: demo_node_def demo_net_def demo_status(4,5))
  from one_datagram_ends_node [OF r mem_level_ok demo_max b n disjI1 [OF refl], where X = demo_texts and env = demo_env and es = "[]" and cr = "[]" and bt = boot_new] show ?thesis by blast
qed

end
