(* ===== verification/Durability.thy ===== *)
theory Durability
  imports Async_Theorems Node_Theorems
begin

text \<open>
  Writes to the stores that fail. \<open>updateBlockData\<close>, \<open>updateStateData\<close> and \<open>deleteStateData\<close> catch the
  error and log it, so that \<open>add\<close> goes on and answers \<open>true\<close>. A store whose writes fail is a \<open>level\<close> whose
  \<open>put\<close> and \<open>del\<close> leave it as it is. Also what a vote does that comes after the quorum.
\<close>

section \<open>Failed writes\<close>

definition failing :: "'db level \<Rightarrow> 'db level" where
  "failing L = L\<lparr>lv_put := (\<lambda>k v d. d), lv_del := (\<lambda>k d. d)\<rparr>"

text \<open>Replaying any list of blocks, whatever their heights.\<close>

lemma init_loop_any:
  "init_loop L cfg propose now (map block_text cs) (ch, cr, s) = Inr (ch', cr', s') \<Longrightarrow> ledger_view ch = ledger_of bs \<Longrightarrow>
    ledger_view ch' = ledger_of (bs @ cs) \<and> (cs \<noteq> [] \<longrightarrow> ch_height ch' = blk_height (last cs) \<and>
      map_option blk_hash (latestBlock ch') = Some (blk_hash (last cs)))"
proof (induction cs arbitrary: bs ch cr s)
  case (Cons c cs)
  obtain ch1 cr1 s1 where u: "updateCache cfg propose c (ch, cr, s) = Inr (ch1, cr1, s1)"
    and r: "(case processState L cfg now c (ch1, cr1) of (b', ch2, cr2) \<Rightarrow>
       init_loop L cfg propose now (map block_text cs) (refresh_cached b' ch2, cr2, s1)) = Inr (ch', cr', s')"
    using Cons.prems(1) by auto
  obtain b' ch2 cr2 where p: "processState L cfg now c (ch1, cr1) = (b', ch2, cr2)"
    by (cases "processState L cfg now c (ch1, cr1)") auto
  obtain vm where ch1: "ch1 = (cache_block cfg c ch)\<lparr>mapVoteStake := vm\<rparr>" using u by (rule updateCache_Inr)
  have "ledger_view ch1 = ledger_view ch" unfolding ch1 by (simp add: ledger_view_def cache_block_def Let_def)
  then have "ledger_view ch2 = ledger_of (bs @ [c])" using ledger_of_snoc [OF p, of bs] Cons.prems(2) by simp
  then have v: "ledger_view (refresh_cached b' ch2) = ledger_of (bs @ [c])" by (simp add: refresh_cached_def ledger_view_def)
  have h: "ch_height (refresh_cached b' ch2) = blk_height c" "latestBlock (refresh_cached b' ch2) = Some b'" "blk_hash b' = blk_hash c"
    using processState_frame [OF p] processState_block [OF p] by (simp_all add: refresh_cached_def same_frame_def ch1 cache_block_fields)
  have i: "init_loop L cfg propose now (map block_text cs) (refresh_cached b' ch2, cr2, s1) = Inr (ch', cr', s')"
    using r p by simp
  show ?case
  proof (cases "cs = []")
    case True
    then show ?thesis using i h v by simp
  next
    case False
    then show ?thesis using Cons.IH [OF i v] by simp
  qed
qed simp

lemma chain_init_any:
  assumes "chain_init L cfg propose now (chain_new pk dbb dbs, cr, s) = Inr (ch', cr', s')"
    and "lv_values L dbb = map block_text bs" "bs \<noteq> []"
  shows "ledger_view ch' = ledger_of bs \<and> ch_height ch' = blk_height (last bs)"
proof -
  let ?ch = "(chain_new pk dbb dbs)\<lparr>ch_height := 0, mapBlocks := jm_empty, latestBlock := None, dbState := lv_clear L dbs\<rparr>"
  have "ledger_view ?ch = ledger_of []"
    by (simp add: ledger_of_def ledger_view_def chain_new_def)
  then show ?thesis using init_loop_any [of L cfg propose now bs ?ch cr s ch' cr' s' "[]"] assms
    by (simp add: chain_init_def Let_def) (simp add: chain_new_def)
qed

text \<open>What \<open>add\<close> does with a block that starts no stake vote, on any store.\<close>

lemma add_quiet_view:
  assumes "add_guard C ch b" and "quiet b" and "ledger_view ch = ledger_of bs"
  shows "\<exists>b' ch' cr'. chain_add C L cfg propose now b (ch, cr, s) = Inr (True, b', ch', cr', s) \<and>
    dbBlockchain ch' = dbBlockchain (updateBlockData L (block_key (blk_height b)) (block_text b) ch) \<and>
    ledger_view ch' = ledger_of (bs @ [b]) \<and> ch_height ch' = blk_height b \<and>
    map_option blk_hash (latestBlock ch') = Some (blk_hash b)"
proof -
  let ?ch = "updateBlockData L (block_key (blk_height b)) (block_text b) ch"
  obtain b1 ch1 cr1 where p: "processState L cfg now b (?ch, cr) = (b1, ch1, cr1)"
    by (cases "processState L cfg now b (?ch, cr)") auto
  have "hash_match_count b1 = hash_match_count b" by (simp only: hash_match_count_def processState_block [OF p])
  then have "quiet b1" using assms(2) by (simp add: quiet_def)
  from updateCache_quiet [OF this, of cfg propose ch1 cr1 s] obtain ch2 where
    u: "updateCache cfg propose b1 (ch1, cr1, s) = Inr (ch2, cr1, s)" by blast
  then obtain vm where ch2: "ch2 = (cache_block cfg b1 ch1)\<lparr>mapVoteStake := vm\<rparr>" by (rule updateCache_Inr)
  have "ledger_view ?ch = ledger_of bs" using assms(3) by (simp add: updateBlockData_def ledger_view_def)
  moreover have "ledger_view ch2 = ledger_view ch1" unfolding ch2 by (simp add: ledger_view_def cache_block_def Let_def)
  ultimately have "ledger_view ch2 = ledger_of (bs @ [b])" using ledger_of_snoc [OF p] by simp
  then show ?thesis
    using assms(1) p u processState_frame [OF p] processState_block [OF p]
    by (auto simp: chain_add_def Let_def ch2 cache_block_fields same_frame_def)
qed

lemma failing_store: "dbBlockchain (updateBlockData (failing L) k v ch) = dbBlockchain ch"
  by (simp add: updateBlockData_def failing_def)

text \<open>A block that is stored after a gap of one height.\<close>

lemma stored_after_gap:
  assumes L: "level_ok L" and ok: "chain_ok m bs ch" "stores L bs ch" and c: "blk_height c = ch_height ch + 2" "blk_height c < 10 ^ 16"
    and d: "dbBlockchain ch2 = dbBlockchain ch"
  shows "lv_values L (dbBlockchain (updateBlockData L (block_key (blk_height c)) (block_text c) ch2)) = map block_text (bs @ [c])"
proof -
  have hs: "map blk_height bs = [1 .. ch_height ch]" "0 \<le> ch_height ch" using ok(1) by (simp_all add: chain_ok_def)
  have "block_key (blk_height a) < block_key (blk_height c)" if "a \<in> set bs" for a
  proof -
    have "blk_height a \<in> set [1 .. ch_height ch]" using that hs(1) by (metis image_eqI set_map)
    then show ?thesis using c hs(2) by (subst block_key_less) auto
  qed
  then show ?thesis using ok(2) level_put_last [OF L, of "dbBlockchain ch" "block_key (blk_height c)"]
    by (auto simp: stores_def updateBlockData_def d lv_values_def)
qed



section \<open>A vote after the quorum\<close>

lemma more_votes_quorum:
  assumes "stake_inv 0 ch" and "hasQuorumWeighted ch xs"
  shows "hasQuorumWeighted ch (xs @ [k])"
  using assms wq.weight_nonneg [OF assms(1), of k] by (simp add: hasQuorumWeighted_iff)

text \<open>C31: While the validator adds a block whose votes are a quorum, the block is still the one under discussion and the height
  is the old one. A further valid vote makes it confirm the block again and call \<open>add\<close> again, which the check lets
  pass: the two calls overlap.\<close>

theorem vote_after_quorum_adds_again:
  assumes r: "chain_run C L cfg propose pk bs ch cr0 s0" and L: "level_ok L" and m: "1 \<le> blockchain_max_blocks_in_memory cfg"
    and b: "fac_block (nd_fac s) = Some b" "add_guard C ch b" and o: "origin \<notin> vote_origin ` set (blk_votes b)"
    and g: "verifySignature C origin sig (blk_hash b)" and t: "ts = [add_task_of cfg b]"
  shows "let b' = b\<lparr>blk_votes := blk_votes b @ [\<lparr>vote_origin = origin, vote_sig = sig\<rparr>]\<rparr>;
      s' = upd_fac (\<lambda>f. f\<lparr>fac_block := Some b'\<rparr>) s; st = updateBlockData L (block_key (blk_height b)) (block_text b) ch
    in processSignBlock C L cfg env origin (blk_hash b) sig (ch, cr, s)
         = bindr (send ch (ConfirmBlock_create C (nd_wallet s) (env_now env) (blk_hash b) (blk_votes b')) False s')
             (\<lambda>s. addBlock C L cfg env b' (ch, cr, s)) \<and>
       (\<exists>ch'. add_step C L cfg propose (Call b') (st, cr, s0, ts) = Inr (ch', cr, s0, ts @ [add_task_of cfg b']))"
proof -
  let ?b = "b\<lparr>blk_votes := blk_votes b @ [\<lparr>vote_origin = origin, vote_sig = sig\<rparr>]\<rparr>"
  have i: "stake_inv 0 ch" using chain_run_ok [OF r L m] by (simp add: chain_ok_def)
  have v: "votes_ok C ch b" using b(2) by (simp add: add_guard_def validateBlock_iff)
  then have q: "hasQuorumWeighted ch (map vote_origin (blk_votes b) @ [origin])"
    using more_votes_quorum [OF i] by (simp add: votes_ok_def)
  then have "votes_ok C ch ?b" using v g o by (simp add: votes_ok_def)
  then have "add_guard C ch ?b" using b(2) by (simp add: add_guard_def validateBlock_iff block_hash_ok_def)
  then have "\<exists>ch'. add_step C L cfg propose (Call ?b) (updateBlockData L (block_key (blk_height b)) (block_text b) ch, cr, s0, ts)
      = Inr (ch', cr, s0, ts @ [add_task_of cfg ?b])" by (simp add: add_guard_store)
  moreover have "\<not> list_ex (\<lambda>v. vote_origin v = origin) (blk_votes b)" using o by (auto simp: list_ex_iff)
  ultimately show ?thesis using b(1) q by (simp add: processSignBlock_def Let_def)
qed

theorem vote_after_quorum_adds_again_witness:
  "\<exists>ch'. add_step demo_crypto mem_level demo_cfg no_propose
      (Call (demo_block2\<lparr>blk_votes := blk_votes demo_block2 @ [demo_vote demo_block2 CHR ''c'']\<rparr>))
      (updateBlockData mem_level (block_key 2) (block_text demo_block2) (demo_chain ''abc''), jm_empty, (), [add_task_of demo_cfg demo_block2])
    = Inr (ch', jm_empty, (), [add_task_of demo_cfg demo_block2,
        add_task_of demo_cfg (demo_block2\<lparr>blk_votes := blk_votes demo_block2 @ [demo_vote demo_block2 CHR ''c'']\<rparr>)])"
proof -
  let ?s = "upd_fac (\<lambda>f. f\<lparr>fac_block := Some demo_block2\<rparr>) demo_node"
  obtain cr where r: "chain_run demo_crypto mem_level demo_cfg no_propose (demo_key CHR ''a'')
    [demo_genesis ''abc''] (demo_chain ''abc'') cr ()" using demo_run1 by blast
  have f: "fac_block (nd_fac ?s) = Some demo_block2" by simp
  have o: "demo_key CHR ''c'' \<notin> vote_origin ` set (blk_votes demo_block2)"
    by (simp add: demo_block2_def demo_next_fields) (simp add: demo_vote_def)
  have g: "verifySignature demo_crypto (demo_key CHR ''c'') (vote_sig (demo_vote demo_block2 CHR ''c'')) (blk_hash demo_block2)"
    using demo_vote_ok [of demo_block2 "CHR ''c''"] by (simp add: demo_vote_def)
  have v: "demo_vote demo_block2 CHR ''c'' = \<lparr>vote_origin = demo_key CHR ''c'', vote_sig = vote_sig (demo_vote demo_block2 CHR ''c'')\<rparr>"
    by (simp add: demo_vote_def)
  from vote_after_quorum_adds_again [OF r mem_level_ok demo_max f demo_guard o g refl, where cr = jm_empty] show ?thesis
    unfolding Let_def v [symmetric] demo_block2_height by simp
qed

end
