(* ===== verification/Network_Links.thy ===== *)
theory Network_Links
  imports Server_App Config_Make
begin

text \<open>
  The edges of \<open>src/net/network.ts\<close>: what \<open>init\<close> asks of the SAM library and what becomes of its answers,
  and \<open>fetch\<close>, one HTTP request through the SOCKS proxy. The libraries are arguments:
  \<open>createForward\<close> and \<open>createDatagram\<close> tell whether their promise is fulfilled, \<open>get_concat\<close> gives
  the status and the body of a reply, or none on an error or a timeout.
\<close>

section \<open>SAM sessions\<close>

record sam_account =
  sam_host :: string
  sam_portTCP :: int
  sam_publicKey :: string
  sam_privateKey :: string

record forward_options =
  fo_sam :: sam_account
  fo_host :: string
  fo_port :: int
  fo_silent :: bool

record datagram_options =
  do_sam :: sam_account
  do_address :: string
  do_port :: int
  do_hostForward :: string
  do_portForward :: int

definition forward_options_of :: "full_config \<Rightarrow> forward_options" where
  "forward_options_of c =
     \<lparr>fo_sam = \<lparr>sam_host = f_i2p_sam_http_host c, sam_portTCP = f_i2p_sam_http_port_tcp c,
        sam_publicKey = f_i2p_public_key_http c, sam_privateKey = f_i2p_private_key_http c\<rparr>,
      fo_host = f_i2p_sam_forward_http_host c, fo_port = f_i2p_sam_forward_http_port c, fo_silent = True\<rparr>"

definition datagram_options_of :: "full_config \<Rightarrow> datagram_options" where
  "datagram_options_of c =
     \<lparr>do_sam = \<lparr>sam_host = f_i2p_sam_udp_host c, sam_portTCP = f_i2p_sam_udp_port_tcp c,
        sam_publicKey = f_i2p_public_key_udp c, sam_privateKey = f_i2p_private_key_udp c\<rparr>,
      do_address = f_i2p_sam_listen_udp_host c, do_port = f_i2p_sam_listen_udp_port c,
      do_hostForward = f_i2p_sam_forward_udp_host c, do_portForward = f_i2p_sam_forward_udp_port c\<rparr>"

text \<open>
  The asynchronous part of \<open>init\<close>. A promise that is rejected is an unhandled rejection, at which the
  process ends with the code that \<open>Inl\<close> gives.
\<close>

definition Network_sessions ::
    "full_config \<Rightarrow> (forward_options \<Rightarrow> bool) \<Rightarrow> (datagram_options \<Rightarrow> bool) \<Rightarrow> net \<Rightarrow> nat + net" where
  "Network_sessions c createForward createDatagram n =
     (if \<not> createForward (forward_options_of c) then Inl (exit_code UnhandledRejection)
      else if \<not> createDatagram (datagram_options_of c) then Inl (exit_code UnhandledRejection)
      else Inr (n\<lparr>samReady := True\<rparr>))"

section \<open>HTTP requests\<close>

record fetch_options =
  fx_url :: string
  fx_agent :: "string \<times> int"
  fx_timeout :: int
  fx_followRedirects :: bool

text \<open>The agent: the URL of the proxy and its timeout.\<close>

definition socks_agent :: "full_config \<Rightarrow> string \<times> int" where
  "socks_agent c = (''socks://'' @ f_i2p_socks_host c @ '':'' @ dec_of_int (f_i2p_socks_port c), f_network_timeout_ms c)"

definition fetch_options_of :: "full_config \<Rightarrow> string \<Rightarrow> int \<Rightarrow> fetch_options" where
  "fetch_options_of c url timeout =
     \<lparr>fx_url = url, fx_agent = socks_agent c, fx_timeout = (if timeout > 0 then timeout else f_network_timeout_ms c),
      fx_followRedirects = False\<rparr>"

definition Network_fetch ::
    "full_config \<Rightarrow> (fetch_options \<Rightarrow> (nat \<times> string) option) \<Rightarrow> int \<Rightarrow> string \<Rightarrow> string option" where
  "Network_fetch c get_concat timeout url =
     (case get_concat (fetch_options_of c url timeout) of
        None \<Rightarrow> None
      | Some (status, data) \<Rightarrow> if status \<noteq> 200 then None else Some data)"

section \<open>Lemmas\<close>

lemma Network_fetch_Some:
  "Network_fetch c g t u = Some d \<longleftrightarrow> g (fetch_options_of c u t) = Some (200, d)"
  by (auto simp: Network_fetch_def split: option.splits)

text \<open>An answer of \<open>fetchFromApi\<close> is the JSON body of a reply with status 200, of the URL asked for or of a peer.\<close>

lemma fetch_loop_answer:
  "fetch_loop (Network_fetch c g t) toB32 ch endpoint pks = Inr (Some j) \<Longrightarrow>
    \<exists>pk \<in> set pks. \<exists>p d. getPeer ch pk = Some p \<and> json_parse d = Inr j \<and>
      g (fetch_options_of c (''http://'' @ toB32 (p_http p) @ ''.b32.i2p/'' @ endpoint) t) = Some (200, d)"
proof (induction pks)
  case (Cons pk pks)
  obtain p where p: "getPeer ch pk = Some p" using Cons.prems by (auto split: option.splits)
  let ?u = "''http://'' @ toB32 (p_http p) @ ''.b32.i2p/'' @ endpoint"
  show ?case
  proof (cases "\<exists>d. Network_fetch c g t ?u = Some d \<and> json_parse d = Inr j")
    case True
    then show ?thesis using p by (auto simp: Network_fetch_Some)
  next
    case False
    then have "fetch_loop (Network_fetch c g t) toB32 ch endpoint pks = Inr (Some j)"
      using Cons.prems p by (auto split: option.splits sum.splits)
    then show ?thesis using Cons.IH by auto
  qed
qed simp

lemma fetchFromApi_answer:
  assumes "fetchFromApi (Network_fetch c g t) toB32 ch n endpoint = Inr (Some j)"
  shows "\<exists>u d. g (fetch_options_of c u t) = Some (200, d) \<and> json_parse d = Inr j \<and>
    (if is_prefix ''http://'' endpoint then u = endpoint
     else \<exists>pk \<in> set (arrayBroadcast n). \<exists>p. getPeer ch pk = Some p \<and> u = ''http://'' @ toB32 (p_http p) @ ''.b32.i2p/'' @ endpoint)"
proof (cases "is_prefix ''http://'' endpoint")
  case True
  then show ?thesis using assms by (auto simp: fetchFromApi_def Network_fetch_Some split: option.splits sum.splits)
next
  case False
  then show ?thesis using assms fetch_loop_answer [of c g t toB32 ch endpoint "arrayBroadcast n" j]
    by (auto simp: fetchFromApi_def)
qed

end
