(* ===== verification/Setup.thy ===== *)
theory Setup
  imports Config_Make Json
begin

text \<open>
  What is set up around the program: \<open>src/logger.ts\<close>, which chooses the level of the logger;
  \<open>src/version.ts\<close>, a step of the build that writes the version of the package to a file, from which the
  configuration reads it later; the options with which the constructor of \<open>src/chain/blockchain.ts\<close> opens the
  two stores, and those with which the one of \<open>src/net/server.ts\<close> makes the feed of blocks.
\<close>

definition Logger_level :: "world \<Rightarrow> string" where
  "Logger_level w =
     (if environ w ''NODE_ENV'' = Some ''development'' then str_or (env_str w ''LOG_LEVEL'') ''trace''
      else str_or (env_str w ''LOG_LEVEL'') ''warn'')"

text \<open>\<open>dirname\<close>: the directory of the script. A file cannot be written from a version that is no text.\<close>

definition write_version :: "string \<Rightarrow> world \<Rightarrow> world result" where
  "write_version dirname w =
     bindr (readFileSync (path_join [dirname, ''../package.json'']) w) (\<lambda>t.
       case json_parse t of
         Inl e \<Rightarrow> Inl e
       | Inr j \<Rightarrow>
           (case str_field ''version'' j of
              None \<Rightarrow> Inl TypeError
            | Some v \<Rightarrow> Inr (writeFileSync (path_join [dirname, ''../build/version'']) v w)))"

text \<open>The configuration of a program whose directory has the file that the build wrote shows the version of the package.\<close>

lemma version_reaches_config:
  assumes "files w (path_join [dirname, ''../package.json'']) = Some (stringify (JObj fs))" and "map_of (rev fs) ''version'' = Some (JStr v)"
    and "write_version dirname w = Inr w'" and "files w2 (path_join [pf_dirname P, ''version'']) = files w' (path_join [dirname, ''../build/version''])"
  shows "config_version P path_app w2 = Inr v"
proof -
  have "json_parse (stringify (JObj fs)) = Inr (JObj fs)" by (rule json_parse_stringify)
  moreover have "str_field ''version'' (JObj fs) = Some v" using assms(2) by (simp add: str_field_def)
  ultimately have "w' = writeFileSync (path_join [dirname, ''../build/version'']) v w"
    using assms(1,3) by (simp add: write_version_def readFileSync_def del: stringify.simps)
  then show ?thesis using assms(4) by (simp add: config_version_def readFileSync_def)
qed

section \<open>Stores and feed\<close>

record store_options =
  so_location :: string
  so_createIfMissing :: bool
  so_errorIfExists :: bool
  so_compression :: bool
  so_cacheSize :: int

text \<open>The stores of blocks and of the state, each in a directory named by the key of the node.\<close>

definition Blockchain_stores :: "full_config \<Rightarrow> string \<Rightarrow> store_options \<times> store_options" where
  "Blockchain_stores c publicKey =
     (\<lparr>so_location = path_join [f_path_blockstore c, publicKey], so_createIfMissing = True, so_errorIfExists = False,
       so_compression = True, so_cacheSize = 2 * 1024 * 1024\<rparr>,
      \<lparr>so_location = path_join [f_path_state c, publicKey], so_createIfMissing = True, so_errorIfExists = False,
       so_compression = True, so_cacheSize = 2 * 1024 * 1024\<rparr>)"

record feed_options =
  fe_host :: string
  fe_port :: int
  fe_perMessageDeflate :: bool

definition Server_feed :: "full_config \<Rightarrow> feed_options" where
  "Server_feed c = \<lparr>fe_host = f_ip c, fe_port = f_port_block_feed c, fe_perMessageDeflate = False\<rparr>"

end
