(* ===== verification/Spec2Isabelle.thy ===== *)
theory Spec2Isabelle
  imports Genesis Rounds Process Durability Network_Links Setup
begin

text \<open>
  \<^bold>\<open>divachain\<close>: a blockchain node. Nodes reach each other over I2P (datagrams for messages, HTTP
  for the interface), agree on one block after the other by votes weighted with stake, and keep
  the blocks and a state in two LevelDB stores. This library models the TypeScript under
  \<open>src/src\<close> and proves what makes it correct, and where it is not.

  \<^bold>\<open>Parts of the program and the theories that model them\<close>

  \<^item> \<open>Prelude\<close>, \<open>Js_Map\<close>, \<open>Js_Sort\<close>, \<open>Js_Number\<close>, \<open>Json\<close>: what the source uses of JavaScript. Results
    are \<open>error + 'a\<close> with \<open>bindr\<close>; \<open>Map\<close> keeps the order of insertion (locale \<open>js_map\<close>, interpreted
    on association lists); \<open>Array.sort\<close> is stable (locale \<open>comparator\<close>, interpreted on the comparisons of numbers,
    vote counts and peers); numbers read from text are exact rationals, \<open>NaN\<close> and the infinities; JSON text and its parser.
  \<^item> \<open>Externals\<close>: the packages the code calls, as records of functions. \<open>crypto\<close>: sodium, base64url,
    zlib; \<open>level\<close>: a LevelDB with the laws \<open>level_ok\<close>. \<open>Samples\<close> has concrete ones for the witnesses.
  \<^item> \<open>Util\<close>, \<open>Transactions\<close>, \<open>Schemas\<close>: \<open>chain/util.ts\<close>, \<open>chain/transaction.ts\<close>, \<open>chain/block.ts\<close>, the schemas.
  \<^item> \<open>Ledger\<close>, \<open>Ledger_Inv\<close>: peers, stakes, stake votes, decisions and the state store of
    \<open>chain/blockchain.ts\<close> (\<open>processState\<close> and below). The locale \<open>ledger_invariant\<close> lifts what every command
    keeps to whole blocks, with five interpretations; the locale \<open>weighted_quorum\<close> proves that two quorums
    meet; it is interpreted on \<open>hasQuorumWeighted\<close>.
  \<^item> \<open>Validation\<close>: \<open>net/validation.ts\<close>.
  \<^item> \<open>Chain\<close>, \<open>Block_Keys\<close>, \<open>Chain_Inv\<close>, \<open>Chain_Run\<close>, \<open>Chain_Queries\<close>: the store of blocks, the cache, \<open>add\<close>,
    \<open>init\<close>, \<open>clear\<close>, \<open>reset\<close> and the queries of \<open>chain/blockchain.ts\<close>. \<open>chain_run\<close> holds for the chains that
    boots, adds and restarts lead to; \<open>chain_ok\<close> and \<open>stores\<close> are the invariants.
  \<^item> \<open>Chain_Async\<close>: \<open>add\<close> as turns between its \<open>await\<close>s, with any number of calls under way and any order of
    their turns (\<open>add_step\<close>, \<open>add_exec\<close>). The locale \<open>adding_invariant\<close> extends \<open>ledger_invariant\<close> and carries what every
    command keeps through every interleaving; it is interpreted on the sum of the stakes and on the state store.
  \<^item> \<open>Messages\<close>, \<open>Peer_Network\<close>: \<open>net/message\<close> and \<open>net/network.ts\<close> down to the transport; \<open>Network_Links\<close>: what
    \<open>init\<close> and \<open>fetch\<close> ask of the SAM and HTTP libraries and make of their answers.
  \<^item> \<open>Block_Factory\<close>, \<open>Node\<close>: \<open>net/block-factory.ts\<close>, and from \<open>net/server.ts\<close> what it calls. The state of a
    node is a chain, the stake credits and the record \<open>node\<close>; \<open>node_step\<close> has a rule per event
    (datagram, request, each timer, reply of a synchronisation), \<open>node_run\<close> is any sequence of them.
  \<^item> \<open>Node_Inv\<close>, \<open>Node_Frame\<close>: what events keep. The locale \<open>handler_rel\<close> carries a relation between the node
    before and after through every handler once; it is interpreted on the network object, which handlers leave alone.
    \<open>node_rel\<close> extends it to all events; it is interpreted on the sequence numbers of
    messages, on the queue of own transactions and on what a node without a SAM session sends.
  \<^item> \<open>Bootstrap\<close>: \<open>net/bootstrap.ts\<close>; \<open>Api\<close>: \<open>net/api.ts\<close>, a constructor of \<open>request\<close> per route;
    \<open>Startup\<close>: \<open>Server.start\<close>, \<open>Blockchain.make\<close>, \<open>Network.make\<close> and \<open>init\<close>; \<open>Server_App\<close>: the rest of
    \<open>net/server.ts\<close> (the order of the Express handlers, \<open>error\<close>, \<open>feedBlock\<close>, \<open>shutdown\<close>) and the handlers of \<open>main.ts\<close>.
  \<^item> \<open>Process\<close>: a node as the process that \<open>main.ts\<close> starts. \<open>react\<close> says what each event (datagram, request, timer, reply,
    signal) makes of it: it goes on (\<open>Up\<close>), loops (\<open>Hung\<close>) or ends with a code (\<open>Exited\<close>); \<open>live\<close> is a list of events.
  \<^item> \<open>Wallet_Files\<close>, \<open>Config_Make\<close>, \<open>Genesis\<close>: \<open>chain/wallet.ts\<close>, \<open>config.ts\<close>, \<open>genesis.ts\<close> over a file
    system, an environment and a source of randomness given as one value (\<open>world\<close>); \<open>Setup\<close>: \<open>logger.ts\<close>, \<open>version.ts\<close>,
    and the options of the stores and of the feed.

  \<^bold>\<open>What the groups of theorems show\<close>

  \<^item> Agreement (\<open>Chain_Theorems\<close>): conflicting blocks share a voter; nodes with the same blocks have the
    same ledger; \<open>add\<close> refines appending to a list; stored blocks are linked and numbered; the
    state store shows the peers.
  \<^item> Ledger (\<open>Ledger_Theorems\<close>): stakes add up, a stake changes by a quorum only, what signatures and
    hashes bind; and the faults of \<open>reset\<close>, of proposal keys and of the cached block.
  \<^item> Queries and interface (\<open>Chain_Queries\<close>, \<open>Api_Theorems\<close>): reading never fails on a reachable chain,
    ranges are clamped, only the owner of the token changes the node.
  \<^item> Node (\<open>Node_Theorems\<close>): no event loses a stored block; no message is processed twice; own
    transactions are a queue; which validator is chosen and when the choice does not return; the
    round trip of packets; and three ways in which a proposal fails.
  \<^item> Concurrency (\<open>Async_Theorems\<close>, \<open>Durability\<close>): a call of \<open>add\<close> that is left alone is the sequential one; stakes
    add up in every interleaving, but overlapping calls process a block once each, and a late one takes the
    chain back; a vote after the quorum makes two calls overlap; a failed write leaves a gap for the next restart.
  \<^item> Rounds (\<open>Node_Round\<close>, \<open>Wire_Round\<close>): honest nodes that agree and hear each other add the proposed block
    in one round of packets, through unpacking, schemas, sequence numbers, the handlers and the passing on of
    messages; and which messages of a round the schemas let pass. \<open>Rounds\<close>: after a round the nodes are ready for the
    next one, and agree on the next peer of the list as its validator.
  \<^item> Process (\<open>Returns\<close>, \<open>Process\<close>): every handler of a node in its own list of peers returns; a process keeps its blocks
    through any events, and which event ends it with which code; one malformed datagram does.
  \<^item> Addresses (\<open>Addresses\<close>): a new peer can take over the address of another one.
  \<^item> Server (\<open>Server_Theorems\<close>): every request that reads is answered, a malformed body ends the process,
    nothing leaves a node after \<open>shutdown\<close>.
  \<^item> Joining and starting (\<open>Bootstrap_Theorems\<close>, \<open>Startup_Theorems\<close>): only the owner of a key is
    proposed; the handshake completes; a restart succeeds exactly when no stored block would start
    a stake vote; a bootstrapping node that resets a second time never returns.
  \<^item> Set-up (\<open>Config_Make\<close>, \<open>Wallet_Files\<close>, \<open>Genesis\<close>): limits hold, keys persist, the genesis block
    starts the network it describes.

  \<^bold>\<open>Loops\<close>

  Loops over lists are structural recursion. Two loops of the code may not end and are
  \<open>partial_function (option)\<close>: the search for an online validator (\<open>next_online\<close>) and the
  synchronisation of a bootstrapping node (\<open>sync_loop\<close>). \<open>None\<close>, reported as the error \<open>NoReturn\<close>, means
  that the loop does not end; theorems say exactly when. No fuel is used. The retries of
  \<open>Network.init\<close> are bounded by the code itself.

  \<^bold>\<open>Abstractions\<close>

  \<^item> An exception is an \<open>Inl\<close>; a handler that throws has no further effect in the model. In the
    runs of a node asynchronous functions run to their end before the next event, although the code has no
    lock that would ensure it. \<open>Chain_Async\<close> drops this for \<open>add\<close>; there each call has a block object of its
    own and a write takes effect when it is started.
  \<^item> Strings are lists of 8-bit characters; sizes and lengths count them. Numbers that the code
    computes with are integers or exact rationals instead of doubles.
  \<^item> JSON objects have the order of keys that the code writes; a received object with other keys or
    another order is refused. Replies of other nodes that are no blocks or peers count as missing.
  \<^item> Writing a file does not fail, and writing to a store only in \<open>Durability\<close>. \<open>trim\<close> removes the ASCII white space. Express matches
    paths regardless of case, which is left out. The schemas accept no line feed at the end of
    a text, as \<open>$\<close> does not without the flag \<open>m\<close>.

  \<^bold>\<open>Not modelled\<close>

  Sockets, the inside of SAM sessions, HTTP and web-socket servers (set-up of libraries; what is sent
  and received is data here, and that the sessions exist is an event), what the logger prints, the type declarations,
  and the compiled copy of the sources under \<open>src/dist\<close>, which is the output of the compiler for the files modelled here. The
  branch of \<open>chain/blockchain.ts\<close> that takes decisions is a comment in the source. A process that ends is \<open>Exited\<close> at once;
  the wait of \<open>shutdown\<close> for open connections is left out. Of concurrency: events between the turns of \<open>add\<close> that change the factory, and calls that
  share one block object.
\<close>

end
